(* ===== verification/TG_Prelude.thy ===== *)
theory TG_Prelude
  imports Main "HOL-Library.Word" "HOL-Library.Sublist"
begin

text \<open>
  Shared vocabulary of the TurnGuard development: bytes and Go strings, the error-or-value
  results of Go functions, big-endian integers as package encoding/binary writes them, the
  functions of packages strings and encoding/hex that the code uses, the copy builtin, atomic
  counters, and the named collections the component theories extend.

  A Go string is a sequence of bytes, so it is a \<^typ>\<open>string\<close> whose characters are bytes
  (a character outside ASCII is several of them, as in Go).  Wire data is a list of 8-bit words.
\<close>

unbundle bit_operations_syntax

named_theorems tg_consts \<open>the constants of the program, unfolded\<close>
named_theorems tg_frame \<open>fields that an operation leaves alone\<close>

type_synonym byte = "8 word"
type_synonym bytes = "8 word list"

section \<open>Results: a Go pair (value, error)\<close>

type_synonym ('e, 'a) result = "'e + 'a"

definition rbind :: "('e, 'a) result \<Rightarrow> ('a \<Rightarrow> ('e, 'b) result) \<Rightarrow> ('e, 'b) result" where
  "rbind r f = (case r of Inl e \<Rightarrow> Inl e | Inr x \<Rightarrow> f x)"

definition is_ok :: "('e, 'a) result \<Rightarrow> bool" where
  "is_ok r = (case r of Inl _ \<Rightarrow> False | Inr _ \<Rightarrow> True)"

lemma rbind_simps [simp]: "rbind (Inl e) f = Inl e" "rbind (Inr x) f = f x"
  by (simp_all add: rbind_def)

lemma rbind_Inr_iff: "rbind r f = Inr y \<longleftrightarrow> (\<exists>x. r = Inr x \<and> f x = Inr y)"
  by (cases r) auto

lemma is_ok_simps [simp]: "\<not> is_ok (Inl e)" "is_ok (Inr x)"
  by (simp_all add: is_ok_def)

lemma is_ok_iff: "is_ok r \<longleftrightarrow> (\<exists>x. r = Inr x)"
  by (cases r) auto

section \<open>The copy builtin: copy(dst[i:], src)\<close>

definition overwrite :: "nat \<Rightarrow> 'a list \<Rightarrow> 'a list \<Rightarrow> 'a list" where
  "overwrite i src dst = take i dst @ take (length dst - i) src @ drop (i + length src) dst"

lemma length_overwrite [simp]: "i \<le> length dst \<Longrightarrow> length (overwrite i src dst) = length dst"
  by (simp add: overwrite_def min_def)

lemma overwrite_append:
  "length pre = i \<Longrightarrow> length old = length src \<Longrightarrow>
   overwrite i src (pre @ old @ post) = pre @ src @ post"
  by (simp add: overwrite_def)

lemma overwrite_nth:
  "i \<le> length dst \<Longrightarrow> j < length dst \<Longrightarrow> i + length src \<le> length dst \<Longrightarrow>
   overwrite i src dst ! j = (if j < i then dst ! j
     else if j < i + length src then src ! (j - i) else dst ! j)"
  by (auto simp: overwrite_def nth_append min_def)

section \<open>Big-endian integers (encoding/binary)\<close>

definition put_be16 :: "16 word \<Rightarrow> bytes" where
  "put_be16 w = [ucast (drop_bit 8 w), ucast w]"

definition put_be32 :: "32 word \<Rightarrow> bytes" where
  "put_be32 w = [ucast (drop_bit 24 w), ucast (drop_bit 16 w), ucast (drop_bit 8 w), ucast w]"

definition put_be64 :: "64 word \<Rightarrow> bytes" where
  "put_be64 w = [ucast (drop_bit 56 w), ucast (drop_bit 48 w), ucast (drop_bit 40 w),
     ucast (drop_bit 32 w), ucast (drop_bit 24 w), ucast (drop_bit 16 w), ucast (drop_bit 8 w),
     ucast w]"

definition get_be :: "bytes \<Rightarrow> 'a::len word" where
  "get_be bs = foldl (\<lambda>acc b. push_bit 8 acc OR ucast b) 0 bs"

lemma length_put_be [simp]:
  "length (put_be16 a) = 2" "length (put_be32 b) = 4" "length (put_be64 c) = 8"
  by (simp_all add: put_be16_def put_be32_def put_be64_def)

lemma get_put_be16 [simp]: "get_be (put_be16 w) = w"
  by (rule bit_word_eqI) (auto simp: get_be_def put_be16_def bit_simps not_less le_Suc_eq)

lemma be_step:
  "push_bit 8 (drop_bit (k + 8) w) OR ucast (ucast (drop_bit k w) :: byte) =
   drop_bit k (w :: 'a::len word)"
proof (rule bit_word_eqI)
  fix n assume "n < LENGTH('a)"
  then show "bit (push_bit 8 (drop_bit (k + 8) w) OR ucast (ucast (drop_bit k w) :: byte)) n =
      bit (drop_bit k w) n"
    by (cases "n < 8") (auto simp: bit_simps dest: bit_imp_le_length)
qed

lemma drop_bit_all: "LENGTH('a) \<le> k \<Longrightarrow> drop_bit k (w :: 'a::len word) = 0"
  by (rule bit_word_eqI) (auto simp: bit_simps dest: bit_imp_le_length)

lemma get_put_be32 [simp]: "get_be (put_be32 w) = w"
  using be_step [of 24 w] be_step [of 16 w] be_step [of 8 w] be_step [of 0 w]
  by (simp add: get_be_def put_be32_def drop_bit_all)

lemma get_put_be64 [simp]: "get_be (put_be64 w) = w"
  using be_step [of 56 w] be_step [of 48 w] be_step [of 40 w] be_step [of 32 w]
    be_step [of 24 w] be_step [of 16 w] be_step [of 8 w] be_step [of 0 w]
  by (simp add: get_be_def put_be64_def drop_bit_all)

lemma put_be_inject:
  "put_be16 a = put_be16 a' \<longleftrightarrow> a = a'"
  "put_be32 b = put_be32 b' \<longleftrightarrow> b = b'"
  "put_be64 c = put_be64 c' \<longleftrightarrow> c = c'"
  by (metis get_put_be16, metis get_put_be32, metis get_put_be64)

section \<open>Package strings\<close>

fun str_contains :: "string \<Rightarrow> string \<Rightarrow> bool" where
  "str_contains [] t = (t = [])"
| "str_contains (c # s) t = (prefix t (c # s) \<or> str_contains s t)"

lemma str_contains_iff: "str_contains s t \<longleftrightarrow> sublist t s"
  by (induction s) (auto simp: sublist_Cons_right)

lemma str_contains_append [intro]:
  "str_contains s t \<Longrightarrow> str_contains (a @ s @ b) t"
  by (auto simp: str_contains_iff sublist_def) (metis append.assoc)

definition trim_prefix :: "string \<Rightarrow> string \<Rightarrow> string" where
  "trim_prefix p s = (if prefix p s then drop (length p) s else s)"

text \<open>\<open>strings.Split(s, sep)\<close> with a one-byte separator: always at least one part.\<close>

fun str_split :: "char \<Rightarrow> string \<Rightarrow> string list" where
  "str_split sep [] = [[]]"
| "str_split sep (c # s) =
     (if c = sep then [] # str_split sep s
      else (case str_split sep s of [] \<Rightarrow> [[c]] | p # ps \<Rightarrow> (c # p) # ps))"

lemma str_split_nonempty [simp]: "str_split sep s \<noteq> []"
  by (induction s) (auto split: list.splits)

lemma str_split_no_sep: "p \<in> set (str_split sep s) \<Longrightarrow> sep \<notin> set p"
proof (induction s arbitrary: p)
  case (Cons c s)
  then show ?case by (cases "str_split sep s") (auto split: if_splits)
qed simp

fun str_join :: "string \<Rightarrow> string list \<Rightarrow> string" where
  "str_join sep [] = []"
| "str_join sep [p] = p"
| "str_join sep (p # q # ps) = p @ sep @ str_join sep (q # ps)"

lemma str_join_split: "str_join [sep] (str_split sep s) = s"
proof (induction s)
  case (Cons c s)
  then show ?case
    by (cases "str_split sep s" rule: list.exhaust; cases "tl (str_split sep s)") auto
qed simp

definition is_space :: "char \<Rightarrow> bool" where
  "is_space c \<longleftrightarrow> of_char c \<in> {9, 10, 11, 12, 13, 32 :: nat}"

definition trim_space :: "string \<Rightarrow> string" where
  "trim_space s = rev (dropWhile is_space (rev (dropWhile is_space s)))"

definition to_lower_char :: "char \<Rightarrow> char" where
  "to_lower_char c = (if 65 \<le> (of_char c :: nat) \<and> of_char c \<le> (90 :: nat)
     then char_of (of_char c + 32 :: nat) else c)"

definition to_lower :: "string \<Rightarrow> string" where
  "to_lower s = map to_lower_char s"

definition trim_suffix :: "string \<Rightarrow> string \<Rightarrow> string" where
  "trim_suffix p s = (if suffix p s then take (length s - length p) s else s)"

lemma str_split_no [simp]: "sep \<notin> set p \<Longrightarrow> str_split sep p = [p]"
  by (induction p) auto

lemma str_split_append: "sep \<notin> set p \<Longrightarrow> str_split sep (p @ sep # s) = p # str_split sep s"
  by (induction p) auto

lemma str_split_join:
  "ps \<noteq> [] \<Longrightarrow> \<forall>p \<in> set ps. sep \<notin> set p \<Longrightarrow> str_split sep (str_join [sep] ps) = ps"
  by (induction "[sep]" ps rule: str_join.induct) (auto simp: str_split_append)

section \<open>Lists without duplicates: the seen map of the merging loops\<close>

definition add_new :: "'a \<Rightarrow> 'a list \<Rightarrow> 'a list" where
  "add_new x xs = (if x \<in> set xs then xs else xs @ [x])"

definition merge_new :: "'a list \<Rightarrow> 'a list \<Rightarrow> 'a list" where
  "merge_new ys xs = fold add_new ys xs"

lemma merge_new_simps [simp]: "merge_new [] xs = xs" "merge_new (y # ys) xs = merge_new ys (add_new y xs)"
  by (simp_all add: merge_new_def)

lemma merge_new_append: "merge_new (ys @ zs) xs = merge_new zs (merge_new ys xs)"
  by (simp add: merge_new_def)

lemma set_add_new [simp]: "set (add_new x xs) = insert x (set xs)"
  by (auto simp: add_new_def)

lemma distinct_add_new [simp]: "distinct (add_new x xs) = distinct xs"
  by (auto simp: add_new_def)

lemma set_merge_new [simp]: "set (merge_new ys xs) = set xs \<union> set ys"
  by (induction ys arbitrary: xs) auto

lemma distinct_merge_new [simp]: "distinct (merge_new ys xs) = distinct xs"
  by (induction ys arbitrary: xs) auto

lemma add_new_prefix: "prefix xs (add_new x xs)"
  by (simp add: add_new_def)

lemma merge_new_prefix: "prefix xs (merge_new ys xs)"
  by (induction ys arbitrary: xs) (auto intro: prefix_order.trans [OF add_new_prefix])

lemma merge_new_id: "set ys \<subseteq> set xs \<Longrightarrow> merge_new ys xs = xs"
  by (induction ys) (auto simp: add_new_def)

lemma merge_new_distinct: "distinct (xs @ ys) \<Longrightarrow> merge_new ys xs = xs @ ys"
  by (induction ys arbitrary: xs) (auto simp: add_new_def)

lemma hd_merge_new: "xs \<noteq> [] \<Longrightarrow> hd (merge_new ys xs) = hd xs"
  by (metis hd_append2 merge_new_prefix prefix_def)

lemma merge_new_Nil_iff [simp]: "merge_new ys xs = [] \<longleftrightarrow> xs = [] \<and> ys = []"
  by (metis set_empty set_merge_new sup_eq_bot_iff)

section \<open>Decimal numbers (strconv.Itoa, the verb d of fmt)\<close>

definition dec_digit :: "nat \<Rightarrow> char" where
  "dec_digit d = char_of (48 + d)"

fun nat_dec :: "nat \<Rightarrow> string" where
  "nat_dec n = (if n < 10 then [dec_digit n] else nat_dec (n div 10) @ [dec_digit (n mod 10)])"

declare nat_dec.simps [simp del]

definition int_dec :: "int \<Rightarrow> string" where
  "int_dec i = (if i < 0 then CHR ''-'' # nat_dec (nat (- i)) else nat_dec (nat i))"

lemma of_char_dec_digit [simp]: "d < 10 \<Longrightarrow> of_char (dec_digit d) = 48 + d"
  by (simp add: dec_digit_def)

definition dec_val :: "string \<Rightarrow> nat" where
  "dec_val s = foldl (\<lambda>n c. 10 * n + (of_char c - 48)) 0 s"

lemma dec_val_nat_dec [simp]: "dec_val (nat_dec n) = n"
proof (induction n rule: nat_dec.induct)
  case (1 n)
  show ?case
  proof (cases "n < 10")
    case True
    then show ?thesis by (subst nat_dec.simps) (simp add: dec_val_def)
  next
    case False
    with "1.IH" show ?thesis by (subst nat_dec.simps) (simp add: dec_val_def)
  qed
qed

lemma nat_dec_inject [simp]: "nat_dec m = nat_dec n \<longleftrightarrow> m = n"
  by (metis dec_val_nat_dec)

lemma nat_dec_digits: "c \<in> set (nat_dec n) \<Longrightarrow> 48 \<le> (of_char c :: nat) \<and> of_char c < (58 :: nat)"
proof (induction n rule: nat_dec.induct)
  case (1 n)
  show ?case
  proof (cases "n < 10")
    case True
    with "1.prems" show ?thesis by (simp add: nat_dec.simps [of n])
  next
    case False
    with "1.prems" have "c \<in> set (nat_dec (n div 10)) \<or> c = dec_digit (n mod 10)"
      by (auto simp: nat_dec.simps [of n])
    with "1.IH" False show ?thesis by auto
  qed
qed

lemma nat_dec_not_Nil [simp]: "nat_dec n \<noteq> []"
  by (subst nat_dec.simps) simp

section \<open>Package encoding/hex\<close>

definition hex_val :: "char \<Rightarrow> nat option" where
  "hex_val c = (let k = of_char c in
     if 48 \<le> k \<and> k \<le> 57 then Some (k - 48)
     else if 97 \<le> k \<and> k \<le> 102 then Some (k - 87)
     else if 65 \<le> k \<and> k \<le> 70 then Some (k - 55)
     else None)"

definition hex_digit :: "nat \<Rightarrow> char" where
  "hex_digit d = (if d < 10 then char_of (48 + d) else char_of (87 + d))"

fun hex_encode :: "bytes \<Rightarrow> string" where
  "hex_encode [] = []"
| "hex_encode (b # bs) = hex_digit (unat b div 16) # hex_digit (unat b mod 16) # hex_encode bs"

text \<open>\<open>hex.DecodeString\<close>: an odd length or a character outside [0-9a-fA-F] is an error.\<close>

fun hex_decode :: "string \<Rightarrow> bytes option" where
  "hex_decode [] = Some []"
| "hex_decode [c] = None"
| "hex_decode (a # b # s) =
     (case (hex_val a, hex_val b) of
        (Some x, Some y) \<Rightarrow> map_option ((#) (word_of_nat (16 * x + y))) (hex_decode s)
      | _ \<Rightarrow> None)"

lemma hex_val_digit [simp]: "d < 16 \<Longrightarrow> hex_val (hex_digit d) = Some d"
  by (auto simp: hex_val_def hex_digit_def)

lemma hex_decode_encode [simp]: "hex_decode (hex_encode bs) = Some bs"
proof (induction bs)
  case (Cons b bs)
  have "unat b < 256" using unsigned_less [of b] by simp
  then have "unat b div 16 < 16" by simp
  with Cons show ?case by simp
qed simp

lemma length_hex_encode [simp]: "length (hex_encode bs) = 2 * length bs"
  by (induction bs) auto

lemma hex_decode_length: "hex_decode s = Some bs \<Longrightarrow> length s = 2 * length bs"
  by (induction s arbitrary: bs rule: hex_decode.induct) (auto split: option.splits)

lemma hex_val_to_lower [simp]: "hex_val (to_lower_char c) = hex_val c"
  by (auto simp: hex_val_def to_lower_char_def Let_def)

lemma hex_val_bound: "hex_val c = Some x \<Longrightarrow> x < 16"
  by (auto simp: hex_val_def Let_def split: if_splits)

lemma hex_digit_val: "hex_val c = Some x \<Longrightarrow> hex_digit x = to_lower_char c"
  by (auto simp: hex_val_def hex_digit_def to_lower_char_def Let_def split: if_splits)

lemma hex_encode_decode: "hex_decode s = Some bs \<Longrightarrow> hex_encode bs = to_lower s"
proof (induction s arbitrary: bs rule: hex_decode.induct)
  case (3 a b s)
  then obtain x y cs where xy: "hex_val a = Some x" "hex_val b = Some y" "hex_decode s = Some cs"
    and bs: "bs = word_of_nat (16 * x + y) # cs"
    by (auto split: option.splits)
  have "x < 16" "y < 16" using xy by (auto dest: hex_val_bound)
  then have "unat (word_of_nat (16 * x + y) :: byte) = 16 * x + y"
    unfolding unat_of_nat by simp
  with xy bs 3 \<open>y < 16\<close> show ?case by (auto simp: hex_digit_val to_lower_def)
qed (auto simp: to_lower_def)

lemma hex_decode_to_lower [simp]: "hex_decode (to_lower s) = hex_decode s"
  by (induction s rule: hex_decode.induct) (auto simp: to_lower_def split: option.splits)

section \<open>Counters advanced by a constant (sync/atomic Add)\<close>

text \<open>
  An atomic counter is read and advanced by the same amount at every use.  The interface: a
  step of some state and the counter it advances.  What follows for every such counter: its
  value after n steps, and that a counter advanced by one does not repeat within one period.
\<close>

locale fetch_add =
  fixes step :: "'s \<Rightarrow> 's" and ctr :: "'s \<Rightarrow> 'a::len word" and delta :: "'a word"
  assumes ctr_step: "ctr (step s) = ctr s + delta"
begin

lemma ctr_after: "ctr ((step ^^ n) s) = ctr s + of_nat n * delta"
  by (induction n) (simp_all add: ctr_step algebra_simps)

lemma ctr_no_repeat:
  assumes "delta = 1" and "i < j" and "j < 2 ^ LENGTH('a)"
  shows "ctr ((step ^^ i) s) \<noteq> ctr ((step ^^ j) s)"
proof
  assume "ctr ((step ^^ i) s) = ctr ((step ^^ j) s)"
  then have "(of_nat i :: 'a word) = of_nat j"
    by (simp add: ctr_after assms(1))
  then have "unat (of_nat i :: 'a word) = unat (of_nat j :: 'a word)" by simp
  with assms(2,3) show False by (simp add: unat_of_nat)
qed

end

section \<open>Step relations and their invariants\<close>

text \<open>
  The interface of the concurrent parts: a step relation and what each step keeps.  What follows: it holds after any
  number of steps, on every schedule.
\<close>

locale kept_by_steps =
  fixes step :: "'s \<Rightarrow> 's \<Rightarrow> bool" and kept :: "'s \<Rightarrow> bool"
  assumes keeps: "step s s' \<Longrightarrow> kept s \<Longrightarrow> kept s'"
begin

lemma reached: "step\<^sup>*\<^sup>* s s' \<Longrightarrow> kept s \<Longrightarrow> kept s'"
  by (induction rule: rtranclp_induct) (auto intro: keeps)

lemma after_steps: "(step ^^ n) s s' \<Longrightarrow> kept s \<Longrightarrow> kept s'"
  using reached relpowp_imp_rtranclp by metis

end

text \<open>A measure that every step lowers bounds the number of steps.\<close>

locale steps_down =
  fixes step :: "'s \<Rightarrow> 's \<Rightarrow> bool" and left :: "'s \<Rightarrow> nat"
  assumes goes_down: "step s s' \<Longrightarrow> left s' < left s"
begin

lemma steps_bounded: "(step ^^ n) s s' \<Longrightarrow> n + left s' \<le> left s"
proof (induction n arbitrary: s')
  case (Suc n)
  then obtain t where "(step ^^ n) s t" "step t s'" by auto
  then show ?case using Suc.IH [of t] goes_down [of t s'] by linarith
qed simp

end

end
