(* ===== verification/Wrap.thy ===== *)
theory Wrap
  imports TG_Prelude
begin

text \<open>
  The SRTP-mimicry packet wrap of internal/core/wrap.go: a 12-byte RTP header, a 12-byte
  explicit nonce and an AEAD ciphertext.  golang.org/x/crypto/chacha20poly1305, crypto/rand and
  the relayed connection are parameters: \<open>aead_new\<close>, \<open>seal\<close>, \<open>open\<close>, \<open>rand\<close>, \<open>relay_read\<close> and
  \<open>relay_write\<close>, with what the code relies on stated as \<open>aead_correct\<close>, \<open>aead_tag\<close>,
  \<open>aead_unique\<close> and \<open>rand_fills\<close>.  What a relay call or a random read does to the world is
  threaded as a state of any type.
\<close>

section \<open>Constants, state, errors\<close>

definition wrapKeyLen :: nat where [tg_consts]: "wrapKeyLen = 32"
definition wrapRTPHdrLen :: nat where [tg_consts]: "wrapRTPHdrLen = 12"
definition wrapNonceLen :: nat where [tg_consts]: "wrapNonceLen = 12"
definition wrapTagLen :: nat where [tg_consts]: "wrapTagLen = 16"
definition wrapHeaderLen :: nat where [tg_consts]: "wrapHeaderLen = wrapRTPHdrLen + wrapNonceLen"
definition wrapOverhead :: nat where [tg_consts]: "wrapOverhead = wrapHeaderLen + wrapTagLen"
definition wrapRTPVersion :: byte where [tg_consts]: "wrapRTPVersion = 0x80"
definition wrapRTPPT :: byte where [tg_consts]: "wrapRTPPT = 0x6F"
definition wrapTSStep :: "32 word" where [tg_consts]: "wrapTSStep = 960"

datatype wrap_error = KeyLength nat | AeadInit | RandInit | CounterRand | DstTooSmall
  | PacketTooShort | AeadOpen | KeyGen | WrapNeedsKey | KeyInvalidHex | KeyDecodedLength nat
  | RelayError string

record 'k wrapConn =
  aead :: 'k
  sessionID :: bytes
  ssrc :: bytes
  counter :: "64 word"
  seq :: "32 word"
  timestamp :: "32 word"

definition wf_conn :: "'k wrapConn \<Rightarrow> bool" where
  "wf_conn w \<longleftrightarrow> length (sessionID w) = 4 \<and> length (ssrc w) = 4"

type_synonym 'k sealer = "'k \<Rightarrow> bytes \<Rightarrow> bytes \<Rightarrow> bytes \<Rightarrow> bytes"
type_synonym 'k opener = "'k \<Rightarrow> bytes \<Rightarrow> bytes \<Rightarrow> bytes \<Rightarrow> bytes option"

definition aead_correct :: "'k sealer \<Rightarrow> 'k opener \<Rightarrow> bool" where
  "aead_correct seal opn \<longleftrightarrow>
     (\<forall>k nonce pt aad. length nonce = 12 \<longrightarrow> opn k nonce (seal k nonce pt aad) aad = Some pt)"

definition aead_tag :: "'k sealer \<Rightarrow> bool" where
  "aead_tag seal \<longleftrightarrow> (\<forall>k nonce pt aad. length (seal k nonce pt aad) = length pt + 16)"

definition aead_unique :: "'k sealer \<Rightarrow> 'k opener \<Rightarrow> bool" where
  "aead_unique seal opn \<longleftrightarrow>
     (\<forall>k nonce ct aad pt. opn k nonce ct aad = Some pt \<longrightarrow> ct = seal k nonce pt aad)"

definition rand_fills :: "(nat \<Rightarrow> 'w \<Rightarrow> bytes option \<times> 'w) \<Rightarrow> bool" where
  "rand_fills rand \<longleftrightarrow> (\<forall>n w bs. fst (rand n w) = Some bs \<longrightarrow> length bs = n)"

section \<open>newWrapConn\<close>

definition set_direction :: "bool \<Rightarrow> bytes \<Rightarrow> bytes" where
  "set_direction isServer b =
     (if isServer then b[0 := b ! 0 OR 0x80] else b[0 := b ! 0 AND NOT 0x80])"

definition newWrapConn ::
  "(bytes \<Rightarrow> 'k option) \<Rightarrow> (nat \<Rightarrow> 'w \<Rightarrow> bytes option \<times> 'w) \<Rightarrow> bytes \<Rightarrow> bool \<Rightarrow> 'w \<Rightarrow>
   (wrap_error, 'k wrapConn) result \<times> 'w" where
  "newWrapConn aead_new rand key isServer w =
     (if length key \<noteq> wrapKeyLen then (Inl (KeyLength (length key)), w)
      else case aead_new key of None \<Rightarrow> (Inl AeadInit, w)
      | Some a \<Rightarrow>
        (case rand 16 w of
           (None, w1) \<Rightarrow> (Inl RandInit, w1)
         | (Some rnd, w1) \<Rightarrow>
           (case rand 8 w1 of
              (None, w2) \<Rightarrow> (Inl CounterRand, w2)
            | (Some cb, w2) \<Rightarrow>
              (Inr \<lparr> aead = a,
                     sessionID = set_direction isServer (take 4 rnd),
                     ssrc = set_direction isServer (take 4 (drop 4 rnd)),
                     counter = get_be cb,
                     seq = ucast (get_be (take 2 (drop 8 rnd)) :: 16 word),
                     timestamp = get_be (take 4 (drop 10 rnd)) \<rparr>, w2))))"

section \<open>wrapInto, unwrapPacket\<close>

definition wrapMaxWire :: "nat \<Rightarrow> nat" where
  "wrapMaxWire payloadLen = wrapOverhead + payloadLen"

definition wrapInto ::
  "'k sealer \<Rightarrow> 'k wrapConn \<Rightarrow> bytes \<Rightarrow> bytes \<Rightarrow>
   (wrap_error, nat \<times> bytes) result \<times> 'k wrapConn" where
  "wrapInto seal w dst payload =
     (let wireLen = wrapOverhead + length payload in
      if length dst < wireLen then (Inl DstTooSmall, w)
      else
        let d = overwrite 0 [wrapRTPVersion] dst;
            d = overwrite 1 [wrapRTPPT] d;
            seq' = seq w + 1;
            d = overwrite 2 (put_be16 (ucast (seq' - 1))) d;
            ts' = timestamp w + wrapTSStep;
            d = overwrite 4 (put_be32 (ts' - wrapTSStep)) d;
            d = overwrite 8 (ssrc w) d;
            noncePos = wrapRTPHdrLen;
            d = overwrite noncePos (sessionID w) d;
            ctr' = counter w + 1;
            d = overwrite (noncePos + 4) (put_be64 (ctr' - 1)) d;
            nonce = take wrapNonceLen (drop noncePos d);
            aad = take wrapHeaderLen d;
            ctPos = wrapHeaderLen;
            d = overwrite ctPos payload d;
            ct = seal (aead w) nonce (take (length payload) (drop ctPos d)) aad;
            d = overwrite ctPos ct d
        in (Inr (wireLen, d), w\<lparr>counter := ctr', seq := seq', timestamp := ts'\<rparr>))"

definition unwrapPacket ::
  "'k opener \<Rightarrow> 'k wrapConn \<Rightarrow> bytes \<Rightarrow> bytes \<Rightarrow> (wrap_error, nat \<times> bytes) result" where
  "unwrapPacket opn w wire dst =
     (if length wire < wrapOverhead then Inl PacketTooShort
      else
        let nonce = take wrapNonceLen (drop wrapRTPHdrLen wire);
            aad = take wrapHeaderLen wire;
            ct = drop wrapHeaderLen wire
        in case opn (aead w) nonce ct aad of
             None \<Rightarrow> Inl AeadOpen
           | Some plain \<Rightarrow>
               if length plain > length dst then Inl DstTooSmall
               else Inr (length plain, overwrite 0 plain dst))"

section \<open>Keys\<close>

definition genWrapKeyHex ::
  "(nat \<Rightarrow> 'w \<Rightarrow> bytes option \<times> 'w) \<Rightarrow> 'w \<Rightarrow> (wrap_error, string) result \<times> 'w" where
  "genWrapKeyHex rand w =
     (case rand wrapKeyLen w of
        (None, w') \<Rightarrow> (Inl KeyGen, w')
      | (Some key, w') \<Rightarrow> (Inr (hex_encode key), w'))"

text \<open>\<open>Inr None\<close> is Go's \<open>(nil, nil)\<close>: wrapping is disabled.\<close>

definition decodeWrapKey :: "bool \<Rightarrow> string \<Rightarrow> (wrap_error, bytes option) result" where
  "decodeWrapKey enabled raw =
     (if \<not> enabled then Inr None
      else if raw = [] then Inl WrapNeedsKey
      else case hex_decode raw of
             None \<Rightarrow> Inl KeyInvalidHex
           | Some key \<Rightarrow>
               if length key \<noteq> wrapKeyLen then Inl (KeyDecodedLength (length key))
               else Inr (Some key))"

section \<open>wrappedPacketConn\<close>

record ('k, 'a) wrappedPacketConn =
  peer :: 'a
  wc :: "'k wrapConn option"

text \<open>
  \<open>relay_read n w\<close> is \<open>relay.ReadFrom\<close> on a buffer of n bytes: the bytes received, the
  sender and an error; \<open>relay_write\<close> is \<open>relay.WriteTo\<close>.
\<close>

definition conn_ReadFrom ::
  "'k opener \<Rightarrow> (nat \<Rightarrow> 'w \<Rightarrow> (bytes \<times> 'a \<times> string option) \<times> 'w) \<Rightarrow>
   ('k, 'a) wrappedPacketConn \<Rightarrow> bytes \<Rightarrow> 'w \<Rightarrow>
   (nat \<times> 'a \<times> wrap_error option) \<times> bytes \<times> 'w" where
  "conn_ReadFrom opn relay_read r b w =
     (case wc r of
        None \<Rightarrow> (case relay_read (length b) w of ((data, addr, err), w') \<Rightarrow>
                   ((length data, addr, map_option RelayError err), overwrite 0 data b, w'))
      | Some c \<Rightarrow>
         (case relay_read (wrapMaxWire (length b)) w of
            ((data, addr, Some e), w') \<Rightarrow> ((0, addr, Some (RelayError e)), b, w')
          | ((data, addr, None), w') \<Rightarrow>
             (case unwrapPacket opn c data b of
                Inl e \<Rightarrow> ((0, addr, Some e), b, w')
              | Inr (m, b') \<Rightarrow> ((m, addr, None), b', w'))))"

definition conn_WriteTo ::
  "'k sealer \<Rightarrow> (bytes \<Rightarrow> 'a \<Rightarrow> 'w \<Rightarrow> (nat \<times> string option) \<times> 'w) \<Rightarrow>
   ('k, 'a) wrappedPacketConn \<Rightarrow> bytes \<Rightarrow> 'w \<Rightarrow>
   (nat \<times> wrap_error option) \<times> ('k, 'a) wrappedPacketConn \<times> 'w" where
  "conn_WriteTo seal relay_write r b w =
     (case wc r of
        None \<Rightarrow> (case relay_write b (peer r) w of ((n, err), w') \<Rightarrow>
                   ((n, map_option RelayError err), r, w'))
      | Some c \<Rightarrow>
         (case wrapInto seal c (replicate (wrapMaxWire (length b)) 0) b of
            (Inl e, c') \<Rightarrow> ((0, Some e), r\<lparr>wc := Some c'\<rparr>, w)
          | (Inr (n, out), c') \<Rightarrow>
             (case relay_write (take n out) (peer r) w of
                ((_, Some e), w') \<Rightarrow> ((0, Some (RelayError e)), r\<lparr>wc := Some c'\<rparr>, w')
              | ((_, None), w') \<Rightarrow> ((length b, None), r\<lparr>wc := Some c'\<rparr>, w'))))"

section \<open>The wire image and the step of a connection\<close>

text \<open>
  The specification of one wrap: what the packet is, independently of the buffer it is
  assembled in, and what happens to the counters.
\<close>

definition wrap_nonce :: "'k wrapConn \<Rightarrow> bytes" where
  "wrap_nonce w = sessionID w @ put_be64 (counter w)"

definition wrap_header :: "'k wrapConn \<Rightarrow> bytes" where
  "wrap_header w = [wrapRTPVersion, wrapRTPPT] @ put_be16 (ucast (seq w)) @
     put_be32 (timestamp w) @ ssrc w @ wrap_nonce w"

definition wrap_wire :: "'k sealer \<Rightarrow> 'k wrapConn \<Rightarrow> bytes \<Rightarrow> bytes" where
  "wrap_wire seal w payload =
     wrap_header w @ seal (aead w) (wrap_nonce w) payload (wrap_header w)"

definition wrap_advance :: "'k wrapConn \<Rightarrow> 'k wrapConn" where
  "wrap_advance w = w\<lparr>counter := counter w + 1, seq := seq w + 1,
     timestamp := timestamp w + wrapTSStep\<rparr>"

lemma wrap_advance_frame [simp, tg_frame]:
  "aead (wrap_advance w) = aead w" "sessionID (wrap_advance w) = sessionID w"
  "ssrc (wrap_advance w) = ssrc w" "wf_conn (wrap_advance w) = wf_conn w"
  by (simp_all add: wrap_advance_def wf_conn_def)

lemma length_wrap_parts [simp]:
  "wf_conn w \<Longrightarrow> length (wrap_nonce w) = 12"
  "wf_conn w \<Longrightarrow> length (wrap_header w) = 24"
  by (simp_all add: wrap_nonce_def wrap_header_def wf_conn_def)

text \<open>Writing at the end of what is already assembled in front of an untouched buffer.\<close>

lemma overwrite_next:
  assumes "length pre = i" and "i + length src \<le> length dst"
  shows "overwrite i src (pre @ drop i dst) = (pre @ src) @ drop (i + length src) dst"
  using assms by (simp add: overwrite_def add.commute)

lemma overwrite_again:
  assumes "length pre = i" and "length old \<le> length src" and "i + length src \<le> length dst"
  shows "overwrite i src ((pre @ old) @ drop (i + length old) dst) =
    (pre @ src) @ drop (i + length src) dst"
proof -
  have "drop (length src - length old) (drop (i + length old) dst) = drop (i + length src) dst"
    using assms(2) by (simp add: add.commute)
  then show ?thesis using assms by (simp add: overwrite_def)
qed

interpretation nonce_counter: fetch_add wrap_advance counter 1
  by unfold_locales (simp add: wrap_advance_def)

interpretation rtp_seq: fetch_add wrap_advance seq 1
  by unfold_locales (simp add: wrap_advance_def)

interpretation rtp_timestamp: fetch_add wrap_advance timestamp wrapTSStep
  by unfold_locales (simp add: wrap_advance_def)


section \<open>Refinement: the buffer program builds the wire image\<close>

lemma header_assembled:
  assumes wf: "wf_conn w" and len: "24 \<le> length dst"
  shows "overwrite 16 (put_be64 (counter w)) (overwrite 12 (sessionID w) (overwrite 8 (ssrc w)
      (overwrite 4 (put_be32 (timestamp w)) (overwrite 2 (put_be16 (ucast (seq w)))
        (overwrite 1 [wrapRTPPT] (overwrite 0 [wrapRTPVersion] dst)))))) =
      wrap_header w @ drop 24 dst"
proof -
  have l4: "length (sessionID w) = 4" "length (ssrc w) = 4" using wf by (simp_all add: wf_conn_def)
  note grow = overwrite_next [of _ _ _ dst]
  have "overwrite 0 [wrapRTPVersion] dst = [wrapRTPVersion] @ drop 1 dst"
    using grow [of "[]" 0 "[wrapRTPVersion]"] len by simp
  moreover have "overwrite 1 [wrapRTPPT] ([wrapRTPVersion] @ drop 1 dst) =
      [wrapRTPVersion, wrapRTPPT] @ drop 2 dst"
    using grow [of "[wrapRTPVersion]" 1 "[wrapRTPPT]"] len by (simp add: numeral_2_eq_2)
  moreover have "overwrite 2 (put_be16 s) ([wrapRTPVersion, wrapRTPPT] @ drop 2 dst) =
      ([wrapRTPVersion, wrapRTPPT] @ put_be16 s) @ drop 4 dst" for s
    using grow [of "[wrapRTPVersion, wrapRTPPT]" 2 "put_be16 s"] len by simp
  moreover have "length pre = 4 \<Longrightarrow> overwrite 4 (put_be32 t) (pre @ drop 4 dst) =
      (pre @ put_be32 t) @ drop 8 dst" for pre t
    using grow [of pre 4 "put_be32 t"] len by simp
  moreover have "length pre = 8 \<Longrightarrow> overwrite 8 (ssrc w) (pre @ drop 8 dst) =
      (pre @ ssrc w) @ drop 12 dst" for pre
    using grow [of pre 8 "ssrc w"] len l4 by simp
  moreover have "length pre = 12 \<Longrightarrow> overwrite 12 (sessionID w) (pre @ drop 12 dst) =
      (pre @ sessionID w) @ drop 16 dst" for pre
    using grow [of pre 12 "sessionID w"] len l4 by simp
  moreover have "length pre = 16 \<Longrightarrow> overwrite 16 (put_be64 c) (pre @ drop 16 dst) =
      (pre @ put_be64 c) @ drop 24 dst" for pre c
    using grow [of pre 16 "put_be64 c"] len by simp
  ultimately show ?thesis
    by (simp only: l4 length_put_be length_append list.size) (simp add: l4 wrap_header_def wrap_nonce_def)
qed

lemma body_assembled:
  assumes "length pre = 24" and "length ct = length payload + 16"
    and "40 + length payload \<le> length dst"
  shows "overwrite 24 payload (pre @ drop 24 dst) = pre @ payload @ drop (24 + length payload) dst"
    and "overwrite 24 ct (pre @ payload @ drop (24 + length payload) dst) =
      pre @ ct @ drop (40 + length payload) dst"
  using overwrite_next [of pre 24 payload dst] overwrite_again [of pre 24 payload ct dst] assms
  by (simp_all add: add.commute)

lemma wrapInto_image:
  assumes wf: "wf_conn w" and tag: "aead_tag seal"
    and room: "wrapOverhead + length payload \<le> length dst"
  shows "wrapInto seal w dst payload =
    (Inr (wrapOverhead + length payload,
          wrap_wire seal w payload @ drop (wrapOverhead + length payload) dst), wrap_advance w)"
proof -
  let ?ct = "seal (aead w) (wrap_nonce w) payload (wrap_header w)"
  have len: "40 + length payload \<le> length dst" using room by (simp add: tg_consts)
  have ct: "length ?ct = length payload + 16" using tag by (simp add: aead_tag_def)
  note hdr = header_assembled [OF wf, of dst]
    and body = body_assembled [OF length_wrap_parts(2) [OF wf] ct len]
  have nonce: "take 12 (drop 12 (wrap_header w)) = wrap_nonce w"
    using wf by (simp add: wrap_header_def wrap_nonce_def wf_conn_def)
  show ?thesis
    using len wf hdr body nonce
    by (simp add: wrapInto_def Let_def tg_consts wrap_wire_def wrap_advance_def)
qed

section \<open>Consecutive packets\<close>

text \<open>A run of sends on one connection, each into a fresh buffer as WriteTo allocates it.\<close>

fun wrap_run :: "'k sealer \<Rightarrow> 'k wrapConn \<Rightarrow> bytes list \<Rightarrow> bytes list" where
  "wrap_run seal w [] = []"
| "wrap_run seal w (p # ps) =
     (case wrapInto seal w (replicate (wrapMaxWire (length p)) 0) p of
        (Inl e, w') \<Rightarrow> wrap_run seal w' ps
      | (Inr (n, out), w') \<Rightarrow> take n out # wrap_run seal w' ps)"

definition wire_nonce :: "bytes \<Rightarrow> bytes" where
  "wire_nonce wire = take wrapNonceLen (drop wrapRTPHdrLen wire)"

definition wire_ssrc :: "bytes \<Rightarrow> bytes" where
  "wire_ssrc wire = take 4 (drop 8 wire)"

lemma wrapInto_fresh:
  "wf_conn w \<Longrightarrow> aead_tag seal \<Longrightarrow>
   wrapInto seal w (replicate (wrapMaxWire (length p)) 0) p =
     (Inr (wrapMaxWire (length p), wrap_wire seal w p), wrap_advance w)"
  by (simp add: wrapInto_image wrapMaxWire_def)

lemma length_wrap_wire:
  "wf_conn w \<Longrightarrow> aead_tag seal \<Longrightarrow> length (wrap_wire seal w p) = wrapMaxWire (length p)"
  by (simp add: wrap_wire_def aead_tag_def wrapMaxWire_def tg_consts)

lemma wrap_run_nth:
  assumes "wf_conn w" and "aead_tag seal" and "i < length ps"
  shows "wrap_run seal w ps ! i = wrap_wire seal ((wrap_advance ^^ i) w) (ps ! i)"
  using assms
proof (induction ps arbitrary: w i)
  case (Cons p ps)
  then show ?case
    by (cases i) (simp_all add: wrapInto_fresh length_wrap_wire funpow_Suc_right del: funpow.simps)
qed simp

lemma wrap_advance_n_frame [tg_frame]:
  "aead ((wrap_advance ^^ n) w) = aead w" "sessionID ((wrap_advance ^^ n) w) = sessionID w"
  "ssrc ((wrap_advance ^^ n) w) = ssrc w" "wf_conn ((wrap_advance ^^ n) w) = wf_conn w"
  by (induction n) simp_all

lemma wire_fields:
  assumes "wf_conn w"
  shows "wire_nonce (wrap_wire seal w p) = wrap_nonce w" "wire_ssrc (wrap_wire seal w p) = ssrc w"
  using assms
  by (simp_all add: wire_nonce_def wire_ssrc_def wrap_wire_def wrap_header_def wrap_nonce_def
      wf_conn_def tg_consts)

lemma wire_nonce_run:
  "wf_conn w \<Longrightarrow> aead_tag seal \<Longrightarrow> i < length ps \<Longrightarrow>
   wire_nonce (wrap_run seal w ps ! i) = sessionID w @ put_be64 (counter w + of_nat i)"
  by (simp add: wrap_run_nth wire_fields wrap_nonce_def tg_frame nonce_counter.ctr_after)

lemma length_wrap_run: "wf_conn w \<Longrightarrow> aead_tag seal \<Longrightarrow> length (wrap_run seal w ps) = length ps"
  by (induction ps arbitrary: w) (simp_all add: wrapInto_fresh)

text \<open>No nonce comes twice in a run.\<close>

lemma nonces_differ:
  assumes "wf_conn w" and "aead_tag seal" and "length ps \<le> 2 ^ 64" and "i < j" and "j < length ps"
  shows "wire_nonce (wrap_run seal w ps ! i) \<noteq> wire_nonce (wrap_run seal w ps ! j)"
  using nonce_counter.ctr_no_repeat [of i j w] assms
  by (simp add: wire_nonce_run put_be_inject nonce_counter.ctr_after)

lemma distinct_nonces:
  assumes "wf_conn w" and "aead_tag seal" and "length ps \<le> 2 ^ 64"
  shows "distinct (map wire_nonce (wrap_run seal w ps))"
  unfolding distinct_conv_nth
proof (intro allI impI)
  fix i j
  assume i: "i < length (map wire_nonce (wrap_run seal w ps))" "j < length (map wire_nonce (wrap_run seal w ps))" "i \<noteq> j"
  then have "wire_nonce (wrap_run seal w ps ! i) \<noteq> wire_nonce (wrap_run seal w ps ! j)"
    using nonces_differ [OF assms, of i j] nonces_differ [OF assms, of j i] length_wrap_run [OF assms(1,2), of ps] by fastforce
  then show "map wire_nonce (wrap_run seal w ps) ! i \<noteq> map wire_nonce (wrap_run seal w ps) ! j" using i by simp
qed

lemma newWrapConn_Inr:
  assumes "newWrapConn aead_new rand key isServer w0 = (Inr c, w1)" and "rand_fills rand"
  shows "wf_conn c" and "length key = 32" and "aead_new key = Some (aead c)"
    and "bit (sessionID c ! 0) 7 = isServer" and "bit (ssrc c ! 0) 7 = isServer"
proof -
  from assms(1) obtain rnd cb wa where
    rnd: "rand 16 w0 = (Some rnd, wa)" and cb: "rand 8 wa = (Some cb, w1)"
    by (auto simp: newWrapConn_def split: if_splits option.splits prod.splits)
  have "length rnd = 16" using rnd assms(2) unfolding rand_fills_def by (metis fst_conv)
  with assms(1) rnd cb
  have c: "length key = 32 \<and> aead_new key = Some (aead c) \<and>
      sessionID c = set_direction isServer (take 4 rnd) \<and>
      ssrc c = set_direction isServer (take 4 (drop 4 rnd))"
    by (auto simp: newWrapConn_def tg_consts split: if_splits option.splits)
  then show "wf_conn c" "length key = 32" "aead_new key = Some (aead c)"
    "bit (sessionID c ! 0) 7 = isServer" "bit (ssrc c ! 0) 7 = isServer"
    using \<open>length rnd = 16\<close> by (auto simp: wf_conn_def set_direction_def bit_simps)
qed

section \<open>Properties\<close>

text \<open>
  A concrete AEAD that meets the three laws, for the witnesses: the tag is sixteen zero bytes.
\<close>

definition null_seal :: "unit sealer" where
  "null_seal k nonce pt aad = pt @ replicate 16 0"

definition null_open :: "unit opener" where
  "null_open k nonce ct aad =
     (if 16 \<le> length ct \<and> drop (length ct - 16) ct = replicate 16 0
      then Some (take (length ct - 16) ct) else None)"

lemma null_aead: "aead_tag null_seal" "aead_correct null_seal null_open" "aead_unique null_seal null_open"
  by (auto simp: aead_tag_def aead_correct_def aead_unique_def null_seal_def null_open_def split: if_splits)
     (metis append_take_drop_id)

definition zero_conn :: "bool \<Rightarrow> unit wrapConn" where
  "zero_conn isServer = \<lparr> aead = (), sessionID = set_direction isServer [1, 2, 3, 4],
     ssrc = set_direction isServer [5, 6, 7, 8], counter = - 1, seq = 65535, timestamp = 7 \<rparr>"

lemma wf_zero_conn [simp]: "wf_conn (zero_conn b)" and aead_zero_conn [simp]: "aead (zero_conn b) = ()"
  by (simp_all add: wf_conn_def zero_conn_def set_direction_def)

text \<open>
  C4.  Tunnel round trip: what one wrappedPacketConn writes with WriteTo, a peer with the same
  AEAD key reads back with ReadFrom, byte for byte, when the relay delivers the datagram that
  WriteTo handed it; WriteTo reports the payload length and advances its counters by one packet.
\<close>

theorem tunnel_roundtrip:
  assumes "wc r = Some c" and "wf_conn c" and "wc r' = Some s" and "aead s = aead c"
    and "aead_tag seal" and "aead_correct seal opn"
    and "relay_write (wrap_wire seal c b) (peer r) w = ((n, None), w1)"
    and "relay_read (wrapMaxWire (length buf)) w2 = ((wrap_wire seal c b, a, None), w3)"
    and "length b \<le> length buf"
  shows "conn_WriteTo seal relay_write r b w =
           ((length b, None), r\<lparr>wc := Some (wrap_advance c)\<rparr>, w1) \<and>
         conn_ReadFrom opn relay_read r' buf w2 =
           ((length b, a, None), b @ drop (length b) buf, w3)"
proof -
  let ?ct = "seal (aead c) (wrap_nonce c) b (wrap_header c)"
  have "take 12 (drop 12 (wrap_header c)) = wrap_nonce c"
    using assms(2) by (simp add: wrap_header_def wrap_nonce_def wf_conn_def)
  moreover have "opn (aead c) (wrap_nonce c) ?ct (wrap_header c) = Some b"
    using assms(2,6) by (simp add: aead_correct_def)
  moreover have "length ?ct = length b + 16" using assms(5) by (simp add: aead_tag_def)
  ultimately have "unwrapPacket opn s (wrap_wire seal c b) buf = Inr (length b, b @ drop (length b) buf)"
    using assms(2,4,9) by (simp add: unwrapPacket_def wrap_wire_def tg_consts overwrite_def)
  with assms show ?thesis
    by (simp add: conn_WriteTo_def conn_ReadFrom_def wrapInto_fresh length_wrap_wire)
qed

theorem tunnel_roundtrip_witness:
  "conn_ReadFrom null_open (\<lambda>n w. ((w, (), None), w)) \<lparr>peer = (), wc = Some (zero_conn True)\<rparr>
     (replicate 5 9) (wrap_wire null_seal (zero_conn False) [1, 2, 3]) =
   ((3, (), None), [1, 2, 3, 9, 9], wrap_wire null_seal (zero_conn False) [1, 2, 3])"
  using tunnel_roundtrip [of "\<lparr>peer = (), wc = Some (zero_conn False)\<rparr>" "zero_conn False"
      "\<lparr>peer = (), wc = Some (zero_conn True)\<rparr>" "zero_conn True" null_seal null_open
      "\<lambda>d p w. ((length d, None), d)" "[1, 2, 3]" "[]" _ _ "\<lambda>n w. ((w, (), None), w)" "replicate 5 9"
      "wrap_wire null_seal (zero_conn False) [1, 2, 3]" "()"]
  by (simp add: null_aead numeral_eq_Suc)

text \<open>
  Refinement of the packet layout: on every buffer, wrapInto either refuses (buffer shorter
  than payload plus 40) and leaves the connection as it was, or the first bytes of the buffer
  become exactly the 24-byte header (version, payload type, sequence, timestamp, SSRC, nonce)
  followed by the sealed payload with the header as associated data, the rest of the buffer is
  untouched and the three counters advance.
\<close>

theorem wrapInto_refines_wire:
  assumes "wf_conn w" and "aead_tag seal"
  shows "wrapInto seal w dst payload =
    (if length dst < wrapMaxWire (length payload) then (Inl DstTooSmall, w)
     else (Inr (wrapMaxWire (length payload),
            wrap_wire seal w payload @ drop (wrapMaxWire (length payload)) dst), wrap_advance w))"
proof (cases "length dst < wrapMaxWire (length payload)")
  case True
  then show ?thesis by (simp add: wrapInto_def wrapMaxWire_def Let_def)
next
  case False
  then show ?thesis using wrapInto_image [OF assms, of payload dst] by (simp add: wrapMaxWire_def)
qed

theorem wrapInto_refines_wire_witness:
  "fst (wrapInto null_seal (zero_conn False) (replicate 43 9) [1, 2]) =
     Inr (42, wrap_wire null_seal (zero_conn False) [1, 2] @ [9])"
  using wrapInto_refines_wire [of "zero_conn False" null_seal "replicate 43 9" "[1, 2]"]
  by (simp add: null_aead wrapMaxWire_def tg_consts)

text \<open>
  C1.  No nonce reuse: over any run of up to 2^64 packets of one connection, whatever the
  payloads and wherever the random counter starts, no two packets carry the same AEAD nonce.
\<close>

theorem nonce_never_reused:
  assumes "wf_conn w" and "aead_tag seal" and "length ps \<le> 2 ^ 64" and "i < j" and "j < length ps"
  shows "wire_nonce (wrap_run seal w ps ! i) \<noteq> wire_nonce (wrap_run seal w ps ! j)"
  using assms by (rule nonces_differ)

theorem nonce_never_reused_witness:
  "wire_nonce (wrap_run null_seal (zero_conn False) [[1], [2, 2]] ! 0) \<noteq>
   wire_nonce (wrap_run null_seal (zero_conn False) [[1], [2, 2]] ! 1)"
  by (rule nonce_never_reused) (simp_all add: null_aead)

text \<open>
  C6.  The direction bit separates the two ends of a tunnel: whatever randomness they draw, no
  packet of a connection created as client carries the nonce or the SSRC of a packet of a
  connection created as server, so the shared key is never used twice with one nonce.
\<close>

theorem direction_separates_nonces:
  assumes "rand_fills rand"
    and "newWrapConn aead_new rand key False w0 = (Inr c, w1)"
    and "newWrapConn aead_new rand key True w2 = (Inr s, w3)"
    and "aead_tag seal" and "i < length ps" and "j < length qs"
  shows "wire_nonce (wrap_run seal c ps ! i) \<noteq> wire_nonce (wrap_run seal s qs ! j) \<and>
         wire_ssrc (wrap_run seal c ps ! i) \<noteq> wire_ssrc (wrap_run seal s qs ! j)"
proof
  note c = newWrapConn_Inr [OF assms(2,1)] and s = newWrapConn_Inr [OF assms(3,1)]
  have "sessionID c \<noteq> sessionID s" "ssrc c \<noteq> ssrc s" using c(4,5) s(4,5) by auto
  moreover have "length (sessionID c) = length (sessionID s)"
    using c(1) s(1) by (simp add: wf_conn_def)
  ultimately show "wire_nonce (wrap_run seal c ps ! i) \<noteq> wire_nonce (wrap_run seal s qs ! j)"
    using c(1) s(1) assms(4-6) by (simp add: wire_nonce_run)
  show "wire_ssrc (wrap_run seal c ps ! i) \<noteq> wire_ssrc (wrap_run seal s qs ! j)"
    using c(1) s(1) assms(4-6) \<open>ssrc c \<noteq> ssrc s\<close> by (simp add: wrap_run_nth wire_fields tg_frame)
qed

theorem direction_separates_nonces_witness:
  "\<exists>c s. fst (newWrapConn (\<lambda>_. Some ()) (\<lambda>n w. (Some (replicate n 0), w)) (replicate 32 0) False ()) = Inr c \<and>
     fst (newWrapConn (\<lambda>_. Some ()) (\<lambda>n w. (Some (replicate n 0), w)) (replicate 32 0) True ()) = Inr s \<and>
     wire_nonce (wrap_run null_seal c [[]] ! 0) \<noteq> wire_nonce (wrap_run null_seal s [[]] ! 0)"
proof -
  let ?rand = "\<lambda>n w. (Some (replicate n 0), w :: unit)"
  have r: "rand_fills ?rand" by (simp add: rand_fills_def)
  obtain c s where
    "newWrapConn (\<lambda>_. Some ()) ?rand (replicate 32 0) False () = (Inr c, ())"
    "newWrapConn (\<lambda>_. Some ()) ?rand (replicate 32 0) True () = (Inr s, ())"
    by (simp add: newWrapConn_def tg_consts)
  with direction_separates_nonces [OF r this null_aead(1), of 0 "[[]]" 0 "[[]]"]
  show ?thesis by auto
qed

text \<open>
  C5.  Authenticity: unwrapPacket accepts a datagram exactly when it is at least 40 bytes long
  and is some 24-byte header followed by the sealing of a payload that fits the buffer under
  the nonce in that header with the whole header as associated data; the payload returned is
  that payload.  So a change to the RTP header, the nonce or the ciphertext is refused.
\<close>

theorem unwrap_accepts_exactly_sealed:
  assumes "aead_tag seal" and "aead_correct seal opn" and "aead_unique seal opn"
  shows "unwrapPacket opn w wire dst = Inr (n, out) \<longleftrightarrow>
    (\<exists>hdr plain. length hdr = 24 \<and> length plain \<le> length dst \<and> n = length plain \<and>
       out = plain @ drop n dst \<and>
       wire = hdr @ seal (aead w) (take 12 (drop 12 hdr)) plain hdr)" (is "?L \<longleftrightarrow> ?R")
proof
  assume ?L
  then obtain plain where len: "40 \<le> length wire" "length plain \<le> length dst" "n = length plain"
    and out: "out = overwrite 0 plain dst"
    and opn: "opn (aead w) (take 12 (drop 12 wire)) (drop 24 wire) (take 24 wire) = Some plain"
    by (auto simp: unwrapPacket_def tg_consts Let_def split: if_splits option.splits)
  then have "drop 24 wire = seal (aead w) (take 12 (drop 12 wire)) plain (take 24 wire)"
    using assms(3) unfolding aead_unique_def by blast
  then have "wire = take 24 wire @ seal (aead w) (take 12 (drop 12 (take 24 wire))) plain (take 24 wire)"
    by (metis append_take_drop_id drop_take numeral_Bit0 add_diff_cancel_left' take_take min.idem)
  with len out show ?R
    by (intro exI [of _ "take 24 wire"] exI [of _ plain]) (simp add: overwrite_def)
next
  assume ?R
  then show ?L
    using assms(1,2) by (auto simp: unwrapPacket_def tg_consts aead_tag_def aead_correct_def overwrite_def)
qed

theorem unwrap_accepts_exactly_sealed_witness:
  "\<not> (\<exists>n out. unwrapPacket null_open (zero_conn True)
        (wrap_header (zero_conn False) @ [1, 2, 3] @ replicate 15 0 @ [1]) (replicate 9 0) = Inr (n, out))"
  unfolding unwrap_accepts_exactly_sealed [OF null_aead]
  by (auto simp: null_seal_def dest!: arg_cong [where f = last])

text \<open>
  Key handling: the hex key that genWrapKeyHex prints, decodeWrapKey reads back as the same
  32 bytes; and decodeWrapKey returns a key only for 64 hex digits that decode to it, so an
  empty, odd, non-hex or wrong-length key is refused when wrapping is enabled.
\<close>

theorem wrap_key_roundtrip:
  assumes "rand_fills rand" and "genWrapKeyHex rand w = (Inr hexkey, w')"
  shows "\<exists>key. rand 32 w = (Some key, w') \<and> decodeWrapKey True hexkey = Inr (Some key) \<and>
           length hexkey = 64 \<and>
           (\<forall>raw key'. decodeWrapKey True raw = Inr (Some key') \<longleftrightarrow>
              length raw = 64 \<and> hex_decode raw = Some key')"
proof -
  obtain key where key: "rand 32 w = (Some key, w')" and hk: "hexkey = hex_encode key"
    using assms(2) by (auto simp: genWrapKeyHex_def tg_consts split: prod.splits option.splits)
  have "length key = 32" using assms(1) key unfolding rand_fills_def by (metis fst_conv)
  moreover have "decodeWrapKey True raw = Inr (Some key') \<longleftrightarrow>
      length raw = 64 \<and> hex_decode raw = Some key'" for raw key'
    by (auto simp: decodeWrapKey_def tg_consts split: option.splits dest: hex_decode_length)
  ultimately show ?thesis using key hk by auto
qed

theorem wrap_key_roundtrip_witness:
  "\<exists>key. decodeWrapKey True (hex_encode (replicate 32 0xAB)) = Inr (Some key) \<and> key = replicate 32 0xAB"
  using wrap_key_roundtrip [of "\<lambda>n w. (Some (replicate n 0xAB), w)" "()" "hex_encode (replicate 32 0xAB)" "()"]
  by (auto simp: rand_fills_def genWrapKeyHex_def tg_consts)

end
