(* ===== verification/Credentials.thy ===== *)
theory Credentials
  imports TG_Prelude
begin

text \<open>
  The TURN credential caches and the wrap key of internal/core/credentials.go.  Caches are
  shared objects: the store maps a cache id to an address and a heap maps addresses to caches,
  so that a cache a goroutine still holds survives the map being replaced, as in Go.  Times are
  nanoseconds (the zero \<open>time.Time\<close> is 0), the error clock is in seconds as \<open>time.Now().Unix()\<close>.
  \<open>None\<close> as the result of an operation is the run-time panic of the integer division in
  getCacheID when streamsPerCred is 0.
\<close>

section \<open>State\<close>

record TurnCredentials =
  Username :: string
  Password :: string
  ServerAddr :: string
  ExpiresAt :: int
  Link :: string

record StreamCredentialsCache =
  creds :: TurnCredentials
  errorCount :: int
  lastErrorTime :: int

record cred_store =
  streamsPerCred :: int
  caches :: "int \<rightharpoonup> nat"
  heap :: "nat \<Rightarrow> StreamCredentialsCache"
  fresh :: nat

definition credentialLifetime :: int where [tg_consts]: "credentialLifetime = 600 * 10 ^ 9"
definition cacheSafetyMargin :: int where [tg_consts]: "cacheSafetyMargin = 60 * 10 ^ 9"
definition maxCacheErrors :: int where [tg_consts]: "maxCacheErrors = 3"
definition errorWindow :: int where [tg_consts]: "errorWindow = 10"

definition zero_creds :: TurnCredentials where
  "zero_creds = \<lparr>Username = [], Password = [], ServerAddr = [], ExpiresAt = 0, Link = []\<rparr>"

definition empty_cache :: StreamCredentialsCache where
  "empty_cache = \<lparr>creds = zero_creds, errorCount = 0, lastErrorTime = 0\<rparr>"

definition empty_store :: "int \<Rightarrow> cred_store" where
  "empty_store spc = \<lparr>streamsPerCred = spc, caches = Map.empty, heap = (\<lambda>_. empty_cache), fresh = 0\<rparr>"

text \<open>Allocated addresses only: the map points below \<open>fresh\<close> and no two ids share a cache.\<close>

definition wf_store :: "cred_store \<Rightarrow> bool" where
  "wf_store s \<longleftrightarrow> (\<forall>a \<in> ran (caches s). a < fresh s) \<and>
     (\<forall>i j a. caches s i = Some a \<longrightarrow> caches s j = Some a \<longrightarrow> i = j)"

section \<open>Looking a cache up\<close>

text \<open>Go's integer division truncates towards zero and panics on 0.\<close>

definition getCacheID :: "cred_store \<Rightarrow> int \<Rightarrow> int option" where
  "getCacheID s streamID =
     (if streamsPerCred s = 0 then None
      else Some (sgn streamID * sgn (streamsPerCred s) * (\<bar>streamID\<bar> div \<bar>streamsPerCred s\<bar>)))"

definition getStreamCache :: "cred_store \<Rightarrow> int \<Rightarrow> (nat \<times> cred_store) option" where
  "getStreamCache s streamID =
     (case getCacheID s streamID of None \<Rightarrow> None
      | Some cid \<Rightarrow>
        (case caches s cid of
           Some a \<Rightarrow> Some (a, s)
         | None \<Rightarrow>
             Some (fresh s, s\<lparr>caches := (caches s)(cid \<mapsto> fresh s),
                              heap := (heap s)(fresh s := empty_cache),
                              fresh := Suc (fresh s)\<rparr>)))"

section \<open>Authentication errors\<close>

definition isAuthError :: "string \<Rightarrow> bool" where
  "isAuthError errStr \<longleftrightarrow>
     str_contains errStr ''401'' \<or> str_contains errStr ''Unauthorized'' \<or>
     str_contains errStr ''authentication'' \<or> str_contains errStr ''invalid credential'' \<or>
     str_contains errStr ''stale nonce''"

definition invalidate :: "StreamCredentialsCache \<Rightarrow> StreamCredentialsCache" where
  "invalidate c = c\<lparr>creds := zero_creds, errorCount := 0, lastErrorTime := 0\<rparr>"

definition note_error :: "int \<Rightarrow> StreamCredentialsCache \<Rightarrow> bool \<times> StreamCredentialsCache" where
  "note_error now c =
     (let c = (if now - lastErrorTime c > errorWindow then c\<lparr>errorCount := 0\<rparr> else c);
          c = c\<lparr>errorCount := errorCount c + 1\<rparr>;
          count = errorCount c;
          c = c\<lparr>lastErrorTime := now\<rparr>
      in if count \<ge> maxCacheErrors then (True, invalidate c) else (False, c))"

definition handleAuthError :: "int \<Rightarrow> int \<Rightarrow> cred_store \<Rightarrow> (bool \<times> cred_store) option" where
  "handleAuthError now streamID s =
     (case getStreamCache s streamID of None \<Rightarrow> None
      | Some (a, s') \<Rightarrow>
          (case note_error now (heap s' a) of (hit, c) \<Rightarrow>
             Some (hit, s'\<lparr>heap := (heap s')(a := c)\<rparr>)))"

definition invalidateAllCaches :: "cred_store \<Rightarrow> cred_store" where
  "invalidateAllCaches s = s\<lparr>caches := Map.empty\<rparr>"

section \<open>Fetching through the cache\<close>

definition cache_lookup :: "StreamCredentialsCache \<Rightarrow> string \<Rightarrow> int \<Rightarrow> (string \<times> string \<times> string) option" where
  "cache_lookup c link now =
     (if Link (creds c) = link \<and> now < ExpiresAt (creds c)
      then Some (Username (creds c), Password (creds c), ServerAddr (creds c)) else None)"

definition cache_put ::
  "string \<Rightarrow> int \<Rightarrow> string \<times> string \<times> string \<Rightarrow> StreamCredentialsCache \<Rightarrow> StreamCredentialsCache" where
  "cache_put link now v c =
     (case v of (user, pass, addr) \<Rightarrow>
        c\<lparr>creds := \<lparr>Username = user, Password = pass, ServerAddr = addr,
             ExpiresAt = now + (credentialLifetime - cacheSafetyMargin), Link = link\<rparr>\<rparr>)"

text \<open>
  The world of a fetch is a state \<open>'w\<close> with the clock \<open>now\<close> and the context's error \<open>ctx_err\<close>.
  The fetch itself, serialized by fetchMu, runs while other goroutines use the store, so it is
  handed the store and returns it; it holds this cache's mutex, so only the map and other caches can change under it.
\<close>

type_synonym 'w fetchFunc =
  "string \<Rightarrow> 'w \<times> cred_store \<Rightarrow> (string, string \<times> string \<times> string) result \<times> 'w \<times> cred_store"

definition serializeFetch :: "'w fetchFunc \<Rightarrow> 'w fetchFunc" where
  "serializeFetch storeFn link ws = storeFn link ws"

definition getCredsCached ::
  "('w \<Rightarrow> int) \<Rightarrow> ('w \<Rightarrow> string option) \<Rightarrow> 'w fetchFunc \<Rightarrow> string \<Rightarrow> int \<Rightarrow> 'w \<times> cred_store \<Rightarrow>
   ((string, string \<times> string \<times> string) result \<times> 'w \<times> cred_store) option" where
  "getCredsCached now ctx_err storeFn link streamID ws =
     (case ws of (w, s) \<Rightarrow>
      case getStreamCache s streamID of None \<Rightarrow> None
      | Some (a, s1) \<Rightarrow>
        (case cache_lookup (heap s1 a) link (now w) of
           Some v \<Rightarrow> Some (Inr v, w, s1)
         | None \<Rightarrow>
           (case ctx_err w of
              Some e \<Rightarrow> Some (Inl e, w, s1)
            | None \<Rightarrow>
              (case serializeFetch storeFn link (w, s1) of
                 (Inl e, w2, s2) \<Rightarrow> Some (Inl e, w2, s2)
               | (Inr v, w2, s2) \<Rightarrow>
                   Some (Inr v, w2, s2\<lparr>heap := (heap s2)(a := cache_put link (now w2) v (heap s2 a))\<rparr>)))))"

section \<open>The wrap key\<close>

datatype set_key_error = LeakedKey | BadHex | BadLength nat

definition knownLeakedWrapKeys :: "string list" where
  "knownLeakedWrapKeys =
    [''e979270b5240918e9f3764b0daf9bd825f6d95185481926407435665b37e53ca'',
     ''1d3e9babfd3a74f4588bf90cf5c30d3e8e89a0e2a4544da8de8bbf4d78a32f5c'',
     ''4045edac1cb2c18eff209dc09cd5e2e56475a13ed4615413a87618b3c6813f9a'']"

text \<open>The key is the global wrapKeyBytes; an empty list is Go's nil slice.\<close>

definition SetWrapKey :: "string \<Rightarrow> bytes \<Rightarrow> set_key_error option \<times> bytes" where
  "SetWrapKey hexKey wrapKeyBytes =
     (if hexKey = [] then (None, [])
      else if hexKey \<in> set knownLeakedWrapKeys then (Some LeakedKey, wrapKeyBytes)
      else case hex_decode hexKey of
             None \<Rightarrow> (Some BadHex, wrapKeyBytes)
           | Some key \<Rightarrow>
               if length key \<noteq> 32 then (Some (BadLength (length key)), wrapKeyBytes)
               else (None, key))"

definition IsWrapEnabled :: "bytes \<Rightarrow> bool" where
  "IsWrapEnabled wrapKeyBytes \<longleftrightarrow> length wrapKeyBytes > 0"

definition GetWrapKey :: "bytes \<Rightarrow> bytes" where
  "GetWrapKey wrapKeyBytes = wrapKeyBytes"

section \<open>A slot with a time to live\<close>

text \<open>
  What a stream relies on of its cache: a lookup after a store, until the entry expires, and
  after the cache was cleared.
\<close>

locale ttl_slot =
  fixes look :: "'s \<Rightarrow> 'k \<Rightarrow> int \<Rightarrow> 'v option"
    and put :: "'k \<Rightarrow> int \<Rightarrow> 'v \<Rightarrow> 's \<Rightarrow> 's"
    and clear :: "'s \<Rightarrow> 's"
    and ttl :: int
  assumes look_put: "look (put k t v s) k' now = (if k' = k \<and> now < t + ttl then Some v else None)"
    and look_clear: "0 \<le> now \<Longrightarrow> look (clear s) k now = None"
begin

lemma served: "now < t + ttl \<Longrightarrow> look (put k t v s) k now = Some v"
  by (simp add: look_put)

lemma expired: "t + ttl \<le> now \<Longrightarrow> look (put k t v s) k' now = None"
  by (simp add: look_put)

lemma other_key: "k' \<noteq> k \<Longrightarrow> look (put k t v s) k' now = None"
  by (simp add: look_put)

lemmas slot_laws = look_put look_clear

end

interpretation cred_slot: ttl_slot cache_lookup cache_put invalidate "credentialLifetime - cacheSafetyMargin"
  by unfold_locales (auto simp: cache_lookup_def cache_put_def invalidate_def zero_creds_def split: prod.splits)

section \<open>The store\<close>

lemma getCacheID_same [simp]:
  "getCacheID (s\<lparr>caches := m\<rparr>) i = getCacheID s i" "getCacheID (s\<lparr>heap := h\<rparr>) i = getCacheID s i"
  "getCacheID (s\<lparr>fresh := n\<rparr>) i = getCacheID s i"
  by (simp_all add: getCacheID_def)

lemma getStreamCache_Some:
  assumes "getStreamCache s i = Some (a, s')" and "wf_store s"
  obtains cid where "getCacheID s i = Some cid" "caches s' cid = Some a" "wf_store s'"
    "\<And>c. c \<noteq> cid \<Longrightarrow> caches s' c = caches s c"
    "\<And>b. b \<noteq> a \<Longrightarrow> heap s' b = heap s b"
    "heap s' a = (if cid \<in> dom (caches s) then heap s a else empty_cache)"
    "cid \<in> dom (caches s) \<Longrightarrow> s' = s" "streamsPerCred s' = streamsPerCred s"
proof -
  from assms(1) obtain cid where cid: "getCacheID s i = Some cid"
    by (auto simp: getStreamCache_def split: option.splits)
  show thesis
  proof (cases "caches s cid")
    case None
    then have s': "s' = s\<lparr>caches := (caches s)(cid \<mapsto> fresh s), heap := (heap s)(fresh s := empty_cache),
        fresh := Suc (fresh s)\<rparr>" and a: "a = fresh s"
      using assms(1) cid by (auto simp: getStreamCache_def)
    have "wf_store s'"
      using assms(2) None unfolding wf_store_def s'
      by (auto simp: ran_def less_Suc_eq)
    then show thesis using None by (intro that [OF cid]) (simp_all add: s' a dom_def)
  next
    case (Some b)
    then have "s' = s" "a = b" using assms(1) cid by (auto simp: getStreamCache_def)
    with Some show thesis using assms(2) by (intro that [OF cid]) (simp_all add: dom_def)
  qed
qed

lemma getStreamCache_again:
  assumes "getStreamCache s i = Some (a, s')" and "getCacheID s' j = getCacheID s i"
    and "caches s'' = caches s'" and "streamsPerCred s'' = streamsPerCred s'"
  shows "getStreamCache s'' j = Some (a, s'')"
  using assms by (auto simp: getStreamCache_def getCacheID_def split: option.splits if_splits)

section \<open>The invariant of the error counters\<close>

text \<open>
  The counter of every cache stays below the limit, so the 32-bit counter of the code cannot
  overflow and \<open>int\<close> models it.
\<close>

definition store_inv :: "cred_store \<Rightarrow> bool" where
  "store_inv s \<longleftrightarrow> wf_store s \<and> (\<forall>a. 0 \<le> errorCount (heap s a) \<and> errorCount (heap s a) < maxCacheErrors)"

lemma note_error_bound:
  assumes "0 \<le> errorCount c" and "errorCount c < maxCacheErrors"
  shows "0 \<le> errorCount (snd (note_error now c))" "errorCount (snd (note_error now c)) < maxCacheErrors"
  using assms by (auto simp: note_error_def invalidate_def tg_consts Let_def)

lemma note_error_count:
  assumes "note_error now c = (b, c')"
  shows "b \<longleftrightarrow> (if now - lastErrorTime c > 10 then 1 else errorCount c + 1) \<ge> 3"
    and "\<not> b \<Longrightarrow> errorCount c' = (if now - lastErrorTime c > 10 then 1 else errorCount c + 1) \<and> lastErrorTime c' = now"
    and "b \<Longrightarrow> \<exists>d. c' = invalidate d"
  using assms by (auto simp: note_error_def Let_def tg_consts split: if_splits)

lemma wf_store_heap [simp]: "wf_store (s\<lparr>heap := h\<rparr>) = wf_store s"
  by (simp add: wf_store_def)

lemma store_inv_update:
  "store_inv s \<Longrightarrow> 0 \<le> errorCount c \<Longrightarrow> errorCount c < maxCacheErrors \<Longrightarrow>
   store_inv (s\<lparr>heap := (heap s)(a := c)\<rparr>)"
  by (simp add: store_inv_def)

lemma getStreamCache_inv:
  assumes "store_inv s" and "getStreamCache s i = Some (a, s')"
  shows "store_inv s'"
proof -
  from assms obtain cid where "wf_store s'" "\<And>b. b \<noteq> a \<Longrightarrow> heap s' b = heap s b"
    "heap s' a = (if cid \<in> dom (caches s) then heap s a else empty_cache)"
    unfolding store_inv_def by (metis getStreamCache_Some)
  with assms(1) show ?thesis
    unfolding store_inv_def by (metis empty_cache_def StreamCredentialsCache.select_convs(2)
        maxCacheErrors_def zero_less_numeral order_refl)
qed

lemma handleAuthError_Some:
  assumes "handleAuthError now i s = Some (hit, s')"
  obtains a s1 where "getStreamCache s i = Some (a, s1)"
    "note_error now (heap s1 a) = (hit, heap s' a)"
    "s' = s1\<lparr>heap := (heap s1)(a := heap s' a)\<rparr>"
  using assms by (auto simp: handleAuthError_def split: option.splits prod.splits)

lemma handleAuthError_total:
  assumes "streamsPerCred s \<noteq> 0"
  shows "\<exists>hit s'. handleAuthError now i s = Some (hit, s') \<and> streamsPerCred s' = streamsPerCred s"
  using assms by (auto simp: handleAuthError_def getStreamCache_def getCacheID_def split: option.splits prod.splits)

lemma handleAuthError_inv:
  assumes "store_inv s" and "handleAuthError now i s = Some (hit, s')"
  shows "store_inv s'"
proof -
  obtain a s1 where a: "getStreamCache s i = Some (a, s1)"
    "note_error now (heap s1 a) = (hit, heap s' a)" "s' = s1\<lparr>heap := (heap s1)(a := heap s' a)\<rparr>"
    using assms(2) by (rule handleAuthError_Some)
  have s1: "store_inv s1" using assms(1) a(1) by (rule getStreamCache_inv)
  then have "0 \<le> errorCount (heap s' a) \<and> errorCount (heap s' a) < maxCacheErrors"
    using note_error_bound [of "heap s1 a" now] a(2) by (simp add: store_inv_def)
  then show ?thesis using store_inv_update [OF s1, of "heap s' a" a] a(3) by simp
qed

lemma cache_put_errorCount [simp, tg_frame]:
  "errorCount (cache_put link t v c) = errorCount c" "lastErrorTime (cache_put link t v c) = lastErrorTime c"
  by (auto simp: cache_put_def split: prod.splits)

lemma getCredsCached_miss:
  assumes "getStreamCache s i = Some (a, s1)" and "cache_lookup (heap s1 a) link (now w) = None"
    and "ctx_err w = None"
  shows "getCredsCached now ctx_err storeFn link i (w, s) =
    (case storeFn link (w, s1) of
       (Inl e, w2, s2) \<Rightarrow> Some (Inl e, w2, s2)
     | (Inr v, w2, s2) \<Rightarrow>
         Some (Inr v, w2, s2\<lparr>heap := (heap s2)(a := cache_put link (now w2) v (heap s2 a))\<rparr>))"
  using assms by (simp add: getCredsCached_def serializeFetch_def split: prod.splits sum.splits)

section \<open>Properties\<close>

text \<open>
  C12.  The caches stay well formed under every operation of the store: two cache ids never share
  a cache, addresses are allocated, and every error counter stays in the range 0 to 2, so the
  32-bit counter never wraps.  This covers a fetch that runs while the store changes, as long as
  what the other goroutines do keeps it.
\<close>

theorem credential_store_invariant:
  assumes inv: "store_inv s"
    and env: "\<And>w s r w' s'. storeFn link (w, s) = (r, w', s') \<Longrightarrow> store_inv s \<Longrightarrow> store_inv s'"
  shows "store_inv (empty_store spc) \<and>
    (\<forall>now hit s'. handleAuthError now i s = Some (hit, s') \<longrightarrow> store_inv s') \<and>
    (\<forall>now ctx_err w r w' s'. getCredsCached now ctx_err storeFn link i (w, s) = Some (r, w', s') \<longrightarrow>
       store_inv s') \<and>
    store_inv (invalidateAllCaches s)"
proof (intro conjI allI impI)
  show "store_inv (empty_store spc)" "store_inv (invalidateAllCaches s)"
    using inv by (auto simp: store_inv_def wf_store_def empty_store_def invalidateAllCaches_def
        empty_cache_def tg_consts)
  show "store_inv s'" if "handleAuthError now i s = Some (hit, s')" for now hit s'
    using inv that by (rule handleAuthError_inv)
  fix now ctx_err w r w' s'
  assume "getCredsCached now ctx_err storeFn link i (w, s) = Some (r, w', s')"
  then obtain a s1 where a: "getStreamCache s i = Some (a, s1)"
    and res: "s' = s1 \<or> (\<exists>v w2 s2. storeFn link (w, s1) = (v, w2, s2) \<and>
      (s' = s2 \<or> (\<exists>t v. s' = s2\<lparr>heap := (heap s2)(a := cache_put link t v (heap s2 a))\<rparr>)))"
    unfolding getCredsCached_def serializeFetch_def
    by (auto split: option.splits prod.splits sum.splits)
  have "store_inv s1" using inv a by (rule getStreamCache_inv)
  with res show "store_inv s'"
    using env by (auto intro!: store_inv_update) (auto simp: store_inv_def)
qed

theorem credential_store_invariant_witness:
  "\<exists>hit s'. handleAuthError 100 0 (empty_store 4) = Some (hit, s') \<and> store_inv s'"
proof -
  have e: "store_inv (empty_store 4)"
    by (simp add: store_inv_def wf_store_def empty_store_def empty_cache_def tg_consts)
  obtain hit s' where h: "handleAuthError 100 0 (empty_store 4) = Some (hit, s')"
    by (cases "note_error 100 empty_cache")
      (simp add: handleAuthError_def getStreamCache_def getCacheID_def empty_store_def)
  have "store_inv s'"
    using credential_store_invariant [OF e, where storeFn = "\<lambda>_ (w :: unit, s). (Inl [], w, s)" and i = 0 and spc = 0] h
    by (metis old.prod.case prod.inject)
  with h show ?thesis by blast
qed

text \<open>
  Error bursts: three authentication errors of streams that share a cache, on a cache with no
  pending errors, invalidate it on the third exactly when each error came within ten seconds of
  the one before; the first two never do; and after an invalidation no link is served from it.
  The window is between consecutive errors: the three may span up to twenty seconds.
\<close>

theorem auth_error_burst:
  assumes "store_inv s" and "getStreamCache s i = Some (a, s0)" and "errorCount (heap s0 a) = 0"
    and "getCacheID s j = getCacheID s i" and "getCacheID s k = getCacheID s i"
    and "handleAuthError t1 i s = Some (b1, s1)" and "handleAuthError t2 j s1 = Some (b2, s2)"
    and "handleAuthError t3 k s2 = Some (b3, s3)"
  shows "\<not> b1 \<and> \<not> b2 \<and> (b3 \<longleftrightarrow> t2 - t1 \<le> 10 \<and> t3 - t2 \<le> 10) \<and>
    (b3 \<longrightarrow> (\<forall>link now. 0 \<le> now \<longrightarrow> cache_lookup (heap s3 a) link now = None))"
proof -
  have step1: "note_error t1 (heap s0 a) = (b1, heap s1 a)" and s1: "s1 = s0\<lparr>heap := (heap s0)(a := heap s1 a)\<rparr>"
    using assms(2,6) by (auto elim!: handleAuthError_Some)
  have spc: "streamsPerCred s0 = streamsPerCred s"
    using assms(1,2) unfolding store_inv_def by (metis getStreamCache_Some)
  have ids: "getCacheID s0 x = getCacheID s x" for x using spc by (simp add: getCacheID_def)
  have f1: "caches s1 = caches s0" "streamsPerCred s1 = streamsPerCred s0" by (subst s1, simp)+
  have "getStreamCache s1 j = Some (a, s1)"
    by (rule getStreamCache_again [OF assms(2)]) (simp_all add: f1 ids assms(4))
  then have step2: "note_error t2 (heap s1 a) = (b2, heap s2 a)" and s2: "s2 = s1\<lparr>heap := (heap s1)(a := heap s2 a)\<rparr>"
    using assms(7) by (auto elim!: handleAuthError_Some)
  have f2: "caches s2 = caches s0" "streamsPerCred s2 = streamsPerCred s0" by (subst s2, simp add: f1)+
  have "getStreamCache s2 k = Some (a, s2)"
    by (rule getStreamCache_again [OF assms(2)]) (simp_all add: f2 ids assms(5))
  then have step3: "note_error t3 (heap s2 a) = (b3, heap s3 a)"
    using assms(8) by (auto elim!: handleAuthError_Some)
  have n1: "\<not> b1" "errorCount (heap s1 a) = 1" "lastErrorTime (heap s1 a) = t1"
    using note_error_count(1,2) [OF step1] assms(3) by auto
  have n2: "\<not> b2" "errorCount (heap s2 a) = (if t2 - t1 > 10 then 1 else 2)" "lastErrorTime (heap s2 a) = t2"
    using note_error_count(1,2) [OF step2] n1 by auto
  have "b3 \<longleftrightarrow> t2 - t1 \<le> 10 \<and> t3 - t2 \<le> 10"
    using note_error_count(1) [OF step3] n2 by auto
  moreover have "\<exists>d. heap s3 a = invalidate d" if b3
    using note_error_count(3) [OF step3] that .
  ultimately show ?thesis using n1(1) n2(1) by (auto simp: cred_slot.look_clear)
qed

theorem auth_error_burst_witness:
  "\<exists>b1 b2 b3 s1 s2 s3. handleAuthError 100 0 (empty_store 4) = Some (b1, s1) \<and>
     handleAuthError 108 1 s1 = Some (b2, s2) \<and> handleAuthError 116 3 s2 = Some (b3, s3) \<and>
     \<not> b1 \<and> \<not> b2 \<and> b3"
proof -
  let ?s = "empty_store 4"
  obtain b1 s1 where h1: "handleAuthError 100 0 ?s = Some (b1, s1)" and c1: "streamsPerCred s1 = 4"
    by (cases "note_error 100 empty_cache")
      (simp add: handleAuthError_def getStreamCache_def getCacheID_def empty_store_def)
  obtain b2 s2 where h2: "handleAuthError 108 1 s1 = Some (b2, s2)" and c2: "streamsPerCred s2 = 4"
    using handleAuthError_total [of s1] c1 by (metis zero_neq_numeral)
  obtain b3 s3 where h3: "handleAuthError 116 3 s2 = Some (b3, s3)"
    using handleAuthError_total [of s2] c2 by (metis zero_neq_numeral)
  have "store_inv ?s"
    by (simp add: store_inv_def wf_store_def empty_store_def empty_cache_def tg_consts)
  moreover obtain s0 where "getStreamCache ?s 0 = Some (0, s0)" "errorCount (heap s0 0) = 0"
    by (simp add: getStreamCache_def getCacheID_def empty_store_def empty_cache_def)
  moreover have "getCacheID ?s 1 = getCacheID ?s 0" "getCacheID ?s 3 = getCacheID ?s 0"
    by (simp_all add: getCacheID_def empty_store_def)
  ultimately have "\<not> b1 \<and> \<not> b2 \<and> b3"
    using auth_error_burst [OF _ _ _ _ _ h1 h2 h3] by simp
  with h1 h2 h3 show ?thesis by blast
qed

lemma getCredsCached_hit:
  assumes "getStreamCache s i = Some (a, s1)" and "cache_lookup (heap s1 a) link (now w) = Some v"
  shows "getCredsCached now ctx_err storeFn link i (w, s) = Some (Inr v, w, s1)"
  using assms by (simp add: getCredsCached_def)

lemma getCredsCached_fetched:
  assumes "getCredsCached now ctx_err storeFn link i (w, s) = Some (Inr v, w', s')"
    and "getStreamCache s i = Some (a, s1)" and "cache_lookup (heap s1 a) link (now w) = None"
  obtains s2 where "storeFn link (w, s1) = (Inr v, w', s2)"
    "s' = s2\<lparr>heap := (heap s2)(a := cache_put link (now w') v (heap s2 a))\<rparr>"
  using assms by (auto simp: getCredsCached_def serializeFetch_def split: option.splits prod.splits sum.splits)

text \<open>
  C11.  One fetch serves a whole group: once a stream has fetched credentials for a link, every
  stream of the same cache is answered with them, without a call of the fetch function and with the store unchanged,
  for exactly nine minutes (ten minutes of lifetime less the safety margin) after the fetch
  returned; from then on, and at once for another link, the lookup fetches again (or returns the context's error).
\<close>

theorem credentials_shared_until_expiry:
  assumes "getCredsCached now ctx_err storeFn link i (w, s) = Some (Inr v, w1, s1)"
    and "getStreamCache s i = Some (a, s0)" and "cache_lookup (heap s0 a) link (now w) = None"
    and env: "\<And>r w' s'. storeFn link (w, s0) = (r, w', s') \<Longrightarrow>
      caches s' = caches s0 \<and> streamsPerCred s' = streamsPerCred s0"
    and "getCacheID s0 j = getCacheID s i"
  shows "getCredsCached now ctx_err storeFn2 link2 j (w2, s1) =
    (if link2 = link \<and> now w2 < now w1 + 540 * 10 ^ 9 then Some (Inr v, w2, s1)
     else case ctx_err w2 of Some e \<Rightarrow> Some (Inl e, w2, s1)
     | None \<Rightarrow> (case storeFn2 link2 (w2, s1) of
         (Inl e, w3, s3) \<Rightarrow> Some (Inl e, w3, s3)
       | (Inr v3, w3, s3) \<Rightarrow>
           Some (Inr v3, w3, s3\<lparr>heap := (heap s3)(a := cache_put link2 (now w3) v3 (heap s3 a))\<rparr>)))"
proof -
  obtain s2 where f: "storeFn link (w, s0) = (Inr v, w1, s2)"
    and s1: "s1 = s2\<lparr>heap := (heap s2)(a := cache_put link (now w1) v (heap s2 a))\<rparr>"
    using assms(1-3) by (rule getCredsCached_fetched)
  have again: "getStreamCache s1 j = Some (a, s1)"
    by (rule getStreamCache_again [OF assms(2)]) (use env [OF f] s1 assms(5) in simp_all)
  have look: "cache_lookup (heap s1 a) link2 (now w2) =
      (if link2 = link \<and> now w2 < now w1 + 540 * 10 ^ 9 then Some v else None)"
    by (simp add: s1 cred_slot.look_put tg_consts)
  show ?thesis
    using again look
    by (simp add: getCredsCached_def serializeFetch_def split: option.splits prod.splits sum.splits)
qed

definition test_fetch :: "nat fetchFunc" where
  "test_fetch link ws = (case ws of (n, s) \<Rightarrow> (Inr (''user'', ''pass'', link), Suc n, s))"

theorem credentials_shared_until_expiry_witness:
  "\<exists>s1. getCredsCached int (\<lambda>_. None) test_fetch ''L'' 0 (0, empty_store 4) =
       Some (Inr (''user'', ''pass'', ''L''), 1, s1) \<and>
     getCredsCached int (\<lambda>_. None) test_fetch ''L'' 3 (539, s1) = Some (Inr (''user'', ''pass'', ''L''), 539, s1)"
proof -
  let ?s = "empty_store 4"
  let ?t = "?s\<lparr>caches := [0 \<mapsto> 0], heap := (heap ?s)(0 := empty_cache), fresh := 1\<rparr>"
  have g: "getStreamCache ?s 0 = Some (0, ?t)"
    by (simp add: getStreamCache_def getCacheID_def empty_store_def)
  have l: "cache_lookup (heap ?t 0) ''L'' (int 0) = None"
    by (simp add: cache_lookup_def empty_cache_def zero_creds_def)
  obtain s1 where first: "getCredsCached int (\<lambda>_. None) test_fetch ''L'' 0 (0, ?s) =
      Some (Inr (''user'', ''pass'', ''L''), 1, s1)"
    using getCredsCached_miss [where now = int and w = 0 and ctx_err = "\<lambda>_. None"
        and storeFn = test_fetch and link = "''L''", OF g l] by (simp add: test_fetch_def)
  have env: "caches s' = caches ?t \<and> streamsPerCred s' = streamsPerCred ?t"
    if "test_fetch ''L'' (0, ?t) = (r, w', s')" for r w' s'
    using that by (auto simp: test_fetch_def)
  have same: "getCacheID ?t 3 = getCacheID ?s 0"
    by (simp add: getCacheID_def empty_store_def)
  show ?thesis
    using credentials_shared_until_expiry [where storeFn = test_fetch and ?storeFn2.0 = test_fetch
        and ?link2.0 = "''L''" and ?w2.0 = 539, OF first g l env same] first
    by auto
qed

lemma getStreamCache_cleared:
  assumes "caches s = Map.empty" and "getStreamCache s j = Some (a, s')" and "0 \<le> t"
  shows "cache_lookup (heap s' a) link t = None"
  using assms by (auto simp: getStreamCache_def cache_lookup_def empty_cache_def zero_creds_def
      split: option.splits)

text \<open>
  A network change is final: a fetch that was running while invalidateAllCaches cleared the
  caches answers its own stream, but it does not bring anything back: it writes to the cache it
  had looked up, which the map no longer holds, and the next lookup of any stream, the fetching
  one included, finds no credentials for any link.
\<close>

theorem network_change_drops_credentials:
  assumes "getStreamCache s i = Some (a, s0)" and "cache_lookup (heap s0 a) link (now w) = None"
    and "ctx_err w = None" and "storeFn link (w, s0) = (Inr v, w1, invalidateAllCaches s')"
  shows "\<exists>s1. getCredsCached now ctx_err storeFn link i (w, s) = Some (Inr v, w1, s1) \<and>
    (\<forall>j b s2 link2 t. getStreamCache s1 j = Some (b, s2) \<and> 0 \<le> t \<longrightarrow>
       cache_lookup (heap s2 b) link2 t = None)"
  using getCredsCached_miss [where now = now and w = w and storeFn = storeFn and ctx_err = ctx_err
      and link = link, OF assms(1,2,3)] assms(4)
  by (auto simp: invalidateAllCaches_def intro: getStreamCache_cleared [rotated])

theorem network_change_drops_credentials_witness:
  "\<exists>s1. getCredsCached int (\<lambda>_. None) (\<lambda>l (n, s). (Inr (''u'', ''p'', l), Suc n, invalidateAllCaches s))
       ''L'' 0 (0, empty_store 4) = Some (Inr (''u'', ''p'', ''L''), 1, s1) \<and>
     (\<forall>b s2. getStreamCache s1 0 = Some (b, s2) \<longrightarrow> cache_lookup (heap s2 b) ''L'' 1 = None)"
proof -
  let ?s = "empty_store 4"
  let ?t = "?s\<lparr>caches := [0 \<mapsto> 0], heap := (heap ?s)(0 := empty_cache), fresh := 1\<rparr>"
  have g: "getStreamCache ?s 0 = Some (0, ?t)"
    by (simp add: getStreamCache_def getCacheID_def empty_store_def)
  have l: "cache_lookup (heap ?t 0) ''L'' (int 0) = None"
    by (simp add: cache_lookup_def empty_cache_def zero_creds_def)
  show ?thesis
    using network_change_drops_credentials [where now = int and w = 0 and ctx_err = "\<lambda>_. None"
        and storeFn = "\<lambda>l (n, s). (Inr (''u'', ''p'', l), Suc n, invalidateAllCaches s)"
        and v = "(''u'', ''p'', ''L'')" and ?w1.0 = 1 and s' = ?t, OF g l]
    by fastforce
qed

section \<open>The wrap key\<close>

text \<open>
  Setting the wrap key: the empty string turns wrapping off; otherwise the key is taken
  exactly when it is not one of the known leaked keys and is the hex of 32 bytes, and then it is
  those bytes; any failure reports an error and leaves the key in force as it was.
\<close>

theorem set_wrap_key:
  "let (r, key) = SetWrapKey k old in
    (r = None \<longleftrightarrow> k = [] \<or> k \<notin> set knownLeakedWrapKeys \<and> (\<exists>b. hex_decode k = Some b \<and> length b = 32)) \<and>
    (if r \<noteq> None then key = old
     else if k = [] then \<not> IsWrapEnabled key
     else IsWrapEnabled key \<and> hex_encode (GetWrapKey key) = to_lower k)"
  by (cases "hex_decode k")
    (auto simp: SetWrapKey_def IsWrapEnabled_def GetWrapKey_def hex_encode_decode)

text \<open>
  The refusal of the known leaked keys looks the key up as it was written, but the hex
  decoder takes both cases: the upper-case spelling of a leaked key sets exactly the key bytes that
  its lower-case spelling is refused for.
\<close>

theorem leaked_key_accepted_in_upper_case:
  "\<exists>key. hex_decode (knownLeakedWrapKeys ! 0) = Some key \<and>
     SetWrapKey (knownLeakedWrapKeys ! 0) old = (Some LeakedKey, old) \<and>
     SetWrapKey ''E979270B5240918E9F3764B0DAF9BD825F6D95185481926407435665B37E53CA'' old = (None, key)"
proof -
  have eq: "knownLeakedWrapKeys ! 0 =
      to_lower ''E979270B5240918E9F3764B0DAF9BD825F6D95185481926407435665B37E53CA''"
    by code_simp
  obtain key where key: "hex_decode (knownLeakedWrapKeys ! 0) = Some key" "length key = 32"
    by (simp add: knownLeakedWrapKeys_def hex_val_def Let_def)
  moreover have "SetWrapKey (knownLeakedWrapKeys ! 0) old = (Some LeakedKey, old)"
    by (simp add: SetWrapKey_def knownLeakedWrapKeys_def)
  ultimately show ?thesis
    unfolding eq hex_decode_to_lower
    by (simp add: SetWrapKey_def knownLeakedWrapKeys_def)
qed

end
