(* ===== verification/Dns_Wire.thy ===== *)
theory Dns_Wire
  imports TG_Prelude
begin

text \<open>
  The DNS messages of internal/core/resolver.go: buildDNSQuery, parseDNSResponse and
  parseDNSResponseAll, byte by byte.  An outer \<open>None\<close> is the run-time panic of an index or slice
  out of range, which the last section shows never happens; errors are the \<open>Inl\<close> values.
\<close>

section \<open>Queries\<close>

definition str_bytes :: "string \<Rightarrow> bytes" where
  "str_bytes s = map of_char s"

fun write_labels :: "string list \<Rightarrow> bytes" where
  "write_labels [] = []"
| "write_labels (p # ps) = word_of_nat (length p) # str_bytes p @ write_labels ps"

definition buildDNSQuery :: "int \<Rightarrow> string \<Rightarrow> bytes" where
  "buildDNSQuery nanos domain =
     (let query = replicate 12 0;
          query = overwrite 0 (put_be16 (word_of_int (nanos AND 0xFFFF))) query;
          query = overwrite 2 (put_be16 0x0100) query;
          query = overwrite 4 (put_be16 1) query;
          parts = str_split CHR ''.'' (trim_suffix ''.'' domain);
          nameBuf = write_labels parts @ [0];
          nameBuf = nameBuf @ [0] @ [1] @ [0] @ [1]
      in query @ nameBuf)"

section \<open>Responses\<close>

datatype dns_error = TooShort | NotResponse | Rcode nat | NoAnswers | NoARecord

definition byte_at :: "bytes \<Rightarrow> nat \<Rightarrow> byte option" where
  "byte_at r i = (if i < length r then Some (r ! i) else None)"

definition be16_at :: "bytes \<Rightarrow> nat \<Rightarrow> 16 word option" where
  "be16_at r i = (if i + 2 \<le> length r then Some (get_be (take 2 (drop i r))) else None)"

text \<open>The loop over the labels of the question.\<close>

function skip_question :: "bytes \<Rightarrow> nat \<Rightarrow> nat option" where
  "skip_question r off =
     (if off < length r
      then case byte_at r off of None \<Rightarrow> None
        | Some b \<Rightarrow>
            if b = 0 then Some off
            else let labelLen = unat b in
              if labelLen = 0 \<or> labelLen > 63 then Some off
              else skip_question r (off + (labelLen + 1))
      else Some off)"
  by pat_completeness auto
termination by (relation "measure (\<lambda>(r, off). length r - off)") auto

text \<open>The loop over the name of an answer; the flag is nameSkipped.\<close>

function skip_name :: "bytes \<Rightarrow> nat \<Rightarrow> (bool \<times> nat) option" where
  "skip_name r off =
     (if off < length r
      then case byte_at r off of None \<Rightarrow> None
        | Some b \<Rightarrow>
            if b = 0 then Some (False, off)
            else let labelLen = unat b in
              if labelLen > 63 then Some (True, off + 2)
              else skip_name r (off + (labelLen + 1))
      else Some (False, off))"
  by pat_completeness auto
termination by (relation "measure (\<lambda>(r, off). length r - off)") auto

declare skip_question.simps [simp del] skip_name.simps [simp del]

text \<open>One answer up to its data: the break of the loop, or TYPE, RDLENGTH and the data's offset.\<close>

datatype answer_step = Break | Answer "16 word" "16 word" nat

definition read_answer :: "bytes \<Rightarrow> nat \<Rightarrow> answer_step option" where
  "read_answer r off0 =
     (case skip_name r off0 of None \<Rightarrow> None
      | Some (nameSkipped, off1) \<Rightarrow>
        (case (if \<not> nameSkipped \<and> off1 < length r
               then map_option (\<lambda>b. if b = 0 then off1 + 1 else off1) (byte_at r off1)
               else Some off1) of None \<Rightarrow> None
         | Some off \<Rightarrow>
           if int off \<ge> int (length r) - 10 then Some Break
           else case be16_at r off of None \<Rightarrow> None
             | Some qtype \<Rightarrow>
               (case be16_at r (off + 2 + 2 + 4) of None \<Rightarrow> None
                | Some rdLength \<Rightarrow> Some (Answer qtype rdLength (off + 2 + 2 + 4 + 2)))))"

definition ipv4_text :: "byte \<Rightarrow> byte \<Rightarrow> byte \<Rightarrow> byte \<Rightarrow> string" where
  "ipv4_text a b c d = nat_dec (unat a) @ ''.'' @ nat_dec (unat b) @ ''.'' @ nat_dec (unat c) @
     ''.'' @ nat_dec (unat d)"

definition a_record :: "bytes \<Rightarrow> nat \<Rightarrow> 16 word \<Rightarrow> 16 word \<Rightarrow> string option" where
  "a_record r off qtype rdLength =
     (if qtype = 1 \<and> rdLength = 4 \<and> off + 4 \<le> length r
      then Some (ipv4_text (r ! off) (r ! (off + 1)) (r ! (off + 2)) (r ! (off + 3)))
      else None)"

fun first_answer :: "nat \<Rightarrow> bytes \<Rightarrow> nat \<Rightarrow> (dns_error, string) result option" where
  "first_answer 0 r off = Some (Inl NoARecord)"
| "first_answer (Suc k) r off =
     (if off < length r
      then case read_answer r off of None \<Rightarrow> None
        | Some Break \<Rightarrow> Some (Inl NoARecord)
        | Some (Answer qtype rdLength off') \<Rightarrow>
            (case a_record r off' qtype rdLength of
               Some ip \<Rightarrow> Some (Inr ip)
             | None \<Rightarrow> first_answer k r (off' + unat rdLength))
      else Some (Inl NoARecord))"

fun all_answers :: "nat \<Rightarrow> bytes \<Rightarrow> nat \<Rightarrow> string list \<Rightarrow> string list option" where
  "all_answers 0 r off ips = Some ips"
| "all_answers (Suc k) r off ips =
     (if off < length r
      then case read_answer r off of None \<Rightarrow> None
        | Some Break \<Rightarrow> Some ips
        | Some (Answer qtype rdLength off') \<Rightarrow>
            all_answers k r (off' + unat rdLength)
              (case a_record r off' qtype rdLength of Some ip \<Rightarrow> add_new ip ips | None \<Rightarrow> ips)
      else Some ips)"

text \<open>The header checks, the same in both parsers, and then the loop over the answers.\<close>

definition with_answers ::
  "bytes \<Rightarrow> (nat \<Rightarrow> nat \<Rightarrow> (dns_error, 'a) result option) \<Rightarrow> (dns_error, 'a) result option" where
  "with_answers r loop =
     (if length r < 12 then Some (Inl TooShort)
      else case be16_at r 2 of None \<Rightarrow> None
        | Some flags \<Rightarrow>
          if flags AND 0x8000 = 0 then Some (Inl NotResponse)
          else let rcode = flags AND 0x000F in
            if rcode \<noteq> 0 then Some (Inl (Rcode (unat rcode)))
            else case be16_at r 6 of None \<Rightarrow> None
              | Some ansCount \<Rightarrow>
                if ansCount = 0 then Some (Inl NoAnswers)
                else case skip_question r 12 of None \<Rightarrow> None
                  | Some off \<Rightarrow> loop (unat ansCount) (off + 5))"

definition parseDNSResponse :: "bytes \<Rightarrow> (dns_error, string) result option" where
  "parseDNSResponse r = with_answers r (\<lambda>ansCount off. first_answer ansCount r off)"

definition parseDNSResponseAll :: "bytes \<Rightarrow> (dns_error, string list) result option" where
  "parseDNSResponseAll r =
     with_answers r (\<lambda>ansCount off.
       case all_answers ansCount r off [] of None \<Rightarrow> None
       | Some ips \<Rightarrow> Some (if ips = [] then Inl NoARecord else Inr ips))"

section \<open>No panic\<close>

lemma byte_at_Some [simp]: "i < length r \<Longrightarrow> byte_at r i = Some (r ! i)"
  by (simp add: byte_at_def)

lemma skip_question_total: "\<exists>off'. skip_question r off = Some off'"
  by (induction r off rule: skip_question.induct) (subst skip_question.simps, auto simp: Let_def)

lemma skip_name_total: "\<exists>b off'. skip_name r off = Some (b, off')"
  by (induction r off rule: skip_name.induct) (subst skip_name.simps, auto simp: Let_def)

lemma read_answer_total [simp]: "read_answer r off \<noteq> None"
proof -
  obtain b off1 where "skip_name r off = Some (b, off1)" using skip_name_total by blast
  then show ?thesis by (auto simp: read_answer_def be16_at_def)
qed

lemma first_answer_total: "first_answer k r off \<noteq> None"
  by (induction k r off rule: first_answer.induct)
    (auto split: option.splits answer_step.splits)

lemma all_answers_total: "all_answers k r off ips \<noteq> None"
  by (induction k r off ips rule: all_answers.induct)
    (auto split: option.splits answer_step.splits)

lemma with_answers_total:
  "(\<And>k off. loop k off \<noteq> None) \<Longrightarrow> with_answers r loop \<noteq> None"
  using skip_question_total [of r 12] by (auto simp: with_answers_def be16_at_def Let_def)

section \<open>The two parsers agree\<close>

lemma all_answers_prefix:
  "all_answers k r off ips = Some ips' \<Longrightarrow> prefix ips ips' \<and> (distinct ips \<longrightarrow> distinct ips')"
proof (induction k r off ips rule: all_answers.induct)
  case (2 k r off ips)
  then show ?case
    by (auto split: if_splits option.splits answer_step.splits
        intro: prefix_order.trans [OF add_new_prefix])
qed simp

lemma first_is_head_of_all:
  "first_answer k r off =
     (case all_answers k r off [] of None \<Rightarrow> None
      | Some ips \<Rightarrow> Some (if ips = [] then Inl NoARecord else Inr (hd ips)))"
proof (induction k r off rule: first_answer.induct)
  case (2 k r off)
  obtain st where st: "read_answer r off = Some st" using read_answer_total by blast
  show ?case
  proof (cases st)
    case Break
    with st show ?thesis by simp
  next
    case (Answer t n off')
    show ?thesis
    proof (cases "a_record r off' t n")
      case None
      with st Answer 2 show ?thesis by simp
    next
      case (Some ip)
      obtain ips where ips: "all_answers k r (off' + unat n) [ip] = Some ips"
        using all_answers_total by blast
      then have "hd ips = ip" "ips \<noteq> []"
        using all_answers_prefix [OF ips] by (auto simp: prefix_def)
      with st Answer Some ips show ?thesis by (simp add: add_new_def)
    qed
  qed
qed simp

section \<open>Reading what a server wrote\<close>

text \<open>
  The specification side: a server's reply to a query echoes the question and lists resource
  records whose name is the compression pointer to it.
\<close>

record rr =
  rr_type :: "16 word"
  rr_ttl :: "32 word"
  rr_data :: bytes

definition rr_wire :: "rr \<Rightarrow> bytes" where
  "rr_wire a = [0xC0, 0x0C] @ put_be16 (rr_type a) @ put_be16 1 @ put_be32 (rr_ttl a) @
     put_be16 (word_of_nat (length (rr_data a))) @ rr_data a"

definition reply_to :: "16 word \<Rightarrow> bytes \<Rightarrow> rr list \<Rightarrow> bytes \<Rightarrow> bytes" where
  "reply_to flags query rrs extra =
     take 2 query @ put_be16 flags @ take 2 (drop 4 query) @ put_be16 (word_of_nat (length rrs)) @
     take 4 (drop 8 query) @ drop 12 query @ concat (map rr_wire rrs) @ extra"

fun rr_ip :: "rr \<Rightarrow> string option" where
  "rr_ip a = (case rr_data a of [w, x, y, z] \<Rightarrow> if rr_type a = 1 then Some (ipv4_text w x y z) else None
     | _ \<Rightarrow> None)"

definition rr_ips :: "rr list \<Rightarrow> string list" where
  "rr_ips rrs = merge_new (List.map_filter rr_ip rrs) []"

definition valid_labels :: "string list \<Rightarrow> bool" where
  "valid_labels ps \<longleftrightarrow> ps \<noteq> [] \<and> (\<forall>p \<in> set ps. p \<noteq> [] \<and> length p \<le> 63 \<and> CHR ''.'' \<notin> set p)"

lemma byte_at_append [simp]:
  "byte_at (pre @ b # post) (length pre) = Some b"
  by (simp add: byte_at_def)

lemma be16_at_append: "length pre = n \<Longrightarrow> be16_at (pre @ put_be16 w @ post) n = Some w"
  by (simp add: be16_at_def)

lemma skip_question_labels:
  assumes "\<forall>p \<in> set ps. p \<noteq> [] \<and> length p \<le> 63"
  shows "skip_question (pre @ write_labels ps @ 0 # post) (length pre) =
    Some (length pre + length (write_labels ps))"
  using assms
proof (induction ps arbitrary: pre)
  case Nil
  show ?case by (subst skip_question.simps) simp
next
  case (Cons p ps)
  have len: "unat (word_of_nat (length p) :: byte) = length p"
    using Cons.prems unfolding unat_of_nat by simp
  then have nz: "(word_of_nat (length p) :: byte) \<noteq> 0"
    using Cons.prems by (metis length_0_conv list.set_intros(1) unat_0)
  have "skip_question ((pre @ word_of_nat (length p) # str_bytes p) @ write_labels ps @ 0 # post)
      (length (pre @ word_of_nat (length p) # str_bytes p)) =
    Some (length (pre @ word_of_nat (length p) # str_bytes p) + length (write_labels ps))"
    using Cons.prems by (intro Cons.IH) simp
  then show ?case
    using Cons.prems len nz
    by (subst skip_question.simps) (simp add: str_bytes_def Let_def add.commute add.left_commute)
qed

lemma read_answer_rr:
  assumes "length (rr_data a) < 65536"
  shows "read_answer (pre @ rr_wire a @ post) (length pre) =
    Some (if rr_data a = [] \<and> post = [] then Break
      else Answer (rr_type a) (word_of_nat (length (rr_data a))) (length pre + 12))"
proof -
  let ?r = "pre @ rr_wire a @ post"
  have name: "skip_name ?r (length pre) = Some (True, length pre + 2)"
    by (subst skip_name.simps) (simp add: rr_wire_def byte_at_def nth_append)
  have "be16_at ((pre @ [0xC0, 0x0C]) @ put_be16 (rr_type a) @ drop 4 (rr_wire a @ post)) (length pre + 2) =
      Some (rr_type a)"
    by (rule be16_at_append) simp
  then have ty: "be16_at ?r (length pre + 2) = Some (rr_type a)"
    by (simp add: rr_wire_def put_be16_def)
  have "be16_at ((pre @ take 10 (rr_wire a)) @ put_be16 (word_of_nat (length (rr_data a))) @ rr_data a @ post)
      (length pre + 10) = Some (word_of_nat (length (rr_data a)))"
    by (rule be16_at_append) (simp add: rr_wire_def)
  then have len: "be16_at ?r (length pre + 10) = Some (word_of_nat (length (rr_data a)))"
    by (simp add: rr_wire_def put_be16_def put_be32_def)
  have brk: "length ?r \<le> length pre + 12 \<longleftrightarrow> rr_data a = [] \<and> post = []"
    by (simp add: rr_wire_def)
  show ?thesis
    using name ty len brk by (auto simp: read_answer_def eval_nat_numeral)
qed

lemma a_record_rr:
  assumes "length (rr_data a) < 65536"
  shows "a_record (pre @ rr_wire a @ post) (length pre + 12) (rr_type a) (word_of_nat (length (rr_data a))) =
    rr_ip a"
proof -
  have "(word_of_nat (length (rr_data a)) :: 16 word) = word_of_nat 4 \<longleftrightarrow> length (rr_data a) = 4"
    using assms by (simp only: word_of_nat_eq_iff take_bit_eq_mod) simp
  then have four: "(word_of_nat (length (rr_data a)) :: 16 word) = 4 \<longleftrightarrow> length (rr_data a) = 4"
    by simp
  have at: "(pre @ rr_wire a @ post) ! (length pre + 12 + i) = rr_data a ! i" if "i < length (rr_data a)" for i
    using that by (simp add: rr_wire_def nth_append)
  show ?thesis
  proof (cases "length (rr_data a) = 4")
    case True
    then obtain w x y z where d: "rr_data a = [w, x, y, z]"
      by (auto simp: length_Suc_conv eval_nat_numeral)
    define r where "r = pre @ rr_wire a @ post"
    have nth: "r ! (length pre + 12) = w" "r ! (length pre + 12 + 1) = x" "r ! (length pre + 12 + 2) = y"
        "r ! (length pre + 12 + 3) = z"
      using at [of 0] at [of 1] at [of 2] at [of 3] unfolding r_def by (simp_all add: d)
    have "length pre + 12 + 4 \<le> length r" by (simp add: r_def rr_wire_def d)
    then show ?thesis
      unfolding r_def [symmetric] a_record_def nth by (simp add: d)
  next
    case False
    then show ?thesis
      using four by (auto simp: a_record_def split: list.splits)
  qed
qed

lemma all_answers_rrs:
  assumes "\<forall>a \<in> set rrs. length (rr_data a) < 65536"
  shows "all_answers (length rrs) (pre @ concat (map rr_wire rrs) @ extra) (length pre) ips =
    Some (merge_new (List.map_filter rr_ip rrs) ips)"
  using assms
proof (induction rrs arbitrary: pre ips)
  case (Cons a rrs)
  let ?post = "concat (map rr_wire rrs) @ extra"
  have small: "length (rr_data a) < 65536" using Cons.prems by simp
  have unat: "unat (word_of_nat (length (rr_data a)) :: 16 word) = length (rr_data a)"
    using small unfolding unat_of_nat by simp
  have len: "length (pre @ rr_wire a) = length pre + 12 + length (rr_data a)"
    by (simp add: rr_wire_def)
  have IH: "all_answers (length rrs) ((pre @ rr_wire a) @ ?post) (length (pre @ rr_wire a)) ips' =
      Some (merge_new (List.map_filter rr_ip rrs) ips')" for ips'
    using Cons.prems by (intro Cons.IH) simp
  have inside: "length pre < length (pre @ rr_wire a @ ?post)" by (simp add: rr_wire_def)
  show ?case
  proof (cases "rr_data a = [] \<and> ?post = []")
    case True
    then have "rrs = []" by (cases rrs) (auto simp: rr_wire_def)
    then show ?thesis
      using True inside read_answer_rr [OF small, of pre ?post] by (simp add: map_filter_simps)
  next
    case False
    define r where "r = pre @ rr_wire a @ ?post"
    have ra: "read_answer r (length pre) = Some (Answer (rr_type a) (word_of_nat (length (rr_data a)))
        (length pre + 12))"
      using False read_answer_rr [OF small, of pre ?post] unfolding r_def by simp
    have rec: "a_record r (length pre + 12) (rr_type a) (word_of_nat (length (rr_data a))) = rr_ip a"
      using a_record_rr [OF small, of pre ?post] unfolding r_def .
    have "all_answers (length rrs) r (length pre + 12 + length (rr_data a)) ips' =
        Some (merge_new (List.map_filter rr_ip rrs) ips')" for ips'
      using IH unfolding r_def len by simp
    moreover have "length pre < length r" using inside by (simp add: r_def)
    moreover have "pre @ concat (map rr_wire (a # rrs)) @ extra = r" by (simp add: r_def)
    ultimately show ?thesis
      using ra rec by (simp del: rr_ip.simps add: unat map_filter_simps split: option.splits)
  qed
qed (simp add: map_filter_simps)

lemma last_str_join:
  "ps \<noteq> [] \<Longrightarrow> \<forall>p \<in> set ps. p \<noteq> [] \<Longrightarrow> last (str_join sep ps) = last (last ps) \<and> str_join sep ps \<noteq> []"
  by (induction sep ps rule: str_join.induct) auto

lemma buildDNSQuery_parts:
  assumes "valid_labels ps"
  shows "buildDNSQuery nanos (str_join ''.'' ps) =
    put_be16 (word_of_int (nanos AND 0xFFFF)) @ put_be16 0x0100 @ put_be16 1 @ replicate 6 0 @
    write_labels ps @ [0, 0, 1, 0, 1]"
    and "buildDNSQuery nanos (str_join ''.'' ps @ ''.'') = buildDNSQuery nanos (str_join ''.'' ps)"
proof -
  have nodot: "ps \<noteq> []" "\<forall>p \<in> set ps. CHR ''.'' \<notin> set p"
    using assms by (auto simp: valid_labels_def)
  have "last (str_join ''.'' ps) = last (last ps) \<and> str_join ''.'' ps \<noteq> []"
    using assms by (intro last_str_join) (auto simp: valid_labels_def)
  moreover have "last (last ps) \<in> set (last ps)" "last ps \<in> set ps"
    using assms by (auto simp: valid_labels_def)
  ultimately have "\<not> suffix ''.'' (str_join ''.'' ps)"
    using nodot by (auto simp: suffix_def)
  then have parts: "str_split CHR ''.'' (trim_suffix ''.'' (str_join ''.'' ps)) = ps"
    using str_split_join [OF nodot] by (simp add: trim_suffix_def)
  have parts': "trim_suffix ''.'' (str_join ''.'' ps @ ''.'') = str_join ''.'' ps"
    by (simp add: trim_suffix_def)
  show "buildDNSQuery nanos (str_join ''.'' ps) =
    put_be16 (word_of_int (nanos AND 0xFFFF)) @ put_be16 0x0100 @ put_be16 1 @ replicate 6 0 @
    write_labels ps @ [0, 0, 1, 0, 1]"
    using parts by (simp add: buildDNSQuery_def Let_def overwrite_def put_be16_def eval_nat_numeral)
  show "buildDNSQuery nanos (str_join ''.'' ps @ ''.'') = buildDNSQuery nanos (str_join ''.'' ps)"
    using parts parts' \<open>\<not> suffix _ _\<close> by (simp add: buildDNSQuery_def trim_suffix_def)
qed

section \<open>The transaction id is not looked at\<close>

lemma same_tail:
  assumes "length r = length r'" and "\<And>i. 2 \<le> i \<Longrightarrow> r ! i = r' ! i" and "2 \<le> i"
  shows "byte_at r i = byte_at r' i" "be16_at r i = be16_at r' i"
proof -
  show "byte_at r i = byte_at r' i" using assms by (simp add: byte_at_def)
  have "drop i r = drop i r'" using assms by (intro nth_equalityI) auto
  then show "be16_at r i = be16_at r' i" using assms by (simp add: be16_at_def)
qed

definition same_but_id :: "bytes \<Rightarrow> bytes \<Rightarrow> bool" where
  "same_but_id r r' \<longleftrightarrow> length r = length r' \<and> (\<forall>i \<ge> 2. r ! i = r' ! i)"

lemma same_but_id_at:
  assumes "same_but_id r r'"
  shows "length r = length r'" "2 \<le> i \<Longrightarrow> r ! i = r' ! i"
    "2 \<le> i \<Longrightarrow> byte_at r i = byte_at r' i" "2 \<le> i \<Longrightarrow> be16_at r i = be16_at r' i"
  using assms same_tail [of r r' i] by (auto simp: same_but_id_def)

lemma skip_question_id: "same_but_id r r' \<Longrightarrow> 2 \<le> off \<Longrightarrow> skip_question r off = skip_question r' off"
proof (induction r off rule: skip_question.induct)
  case (1 r off)
  note at = same_but_id_at [OF 1(2)]
  show ?case
    using 1 at by (subst (1 2) skip_question.simps) (auto simp: Let_def)
qed

lemma skip_name_id: "same_but_id r r' \<Longrightarrow> 2 \<le> off \<Longrightarrow> skip_name r off = skip_name r' off"
proof (induction r off rule: skip_name.induct)
  case (1 r off)
  note at = same_but_id_at [OF 1(2)]
  show ?case
    using 1 at by (subst (1 2) skip_name.simps) (auto simp: Let_def)
qed

lemma skip_name_ge: "skip_name r off = Some (b, off') \<Longrightarrow> off \<le> off'"
proof (induction r off rule: skip_name.induct)
  case (1 r off)
  show ?case
    using 1(2) 1(1) [OF _ byte_at_Some _ refl]
    by (subst (asm) skip_name.simps) (auto simp: Let_def split: if_splits)
qed

lemma read_answer_id: "same_but_id r r' \<Longrightarrow> 2 \<le> off \<Longrightarrow> read_answer r off = read_answer r' off"
proof -
  assume same: "same_but_id r r'" and off: "2 \<le> off"
  obtain b off1 where n: "skip_name r off = Some (b, off1)" using skip_name_total by blast
  moreover have "skip_name r' off = Some (b, off1)" using n skip_name_id [OF same off] by simp
  moreover have "2 \<le> off1" using skip_name_ge [OF n] off by simp
  ultimately show ?thesis
    using same_but_id_at [OF same] by (auto simp: read_answer_def split: option.split)
qed

lemma read_answer_ge: "read_answer r off = Some (Answer t n off') \<Longrightarrow> off \<le> off'"
  by (auto simp: read_answer_def dest!: skip_name_ge split: option.splits if_splits)

lemma all_answers_id:
  "same_but_id r r' \<Longrightarrow> 2 \<le> off \<Longrightarrow> all_answers k r off ips = all_answers k r' off ips"
proof (induction k arbitrary: off ips)
  case (Suc k)
  obtain st where st: "read_answer r off = Some st" using read_answer_total by blast
  have st': "read_answer r' off = Some st" using st read_answer_id [OF Suc.prems] by simp
  note at = same_but_id_at [OF Suc.prems(1)]
  show ?case
  proof (cases st)
    case (Answer t n off')
    then have ge: "2 \<le> off'" using read_answer_ge [of r off t n off'] st Suc.prems(2) by simp
    then have "a_record r off' t n = a_record r' off' t n"
      using at by (simp add: a_record_def)
    then show ?thesis
      using st st' Answer at(1) Suc.IH [OF Suc.prems(1), of "off' + unat n"] ge by simp
  qed (simp add: st st' at(1))
qed simp

section \<open>Properties\<close>

text \<open>
  C20.  The response parsers are safe on every datagram: none of the index and slice expressions
  can be out of range, the loops end, the list of addresses that parseDNSResponseAll returns is
  not empty and has no duplicates, and parseDNSResponse returns exactly its first element, or the
  same error.
\<close>

theorem dns_parsers_safe_and_consistent:
  "\<exists>res. parseDNSResponseAll r = Some res \<and> parseDNSResponse r = Some (map_sum id hd res) \<and>
     (case res of Inl e \<Rightarrow> True | Inr ips \<Rightarrow> ips \<noteq> [] \<and> distinct ips)"
proof -
  have "\<exists>ips. all_answers k r off [] = Some ips \<and> distinct ips" for k off
    using all_answers_total [of k r off "[]"] all_answers_prefix [of k r off "[]"] by fastforce
  then obtain ips where "\<And>k off. all_answers k r off [] = Some (ips k off)" "\<And>k off. distinct (ips k off)"
    by metis
  then show ?thesis
    using skip_question_total [of r 12]
    by (auto simp: parseDNSResponseAll_def parseDNSResponse_def with_answers_def be16_at_def Let_def
        first_is_head_of_all)
qed

text \<open>
  C21.  Query and reply: for a domain of valid labels, a reply that echoes the question of
  buildDNSQuery and lists resource records of any types parses to exactly the addresses of its A
  records, in order and without duplicates, whatever follows the answer section; when there is
  none, to the error for that.
\<close>

theorem dns_reply_roundtrip:
  assumes "valid_labels ps" and "flags AND 0x800F = 0x8000"
    and "rrs \<noteq> []" and "length rrs < 65536" and "\<forall>a \<in> set rrs. length (rr_data a) < 65536"
  shows "parseDNSResponseAll (reply_to flags (buildDNSQuery nanos (str_join ''.'' ps)) rrs extra) =
    Some (if rr_ips rrs = [] then Inl NoARecord else Inr (rr_ips rrs))"
proof -
  define r where "r = reply_to flags (buildDNSQuery nanos (str_join ''.'' ps)) rrs extra"
  let ?h = "put_be16 (word_of_int (nanos AND 0xFFFF)) @ put_be16 flags @ put_be16 1 @
    put_be16 (word_of_nat (length rrs)) @ replicate 4 0"
  have r: "r = ?h @ write_labels ps @ [0, 0, 1, 0, 1] @ concat (map rr_wire rrs) @ extra"
    unfolding r_def reply_to_def buildDNSQuery_parts(1) [OF assms(1)]
    by (simp add: put_be16_def eval_nat_numeral)
  have bits: "flags AND 0x8000 \<noteq> 0" "flags AND 0x000F = 0"
  proof -
    have "(flags AND 0x800F) AND 0x8000 = flags AND 0x8000" "(flags AND 0x800F) AND 0x000F = flags AND 0x000F"
      by (simp_all add: and.assoc)
    then show "flags AND 0x8000 \<noteq> 0" "flags AND 0x000F = 0" using assms(2) by simp_all
  qed
  have f: "be16_at r 2 = Some flags" and a: "be16_at r 6 = Some (word_of_nat (length rrs))"
    by (simp_all add: r be16_at_def put_be16_def eval_nat_numeral flip: put_be16_def)
  define pre where "pre = ?h @ write_labels ps @ [0, 0, 1, 0, 1]"
  have pre: "r = pre @ concat (map rr_wire rrs) @ extra" and lp: "length pre = 12 + length (write_labels ps) + 5"
    by (simp_all add: r pre_def)
  have q: "skip_question r 12 = Some (12 + length (write_labels ps))"
    using skip_question_labels [of ps ?h "[0, 1, 0, 1] @ concat (map rr_wire rrs) @ extra"] assms(1)
    by (simp add: r valid_labels_def)
  have n: "unat (word_of_nat (length rrs) :: 16 word) = length rrs"
    using assms(4) unfolding unat_of_nat by simp
  then have nz: "(word_of_nat (length rrs) :: 16 word) \<noteq> 0"
    using assms(3) by (metis length_0_conv unat_0)
  have "all_answers (length rrs) r (12 + length (write_labels ps) + 5) [] = Some (rr_ips rrs)"
    using all_answers_rrs [OF assms(5), of pre extra "[]"] unfolding lp pre [symmetric] rr_ips_def by simp
  then show ?thesis
    unfolding r_def [symmetric] parseDNSResponseAll_def with_answers_def
    using f a bits q n nz by (simp add: r Let_def)
qed

theorem dns_reply_roundtrip_witness:
  "parseDNSResponseAll (reply_to 0x8180 (buildDNSQuery 7 ''api.vk.ru'')
     [\<lparr>rr_type = 5, rr_ttl = 60, rr_data = [0]\<rparr>, \<lparr>rr_type = 1, rr_ttl = 60, rr_data = [87, 240, 129, 140]\<rparr>] []) =
   Some (Inr [''87.240.129.140''])"
proof -
  have "ipv4_text 87 240 129 140 = ''87.240.129.140''" by code_simp
  then show ?thesis
    using dns_reply_roundtrip [where ps = "[''api'', ''vk'', ''ru'']" and flags = "0x8180" and nanos = 7 and extra = "[]"
      and rrs = "[\<lparr>rr_type = 5, rr_ttl = 60, rr_data = [0]\<rparr>, \<lparr>rr_type = 1, rr_ttl = 60, rr_data = [87, 240, 129, 140]\<rparr>]"]
    by (simp add: valid_labels_def rr_ips_def map_filter_simps add_new_def)
qed

text \<open>
  The transaction id plays no part: replacing the two id bytes of any datagram does not
  change what the parsers return, so a reply to another query is taken as an answer to this one.
\<close>

theorem dns_transaction_id_ignored:
  "parseDNSResponseAll (a # b # rest) = parseDNSResponseAll (c # d # rest) \<and>
   parseDNSResponse (a # b # rest) = parseDNSResponse (c # d # rest)"
proof -
  define r r' where "r = a # b # rest" and "r' = c # d # rest"
  have same: "same_but_id r r'"
    by (auto simp: r_def r'_def same_but_id_def nth_Cons split: nat.split)
  note at = same_but_id_at [OF same]
  have ans: "all_answers k r (off + 5) ips = all_answers k r' (off + 5) ips" for k off ips
    by (rule all_answers_id [OF same]) simp
  have "parseDNSResponseAll r = parseDNSResponseAll r'" "parseDNSResponse r = parseDNSResponse r'"
    unfolding parseDNSResponseAll_def parseDNSResponse_def first_is_head_of_all with_answers_def
      at(1) at(4) [of 2, simplified] at(4) [of 6, simplified] skip_question_id [OF same, of 12, simplified] ans
    by (rule refl)+
  then show ?thesis by (simp add: r_def r'_def)
qed

end
