(* ===== verification/Resolver.thy ===== *)
theory Resolver
  imports Dns_Wire
begin

text \<open>
  The cascading resolver of internal/core/resolver.go: the ordered server list with its last
  successful index, the three transports, and the host cache.  The network and the clock are the
  functions of a record over a world \<open>'w\<close>; a definition returns its result, the world and the
  resolver's state.  \<open>Panic\<close> stands for a run-time panic of the response parser.
\<close>

section \<open>Servers, network and state\<close>

datatype DNSServerType = DNSPlain | DNSDoH | DNSDoT

record DNSServer =
  srv_Type :: DNSServerType
  srv_IP :: string
  srv_Domain :: string

definition dnsTimeout :: int where [tg_consts]: "dnsTimeout = 2 * 10 ^ 9"
definition dohTimeout :: int where [tg_consts]: "dohTimeout = 2 * 10 ^ 9"
definition dotTimeout :: int where [tg_consts]: "dotTimeout = 2 * 10 ^ 9"
definition yandexIP :: string where "yandexIP = ''77.88.8.8''"
definition yandexDomain :: string where "yandexDomain = ''common.dot.dns.yandex.net''"
definition googleIP :: string where "googleIP = ''8.8.8.8''"
definition googleDomain :: string where "googleDomain = ''dns.google''"

definition dnsServersPredefined :: "DNSServer list" where
  "dnsServersPredefined =
    [\<lparr>srv_Type = DNSPlain, srv_IP = yandexIP, srv_Domain = []\<rparr>,
     \<lparr>srv_Type = DNSDoH, srv_IP = yandexIP, srv_Domain = yandexDomain\<rparr>,
     \<lparr>srv_Type = DNSPlain, srv_IP = googleIP, srv_Domain = []\<rparr>,
     \<lparr>srv_Type = DNSDoT, srv_IP = yandexIP, srv_Domain = yandexDomain\<rparr>,
     \<lparr>srv_Type = DNSDoH, srv_IP = googleIP, srv_Domain = googleDomain\<rparr>]"

datatype resolve_error = CtxErr string | Dial string | Handshake string | Write string | Read string
  | Http string | Status nat | Dns dns_error | AllFailed string | Panic

text \<open>Connections are numbers; \<open>net_http\<close> gives the status and the result of reading the body.\<close>

record 'w dns_net =
  net_now :: "'w \<Rightarrow> int"
  net_ctx :: "'w \<Rightarrow> string option"
  net_dial :: "string \<Rightarrow> string \<Rightarrow> int \<Rightarrow> 'w \<Rightarrow> (string, nat) result \<times> 'w"
  net_handshake :: "nat \<Rightarrow> string \<Rightarrow> 'w \<Rightarrow> string option \<times> 'w"
  net_write :: "nat \<Rightarrow> bytes \<Rightarrow> 'w \<Rightarrow> string option \<times> 'w"
  net_read :: "nat \<Rightarrow> nat \<Rightarrow> 'w \<Rightarrow> (string, bytes) result \<times> 'w"
  net_read_full :: "nat \<Rightarrow> nat \<Rightarrow> 'w \<Rightarrow> (string, bytes) result \<times> 'w"
  net_close :: "nat \<Rightarrow> 'w \<Rightarrow> 'w"
  net_http :: "string \<Rightarrow> string \<Rightarrow> bytes \<Rightarrow> int \<Rightarrow> 'w \<Rightarrow>
    (string, nat \<times> (string, bytes) result) result \<times> 'w"

record dns_state =
  cache_ips :: "string \<rightharpoonup> string"
  cache_allIps :: "string \<rightharpoonup> string list"
  dnsServers :: "DNSServer list"
  lastSuccessfulIndex :: nat
  persist_dirty :: bool

definition init_dns :: dns_state where
  "init_dns = \<lparr>cache_ips = Map.empty, cache_allIps = Map.empty, dnsServers = dnsServersPredefined,
     lastSuccessfulIndex = 0, persist_dirty = False\<rparr>"

definition InitSystemDns :: "string list \<Rightarrow> dns_state \<Rightarrow> dns_state" where
  "InitSystemDns servers s = s\<lparr>dnsServers :=
     map (\<lambda>ip. \<lparr>srv_Type = DNSPlain, srv_IP = ip, srv_Domain = []\<rparr>) servers @ dnsServersPredefined\<rparr>"

definition ClearCache :: "dns_state \<Rightarrow> dns_state" where
  "ClearCache s = s\<lparr>cache_ips := Map.empty, cache_allIps := Map.empty, lastSuccessfulIndex := 0\<rparr>"

section \<open>The three transports\<close>

text \<open>The exchange of one query, the same for the single-address and the all-addresses functions.\<close>

definition udp_exchange ::
  "'w dns_net \<Rightarrow> nat \<Rightarrow> string \<Rightarrow> bytes \<Rightarrow> 'w \<Rightarrow> (resolve_error, bytes) result \<times> 'w" where
  "udp_exchange net bufsize serverIP query w =
     (case net_dial net ''udp'' (serverIP @ '':53'') dnsTimeout w of
        (Inl e, w) \<Rightarrow> (Inl (Dial e), w)
      | (Inr conn, w) \<Rightarrow>
        (case net_write net conn query w of
           (Some e, w) \<Rightarrow> (Inl (Write e), net_close net conn w)
         | (None, w) \<Rightarrow>
           (case net_read net conn bufsize w of
              (Inl e, w) \<Rightarrow> (Inl (Read e), net_close net conn w)
            | (Inr response, w) \<Rightarrow> (Inr response, net_close net conn w))))"

definition doh_exchange ::
  "'w dns_net \<Rightarrow> string \<Rightarrow> string \<Rightarrow> bytes \<Rightarrow> 'w \<Rightarrow> (resolve_error, bytes) result \<times> 'w" where
  "doh_exchange net serverIP serverName query w =
     (case net_http net (''https://'' @ serverIP @ '':443'' @ ''/dns-query'') serverName query dohTimeout w of
        (Inl e, w) \<Rightarrow> (Inl (Http e), w)
      | (Inr (status, body), w) \<Rightarrow>
          if status \<noteq> 200 then (Inl (Status status), w)
          else (case body of Inl e \<Rightarrow> (Inl (Read e), w) | Inr b \<Rightarrow> (Inr b, w)))"

definition dot_exchange ::
  "'w dns_net \<Rightarrow> string \<Rightarrow> string \<Rightarrow> bytes \<Rightarrow> 'w \<Rightarrow> (resolve_error, bytes) result \<times> 'w" where
  "dot_exchange net serverIP serverName query w =
     (case net_dial net ''tcp'' (serverIP @ '':853'') dotTimeout w of
        (Inl e, w) \<Rightarrow> (Inl (Dial e), w)
      | (Inr conn, w) \<Rightarrow>
        (case net_handshake net conn serverName w of
           (Some e, w) \<Rightarrow> (Inl (Handshake e), net_close net conn w)
         | (None, w) \<Rightarrow>
           (case net_write net conn (put_be16 (word_of_nat (length query)) @ query) w of
              (Some e, w) \<Rightarrow> (Inl (Write e), net_close net conn w)
            | (None, w) \<Rightarrow>
              (case net_read_full net conn 2 w of
                 (Inl e, w) \<Rightarrow> (Inl (Read e), net_close net conn w)
               | (Inr lengthBuf, w) \<Rightarrow>
                 (case net_read_full net conn (unat (get_be lengthBuf :: 16 word)) w of
                    (Inl e, w) \<Rightarrow> (Inl (Read e), net_close net conn w)
                  | (Inr response, w) \<Rightarrow> (Inr response, net_close net conn w))))))"

definition parsed ::
  "(bytes \<Rightarrow> (dns_error, 'a) result option) \<Rightarrow> (resolve_error, bytes) result \<times> 'w \<Rightarrow>
   (resolve_error, 'a) result \<times> 'w" where
  "parsed parse res = (case res of (r, w) \<Rightarrow>
     (rbind r (\<lambda>b. case parse b of None \<Rightarrow> Inl Panic | Some (Inl e) \<Rightarrow> Inl (Dns e) | Some (Inr x) \<Rightarrow> Inr x), w))"

definition resolveUDPWithServer ::
  "'w dns_net \<Rightarrow> string \<Rightarrow> string \<Rightarrow> 'w \<Rightarrow> (resolve_error, string) result \<times> 'w" where
  "resolveUDPWithServer net domain serverIP w =
     parsed parseDNSResponse (udp_exchange net 512 serverIP (buildDNSQuery (net_now net w) domain) w)"

definition resolveDoHWithServer ::
  "'w dns_net \<Rightarrow> string \<Rightarrow> string \<Rightarrow> string \<Rightarrow> 'w \<Rightarrow> (resolve_error, string) result \<times> 'w" where
  "resolveDoHWithServer net domain serverIP serverName w =
     parsed parseDNSResponse (doh_exchange net serverIP serverName (buildDNSQuery (net_now net w) domain) w)"

definition resolveDoTWithServer ::
  "'w dns_net \<Rightarrow> string \<Rightarrow> string \<Rightarrow> string \<Rightarrow> 'w \<Rightarrow> (resolve_error, string) result \<times> 'w" where
  "resolveDoTWithServer net domain serverIP serverName w =
     parsed parseDNSResponse (dot_exchange net serverIP serverName (buildDNSQuery (net_now net w) domain) w)"

definition resolveAny ::
  "'w dns_net \<Rightarrow> string \<Rightarrow> DNSServer \<Rightarrow> 'w \<Rightarrow> (resolve_error, string) result \<times> 'w" where
  "resolveAny net domain server w =
     (case srv_Type server of
        DNSPlain \<Rightarrow> resolveUDPWithServer net domain (srv_IP server) w
      | DNSDoH \<Rightarrow> resolveDoHWithServer net domain (srv_IP server) (srv_Domain server) w
      | DNSDoT \<Rightarrow> resolveDoTWithServer net domain (srv_IP server) (srv_Domain server) w)"

definition resolveUDPWithServerAll ::
  "'w dns_net \<Rightarrow> string \<Rightarrow> string \<Rightarrow> 'w \<Rightarrow> (resolve_error, string list) result \<times> 'w" where
  "resolveUDPWithServerAll net domain serverIP w =
     parsed parseDNSResponseAll (udp_exchange net 1024 serverIP (buildDNSQuery (net_now net w) domain) w)"

definition resolveDoHWithServerAll ::
  "'w dns_net \<Rightarrow> string \<Rightarrow> string \<Rightarrow> string \<Rightarrow> 'w \<Rightarrow> (resolve_error, string list) result \<times> 'w" where
  "resolveDoHWithServerAll net domain serverIP serverName w =
     parsed parseDNSResponseAll (doh_exchange net serverIP serverName (buildDNSQuery (net_now net w) domain) w)"

definition resolveDoTWithServerAll ::
  "'w dns_net \<Rightarrow> string \<Rightarrow> string \<Rightarrow> string \<Rightarrow> 'w \<Rightarrow> (resolve_error, string list) result \<times> 'w" where
  "resolveDoTWithServerAll net domain serverIP serverName w =
     parsed parseDNSResponseAll (dot_exchange net serverIP serverName (buildDNSQuery (net_now net w) domain) w)"

definition resolveAnyAll ::
  "'w dns_net \<Rightarrow> string \<Rightarrow> DNSServer \<Rightarrow> 'w \<Rightarrow> (resolve_error, string list) result \<times> 'w" where
  "resolveAnyAll net domain server w =
     (case srv_Type server of
        DNSPlain \<Rightarrow> resolveUDPWithServerAll net domain (srv_IP server) w
      | DNSDoH \<Rightarrow> resolveDoHWithServerAll net domain (srv_IP server) (srv_Domain server) w
      | DNSDoT \<Rightarrow> resolveDoTWithServerAll net domain (srv_IP server) (srv_Domain server) w)"

section \<open>The ordered servers\<close>

fun ordered_loop ::
  "'w dns_net \<Rightarrow> string \<Rightarrow> nat \<Rightarrow> nat list \<Rightarrow> 'w \<times> dns_state \<Rightarrow>
   (resolve_error, string) result \<times> 'w \<times> dns_state" where
  "ordered_loop net domain startIndex [] (w, s) = (Inl (AllFailed domain), w, s)"
| "ordered_loop net domain startIndex (i # is) (w, s) =
     (case net_ctx net w of
        Some e \<Rightarrow> (Inl (CtxErr e), w, s)
      | None \<Rightarrow>
        (let idx = (i + startIndex) mod length (dnsServers s);
             server = dnsServers s ! idx
         in case resolveAny net domain server w of
              (Inr ip, w) \<Rightarrow> (Inr ip, w, s\<lparr>lastSuccessfulIndex := idx\<rparr>)
            | (Inl e, w) \<Rightarrow> ordered_loop net domain startIndex is (w, s)))"

definition resolveWithOrderedServers ::
  "'w dns_net \<Rightarrow> string \<Rightarrow> 'w \<times> dns_state \<Rightarrow> (resolve_error, string) result \<times> 'w \<times> dns_state" where
  "resolveWithOrderedServers net domain ws =
     (case ws of (w, s) \<Rightarrow>
        ordered_loop net domain (lastSuccessfulIndex s) [0 ..< length (dnsServers s)] (w, s))"

text \<open>
  The loop of resolveWithOrderedServersAll.  The \<open>break\<close> in its select leaves the select and not the
  loop, so the context is read and has no effect; the \<open>break\<close> after three addresses leaves the loop.
\<close>

fun ordered_loop_all ::
  "'w dns_net \<Rightarrow> string \<Rightarrow> nat \<Rightarrow> nat list \<Rightarrow> string list \<Rightarrow> bool \<Rightarrow> 'w \<times> dns_state \<Rightarrow>
   string list \<times> 'w \<times> dns_state" where
  "ordered_loop_all net domain startIndex [] allIPs first (w, s) = (allIPs, w, s)"
| "ordered_loop_all net domain startIndex (i # is) allIPs first (w, s) =
     (let idx = (i + startIndex) mod length (dnsServers s);
          server = dnsServers s ! idx
      in case resolveAnyAll net domain server w of
           (Inr ips, w) \<Rightarrow>
             if length ips > 0
             then let s = (if first then s\<lparr>lastSuccessfulIndex := idx\<rparr> else s);
                      allIPs = merge_new ips allIPs
                  in if length allIPs \<ge> 3 then (allIPs, w, s)
                     else ordered_loop_all net domain startIndex is allIPs False (w, s)
             else ordered_loop_all net domain startIndex is allIPs first (w, s)
         | (Inl e, w) \<Rightarrow> ordered_loop_all net domain startIndex is allIPs first (w, s))"

definition resolveWithOrderedServersAll ::
  "'w dns_net \<Rightarrow> string \<Rightarrow> 'w \<times> dns_state \<Rightarrow> (resolve_error, string list) result \<times> 'w \<times> dns_state" where
  "resolveWithOrderedServersAll net domain ws =
     (case ws of (w, s) \<Rightarrow>
      let maxServers = 3;
          maxServers = (if length (dnsServers s) < maxServers then length (dnsServers s) else maxServers)
      in case ordered_loop_all net domain (lastSuccessfulIndex s) [0 ..< maxServers] [] True (w, s) of
           (allIPs, w, s) \<Rightarrow>
             if length allIPs = 0 then (Inl (AllFailed domain), w, s) else (Inr allIPs, w, s))"

section \<open>The host cache\<close>

definition MarkDirty :: "dns_state \<Rightarrow> dns_state" where
  "MarkDirty s = s\<lparr>persist_dirty := True\<rparr>"

definition cache_Resolve ::
  "'w dns_net \<Rightarrow> string \<Rightarrow> 'w \<times> dns_state \<Rightarrow> (resolve_error, string) result \<times> 'w \<times> dns_state" where
  "cache_Resolve net domain ws =
     (case ws of (w, s) \<Rightarrow>
      case cache_ips s domain of
        Some cached \<Rightarrow> (Inr cached, w, s)
      | None \<Rightarrow>
        (case resolveWithOrderedServers net domain (w, s) of
           (Inl e, w, s) \<Rightarrow> (Inl e, w, s)
         | (Inr ip, w, s) \<Rightarrow>
             (Inr ip, w, MarkDirty (s\<lparr>cache_ips := (cache_ips s)(domain \<mapsto> ip)\<rparr>))))"

definition cached_all :: "dns_state \<Rightarrow> string \<Rightarrow> string list option" where
  "cached_all s domain = (case cache_allIps s domain of
     Some cached \<Rightarrow> if length cached > 0 then Some cached else None | None \<Rightarrow> None)"

definition save_all :: "string \<Rightarrow> string list \<Rightarrow> dns_state \<Rightarrow> dns_state" where
  "save_all domain ips s =
     (let s = s\<lparr>cache_allIps := (cache_allIps s)(domain \<mapsto> ips)\<rparr>;
          s = (if length ips > 0 then s\<lparr>cache_ips := (cache_ips s)(domain \<mapsto> hd ips)\<rparr> else s)
      in MarkDirty s)"

definition cache_ResolveAll ::
  "'w dns_net \<Rightarrow> string \<Rightarrow> 'w \<times> dns_state \<Rightarrow> (resolve_error, string list) result \<times> 'w \<times> dns_state" where
  "cache_ResolveAll net domain ws =
     (case ws of (w, s) \<Rightarrow>
      case cached_all s domain of
        Some cached \<Rightarrow> (Inr cached, w, s)
      | None \<Rightarrow>
        (case resolveWithOrderedServersAll net domain (w, s) of (r, w, s) \<Rightarrow>
         (case (case r of
                  Inr ips \<Rightarrow> if length ips = 0 then None else Some ips
                | Inl e \<Rightarrow> None) of
            Some ips \<Rightarrow> (Inr ips, w, save_all domain ips s)
          | None \<Rightarrow>
            (case cache_Resolve net domain (w, s) of
               (Inl e2, w, s) \<Rightarrow> (Inl e2, w, s)
             | (Inr ip, w, s) \<Rightarrow> (Inr [ip], w, save_all domain [ip] s)))))"

section \<open>A look-aside cache\<close>

text \<open>
  What Resolve and ResolveAll rely on of their maps: a saved value is found again, and saving one
  key leaves the others alone.  \<open>through_cache\<close> is the shape of both.
\<close>

definition through_cache ::
  "('s \<Rightarrow> 'k \<Rightarrow> 'v option) \<Rightarrow> ('k \<Rightarrow> 'v \<Rightarrow> 's \<Rightarrow> 's) \<Rightarrow>
   ('w \<times> 's \<Rightarrow> ('e, 'v) result \<times> 'w \<times> 's) \<Rightarrow> 'k \<Rightarrow> 'w \<times> 's \<Rightarrow> ('e, 'v) result \<times> 'w \<times> 's" where
  "through_cache peek save compute k ws =
     (case ws of (w, s) \<Rightarrow>
      (case peek s k of Some v \<Rightarrow> (Inr v, w, s)
       | None \<Rightarrow> (case compute (w, s) of
           (Inl e, w, s) \<Rightarrow> (Inl e, w, s)
         | (Inr v, w, s) \<Rightarrow> (Inr v, w, save k v s))))"

locale lookaside =
  fixes peek :: "'s \<Rightarrow> 'k \<Rightarrow> 'v option"
    and save :: "'k \<Rightarrow> 'v \<Rightarrow> 's \<Rightarrow> 's"
    and good :: "'v \<Rightarrow> bool"
  assumes find_save: "good v \<Longrightarrow> peek (save k v s) k' = (if k' = k then Some v else peek s k')"
begin

lemma run_hit: "peek s k = Some v \<Longrightarrow> through_cache peek save compute k (w, s) = (Inr v, w, s)"
  by (simp add: through_cache_def)

lemma run_cases:
  assumes "through_cache peek save compute k (w, s) = (Inr v, w1, s1)"
  obtains "peek s k = Some v" "w1 = w" "s1 = s"
  | s' where "peek s k = None" "compute (w, s) = (Inr v, w1, s')" "s1 = save k v s'"
  using assms by (auto simp: through_cache_def split: option.splits prod.splits sum.splits)

lemma run_found:
  assumes "through_cache peek save compute k (w, s) = (Inr v, w1, s1)"
    and "\<And>w' s'. compute (w, s) = (Inr v, w', s') \<Longrightarrow> good v"
  shows "peek s1 k = Some v"
  using assms(1) by (cases rule: run_cases) (use assms(2) in \<open>auto simp: find_save\<close>)

lemma run_again:
  assumes "through_cache peek save compute k (w, s) = (Inr v, w1, s1)"
    and "\<And>w' s'. compute (w, s) = (Inr v, w', s') \<Longrightarrow> good v"
  shows "through_cache peek save compute' k (w2, s1) = (Inr v, w2, s1)"
  by (rule run_hit) (rule run_found [OF assms])

end

definition save_ip :: "string \<Rightarrow> string \<Rightarrow> dns_state \<Rightarrow> dns_state" where
  "save_ip domain ip s = MarkDirty (s\<lparr>cache_ips := (cache_ips s)(domain \<mapsto> ip)\<rparr>)"

interpretation ip_cache: lookaside cache_ips save_ip "\<lambda>_. True"
  by unfold_locales (simp add: save_ip_def MarkDirty_def)

interpretation all_cache: lookaside cached_all save_all "\<lambda>ips. ips \<noteq> []"
  by unfold_locales (simp add: save_all_def cached_all_def MarkDirty_def)

definition network_all ::
  "'w dns_net \<Rightarrow> string \<Rightarrow> 'w \<times> dns_state \<Rightarrow> (resolve_error, string list) result \<times> 'w \<times> dns_state" where
  "network_all net domain ws =
     (case resolveWithOrderedServersAll net domain ws of
        (Inr ips, w, s) \<Rightarrow> (Inr ips, w, s)
      | (Inl e, w, s) \<Rightarrow> (case cache_Resolve net domain (w, s) of
            (Inl e2, w, s) \<Rightarrow> (Inl e2, w, s)
          | (Inr ip, w, s) \<Rightarrow> (Inr [ip], w, s)))"

lemma cache_Resolve_eq:
  "cache_Resolve net domain = through_cache cache_ips save_ip (resolveWithOrderedServers net domain) domain"
  by (rule ext) (unfold cache_Resolve_def through_cache_def save_ip_def, rule refl)

lemma network_nonempty:
  "resolveWithOrderedServersAll net domain ws = (Inr ips, w', s') \<Longrightarrow> ips \<noteq> []"
  by (auto simp: resolveWithOrderedServersAll_def Let_def split: prod.splits if_splits)

lemma cache_ResolveAll_eq:
  "cache_ResolveAll net domain = through_cache cached_all save_all (network_all net domain) domain"
  by (rule ext)
    (auto simp: cache_ResolveAll_def through_cache_def network_all_def dest: network_nonempty
      split: option.splits prod.splits sum.splits)

lemma network_all_nonempty: "network_all net domain ws = (Inr ips, w', s') \<Longrightarrow> ips \<noteq> []"
  by (auto simp: network_all_def dest: network_nonempty split: prod.splits sum.splits)

section \<open>What the loops change\<close>

definition same_caches :: "dns_state \<Rightarrow> dns_state \<Rightarrow> bool" where
  "same_caches s s' \<longleftrightarrow> (\<exists>i. s' = s\<lparr>lastSuccessfulIndex := i\<rparr>)"

lemma same_caches_refl [simp, intro]: "same_caches s s"
  unfolding same_caches_def by (rule exI [of _ "lastSuccessfulIndex s"]) simp

lemma same_caches_upd [simp]: "same_caches (s\<lparr>lastSuccessfulIndex := i\<rparr>) s' = same_caches s s'"
  "same_caches s (s\<lparr>lastSuccessfulIndex := i\<rparr>)"
  by (auto simp: same_caches_def)

lemma same_caches_fields:
  "same_caches s s' \<Longrightarrow> cache_ips s' = cache_ips s \<and> cache_allIps s' = cache_allIps s \<and>
     dnsServers s' = dnsServers s \<and> persist_dirty s' = persist_dirty s"
  by (auto simp: same_caches_def)

lemma ordered_loop_frame:
  "ordered_loop net domain st is (w, s) = (r, w', s') \<Longrightarrow> same_caches s s'"
  by (induction "is" arbitrary: w)
    (auto simp: Let_def split: option.splits prod.splits sum.splits)

lemma ordered_loop_all_frame:
  "ordered_loop_all net domain st is acc frst (w, s) = (ips, w', s') \<Longrightarrow>
     same_caches s s' \<and> (distinct acc \<longrightarrow> distinct ips)"
proof (induction "is" arbitrary: w s acc frst)
  case (Cons i "is")
  then show ?case
    by (fastforce simp: Let_def split: option.splits prod.splits sum.splits if_splits)
qed simp

lemma resolve_frame:
  "resolveWithOrderedServers net domain (w, s) = (r, w', s') \<Longrightarrow> same_caches s s'"
  "resolveWithOrderedServersAll net domain (w, s) = (r2, w', s') \<Longrightarrow> same_caches s s'"
  "resolveWithOrderedServersAll net domain (w, s) = (Inr ips, w', s') \<Longrightarrow> distinct ips"
  by (auto simp: resolveWithOrderedServers_def resolveWithOrderedServersAll_def Let_def
      dest: ordered_loop_frame ordered_loop_all_frame split: prod.splits if_splits)

lemma save_ip_fields [simp]:
  "cache_ips (save_ip d ip s) = (cache_ips s)(d \<mapsto> ip)" "cache_allIps (save_ip d ip s) = cache_allIps s"
  "dnsServers (save_ip d ip s) = dnsServers s" "persist_dirty (save_ip d ip s) = True"
  by (simp_all add: save_ip_def MarkDirty_def)

lemma save_all_fields [simp]:
  "cache_ips (save_all d ips s) = (if ips = [] then cache_ips s else (cache_ips s)(d \<mapsto> hd ips))"
  "cache_allIps (save_all d ips s) = (cache_allIps s)(d \<mapsto> ips)"
  "dnsServers (save_all d ips s) = dnsServers s" "persist_dirty (save_all d ips s) = True"
  by (simp_all add: save_all_def MarkDirty_def Let_def)

text \<open>The two maps of the host cache agree: the first of all addresses is the single address.\<close>

definition dns_inv :: "dns_state \<Rightarrow> bool" where
  "dns_inv s \<longleftrightarrow> (\<forall>d l. cache_allIps s d = Some l \<longrightarrow>
     l \<noteq> [] \<and> distinct l \<and> cache_ips s d = Some (hd l))"

lemma dns_inv_same: "same_caches s s' \<Longrightarrow> dns_inv s' = dns_inv s"
  unfolding dns_inv_def by (simp add: same_caches_fields)

lemma dns_inv_save_ip:
  "dns_inv s \<Longrightarrow> cache_ips s d = None \<Longrightarrow> dns_inv (save_ip d ip s)"
  by (auto simp: dns_inv_def)

lemma dns_inv_save_all:
  "dns_inv s \<Longrightarrow> ips \<noteq> [] \<Longrightarrow> distinct ips \<Longrightarrow> dns_inv (save_all d ips s)"
  by (auto simp: dns_inv_def)

lemma cached_all_inv: "dns_inv s \<Longrightarrow> cached_all s d = cache_allIps s d"
  by (auto simp: cached_all_def dns_inv_def split: option.splits)

lemma cache_Resolve_cases:
  assumes "cache_Resolve net d (w, s) = (r, w', s')"
  obtains ip where "cache_ips s d = Some ip" "r = Inr ip" "s' = s"
  | e where "cache_ips s d = None" "r = Inl e" "same_caches s s'" "e = AllFailed d \<or> e \<in> range CtxErr"
  | ip s1 where "cache_ips s d = None" "r = Inr ip" "same_caches s s1" "s' = save_ip d ip s1"
proof -
  have err: "e = AllFailed d \<or> e \<in> range CtxErr" if "ordered_loop net d st is (w, s) = (Inl e, w', s')"
    for e st "is" w' s' and w :: 'a
    using that by (induction "is" arbitrary: w)
      (auto simp: Let_def split: option.splits prod.splits sum.splits)
  show thesis
    using assms that err resolve_frame(1) [of net d w s]
    by (auto simp: cache_Resolve_eq through_cache_def resolveWithOrderedServers_def
        split: option.splits prod.splits sum.splits)
qed

lemma cache_Resolve_inv:
  assumes "dns_inv s" and "cache_Resolve net d (w, s) = (r, w', s')"
  shows "dns_inv s'"
  using assms(2)
  by (cases rule: cache_Resolve_cases)
    (use assms(1) in \<open>auto simp: dns_inv_same same_caches_fields intro!: dns_inv_save_ip\<close>)

lemma network_all_inv:
  assumes "dns_inv s" and "network_all net d (w, s) = (r, w', s')"
  shows "dns_inv s'" "r = Inr ips \<Longrightarrow> distinct ips \<and> ips \<noteq> []"
proof -
  obtain r1 w1 s1 where f: "resolveWithOrderedServersAll net d (w, s) = (r1, w1, s1)" by (metis prod_cases3)
  have s1: "dns_inv s1" using resolve_frame(2) [OF f] assms(1) by (simp add: dns_inv_same)
  have d: "distinct ips" if "r1 = Inr ips" for ips using resolve_frame(3) [of net d w s ips] f that by simp
  obtain r2 w2 s2 where g: "cache_Resolve net d (w1, s1) = (r2, w2, s2)" by (metis prod_cases3)
  show "dns_inv s'"
    using assms(2) f g s1 cache_Resolve_inv [OF s1 g]
    by (auto simp: network_all_def split: sum.splits)
  show "distinct ips \<and> ips \<noteq> []" if "r = Inr ips"
    using assms(2) f g d network_all_nonempty [of net d "(w, s)"] that
    by (auto simp: network_all_def split: sum.splits)
qed

lemma cache_ResolveAll_inv:
  assumes "dns_inv s" and "cache_ResolveAll net d (w, s) = (r, w', s')"
  shows "dns_inv s'"
proof -
  obtain r1 w1 s1 where f: "network_all net d (w, s) = (r1, w1, s1)" by (metis prod_cases3)
  show ?thesis
    using assms f network_all_inv [OF assms(1) f]
    by (auto simp: cache_ResolveAll_eq through_cache_def intro!: dns_inv_save_all
        split: option.splits sum.splits)
qed

section \<open>First success on a list\<close>

text \<open>The specification of the fallback: try the items in order, stop at the first success.\<close>

fun first_ok :: "('a \<Rightarrow> 'w \<Rightarrow> ('e, 'b) result \<times> 'w) \<Rightarrow> 'a list \<Rightarrow> 'w \<Rightarrow> (nat \<times> 'b) option \<times> 'w" where
  "first_ok f [] w = (None, w)"
| "first_ok f (x # xs) w =
     (case f x w of
        (Inr y, w) \<Rightarrow> (Some (0, y), w)
      | (Inl e, w) \<Rightarrow> (map_prod (map_option (map_prod Suc id)) id (first_ok f xs w)))"

lemma ordered_loop_first_ok:
  assumes "\<And>w. net_ctx net w = None"
  shows "ordered_loop net d st [m ..< n] (w, s) =
    (case first_ok (resolveAny net d) (map (\<lambda>i. dnsServers s ! ((i + st) mod length (dnsServers s))) [m ..< n]) w of
       (None, w') \<Rightarrow> (Inl (AllFailed d), w', s)
     | (Some (k, ip), w') \<Rightarrow>
         (Inr ip, w', s\<lparr>lastSuccessfulIndex := (m + k + st) mod length (dnsServers s)\<rparr>))"
proof (induction "n - m" arbitrary: m w)
  case (Suc j)
  then have up: "[m ..< n] = m # [Suc m ..< n]" by (simp add: upt_conv_Cons)
  obtain r w1 where r: "resolveAny net d (dnsServers s ! ((m + st) mod length (dnsServers s))) w = (r, w1)"
    by fastforce
  show ?case
    using Suc(1) [of "Suc m" w1] Suc(2) r assms
    by (cases r) (auto simp: up Let_def split: prod.splits option.splits)
qed (simp)

lemma servers_rotate:
  "map (\<lambda>i. xs ! ((i + st) mod length xs)) [0 ..< length xs] = rotate st xs"
  by (rule nth_equalityI) (auto simp: nth_rotate add.commute)

section \<open>A network for the examples\<close>

text \<open>Only Google answers, with one address; the world counts the dials.\<close>

definition test_reply :: bytes where
  "test_reply = [0, 7, 0x81, 0x80, 0, 1, 0, 1, 0, 0, 0, 0, 1, 97, 0, 0, 1, 0, 1,
     0xC0, 12, 0, 1, 0, 1, 0, 0, 0, 60, 0, 4, 1, 2, 3, 4]"

definition test_net :: "nat dns_net" where
  "test_net = \<lparr>net_now = (\<lambda>_. 7), net_ctx = (\<lambda>_. None),
     net_dial = (\<lambda>_ addr _ w. (if addr = ''8.8.8.8:53'' then Inr 0 else Inl ''refused'', Suc w)),
     net_handshake = (\<lambda>_ _ w. (None, w)), net_write = (\<lambda>_ _ w. (None, w)),
     net_read = (\<lambda>_ n w. (Inr (take n test_reply), w)), net_read_full = (\<lambda>_ _ w. (Inl ''EOF'', w)),
     net_close = (\<lambda>_ w. w), net_http = (\<lambda>_ _ _ _ w. (Inl ''refused'', Suc w))\<rparr>"

lemma test_servers:
  "resolveAny test_net ''a'' \<lparr>srv_Type = DNSPlain, srv_IP = googleIP, srv_Domain = []\<rparr> w = (Inr ''1.2.3.4'', Suc w)"
  "resolveAnyAll test_net ''a'' \<lparr>srv_Type = DNSPlain, srv_IP = googleIP, srv_Domain = []\<rparr> w = (Inr [''1.2.3.4''], Suc w)"
proof -
  have p: "parseDNSResponse test_reply = Some (Inr ''1.2.3.4'')"
    "parseDNSResponseAll test_reply = Some (Inr [''1.2.3.4''])"
    by code_simp+
  have t: "take 512 test_reply = test_reply" "take 1024 test_reply = test_reply"
    by (simp_all add: test_reply_def)
  show "resolveAny test_net ''a'' \<lparr>srv_Type = DNSPlain, srv_IP = googleIP, srv_Domain = []\<rparr> w = (Inr ''1.2.3.4'', Suc w)"
    "resolveAnyAll test_net ''a'' \<lparr>srv_Type = DNSPlain, srv_IP = googleIP, srv_Domain = []\<rparr> w = (Inr [''1.2.3.4''], Suc w)"
    by (simp_all add: resolveAny_def resolveAnyAll_def resolveUDPWithServer_def resolveUDPWithServerAll_def
        udp_exchange_def test_net_def googleIP_def parsed_def p t)
qed

lemma test_servers_down:
  "resolveAny test_net d \<lparr>srv_Type = DNSPlain, srv_IP = yandexIP, srv_Domain = []\<rparr> w = (Inl (Dial ''refused''), Suc w)"
  "resolveAny test_net d \<lparr>srv_Type = DNSDoH, srv_IP = ip, srv_Domain = n\<rparr> w = (Inl (Http ''refused''), Suc w)"
  "resolveAnyAll test_net d \<lparr>srv_Type = DNSPlain, srv_IP = yandexIP, srv_Domain = []\<rparr> w = (Inl (Dial ''refused''), Suc w)"
  "resolveAnyAll test_net d \<lparr>srv_Type = DNSDoH, srv_IP = ip, srv_Domain = n\<rparr> w = (Inl (Http ''refused''), Suc w)"
  by (simp_all add: resolveAny_def resolveAnyAll_def resolveUDPWithServer_def resolveUDPWithServerAll_def
      resolveDoHWithServer_def resolveDoHWithServerAll_def udp_exchange_def doh_exchange_def test_net_def
      yandexIP_def parsed_def)

section \<open>Properties\<close>

text \<open>
  C22.  Failover: while the context is live, resolveWithOrderedServers is the first success over
  the server list rotated to start at the last successful server, every server is asked at most
  once, and afterwards the index stands for the server that answered, so that the next lookup
  starts with it; when all fail, the index is as before.
\<close>

theorem resolver_failover:
  assumes "\<And>w. net_ctx net w = None"
  shows "resolveWithOrderedServers net d (w, s) =
    (case first_ok (resolveAny net d) (rotate (lastSuccessfulIndex s) (dnsServers s)) w of
       (None, w') \<Rightarrow> (Inl (AllFailed d), w', s)
     | (Some (k, ip), w') \<Rightarrow>
         (Inr ip, w', s\<lparr>lastSuccessfulIndex := (k + lastSuccessfulIndex s) mod length (dnsServers s)\<rparr>)) \<and>
    rotate ((k + lastSuccessfulIndex s) mod length (dnsServers s)) (dnsServers s) =
      rotate k (rotate (lastSuccessfulIndex s) (dnsServers s))"
  using ordered_loop_first_ok [OF assms, of d "lastSuccessfulIndex s" 0 "length (dnsServers s)" w s, unfolded add_0]
  by (simp add: resolveWithOrderedServers_def servers_rotate rotate_rotate flip: rotate_conv_mod)

theorem resolver_failover_witness:
  "resolveWithOrderedServers test_net ''a'' (0, init_dns) =
     (Inr ''1.2.3.4'', 3, init_dns\<lparr>lastSuccessfulIndex := 2\<rparr>)"
proof -
  have "net_ctx test_net w = None" for w by (simp add: test_net_def)
  from resolver_failover [OF this, of "''a''" 0 init_dns 0] show ?thesis
    by (simp add: init_dns_def dnsServersPredefined_def test_servers test_servers_down)
qed

text \<open>What the rest of the program does to the host cache, with any answers of the network.\<close>

inductive dns_step :: "'w dns_net \<Rightarrow> dns_state \<Rightarrow> dns_state \<Rightarrow> bool" for net where
  ds_resolve: "cache_Resolve net d (w, s) = (r, w', s') \<Longrightarrow> dns_step net s s'"
| ds_resolve_all: "cache_ResolveAll net d (w, s) = (r2, w', s') \<Longrightarrow> dns_step net s s'"
| ds_clear: "dns_step net s (ClearCache s)"
| ds_init: "dns_step net s (InitSystemDns servers s)"

lemma dns_inv_step: "dns_step net s s' \<Longrightarrow> dns_inv s \<Longrightarrow> dns_inv s'"
proof (induction rule: dns_step.induct)
  case (ds_resolve d w s r w' s')
  then show ?case by (blast intro: cache_Resolve_inv)
next
  case (ds_resolve_all d w s r2 w' s')
  then show ?case by (blast intro: cache_ResolveAll_inv)
qed (simp_all add: dns_inv_def ClearCache_def InitSystemDns_def)

interpretation host_cache: kept_by_steps "dns_step net" dns_inv for net
  by unfold_locales (rule dns_inv_step)

text \<open>
  C23.  The host cache is coherent: after any sequence of Resolve, ResolveAll, ClearCache and InitSystemDns, the list of all addresses of a
  domain is not empty, has no duplicates and begins with the single address cached for the domain.
\<close>

theorem dns_cache_coherent:
  assumes "(dns_step net)\<^sup>*\<^sup>* init_dns s" and "cache_allIps s d = Some ips"
  shows "ips \<noteq> [] \<and> distinct ips \<and> cache_ips s d = Some (hd ips)"
proof -
  have "dns_inv s" by (rule host_cache.reached [OF assms(1)]) (simp add: dns_inv_def init_dns_def)
  then show ?thesis using assms(2) by (simp add: dns_inv_def)
qed

theorem dns_cache_coherent_witness:
  "\<exists>s. (dns_step test_net)\<^sup>*\<^sup>* init_dns s \<and> cache_allIps s ''a'' = Some [''1.2.3.4''] \<and> cache_ips s ''a'' = Some (hd [''1.2.3.4''])"
proof -
  obtain s where r: "cache_ResolveAll test_net ''a'' (0, init_dns) = (Inr [''1.2.3.4''], 3, s)" and a: "cache_allIps s ''a'' = Some [''1.2.3.4'']"
    by (simp add: cache_ResolveAll_def cached_all_def resolveWithOrderedServersAll_def init_dns_def
        dnsServersPredefined_def test_servers test_servers_down upt_rec add_new_def Let_def save_all_def MarkDirty_def)
  from r have "(dns_step test_net)\<^sup>*\<^sup>* init_dns s" by (intro r_into_rtranclp ds_resolve_all)
  with dns_cache_coherent [OF this a] a show ?thesis by blast
qed

text \<open>
  A successful ResolveAll answers the domain from then on: its list is not empty and has no
  duplicates, the same call again returns it without using the network and without changing the
  state, Resolve returns its first element the same way, and both go back to the network after
  ClearCache.
\<close>

theorem resolve_all_memo:
  assumes "dns_inv s" and "cache_ResolveAll net d (w, s) = (Inr ips, w1, s1)"
  shows "ips \<noteq> [] \<and> distinct ips \<and> cache_ResolveAll net2 d (w2, s1) = (Inr ips, w2, s1) \<and>
    cache_Resolve net2 d (w2, s1) = (Inr (hd ips), w2, s1) \<and>
    cache_ips (ClearCache s1) d = None \<and> cached_all (ClearCache s1) d = None"
proof -
  have inv: "dns_inv s1" using assms by (rule cache_ResolveAll_inv)
  have run: "through_cache cached_all save_all (network_all net d) d (w, s) = (Inr ips, w1, s1)"
    using assms(2) by (simp add: cache_ResolveAll_eq)
  then have "cached_all s1 d = Some ips"
    by (rule all_cache.run_found) (rule network_all_nonempty)
  then have "cache_allIps s1 d = Some ips" using inv by (simp add: cached_all_inv)
  then have ips: "ips \<noteq> []" "distinct ips" "cache_ips s1 d = Some (hd ips)"
    using inv by (auto simp: dns_inv_def)
  moreover have "cache_ResolveAll net2 d (w2, s1) = (Inr ips, w2, s1)"
    unfolding cache_ResolveAll_eq using run by (rule all_cache.run_again) (rule network_all_nonempty)
  moreover have "cache_Resolve net2 d (w2, s1) = (Inr (hd ips), w2, s1)"
    unfolding cache_Resolve_eq using ips(3) by (rule ip_cache.run_hit)
  ultimately show ?thesis by (simp add: ClearCache_def cached_all_def)
qed

theorem resolve_all_memo_witness:
  "\<exists>s1. cache_ResolveAll test_net ''a'' (0, init_dns) = (Inr [''1.2.3.4''], 3, s1) \<and>
     cache_ResolveAll test_net ''a'' (9, s1) = (Inr [''1.2.3.4''], 9, s1)"
proof -
  have "\<exists>s1. cache_ResolveAll test_net ''a'' (0, init_dns) = (Inr [''1.2.3.4''], 3, s1)"
    by (simp add: cache_ResolveAll_def cached_all_def resolveWithOrderedServersAll_def init_dns_def
        dnsServersPredefined_def test_servers test_servers_down upt_rec add_new_def Let_def)
  then show ?thesis
    using resolve_all_memo [of init_dns test_net "''a''" 0 "[''1.2.3.4'']" 3 _ test_net 9]
    by (auto simp: dns_inv_def init_dns_def)
qed

text \<open>
  Failures: the errors of Resolve and ResolveAll are the context's error or the failure of
  all servers, never a panic of a parser, and a failed lookup leaves both maps, the server list and
  the dirty flag as they were.
\<close>

theorem resolve_failure:
  assumes "cache_ResolveAll net d (w, s) = (Inl e, w1, s1) \<or> cache_Resolve net d (w, s) = (Inl e, w1, s1)"
  shows "(e = AllFailed d \<or> e \<in> range CtxErr) \<and> same_caches s s1"
  using assms
proof
  assume a: "cache_ResolveAll net d (w, s) = (Inl e, w1, s1)"
  then obtain r2 w2 s2 where f: "resolveWithOrderedServersAll net d (w, s) = (r2, w2, s2)"
    by (metis prod_cases3)
  from a f have g: "cache_Resolve net d (w2, s2) = (Inl e, w1, s1)"
    by (auto simp: cache_ResolveAll_def split: option.splits sum.splits prod.splits if_splits)
  have "same_caches s s2" using f by (rule resolve_frame(2))
  moreover have "same_caches s2 s1 \<and> (e = AllFailed d \<or> e \<in> range CtxErr)"
    using g by (cases rule: cache_Resolve_cases) auto
  ultimately show ?thesis by (auto simp: same_caches_def)
next
  assume "cache_Resolve net d (w, s) = (Inl e, w1, s1)"
  then show ?thesis by (cases rule: cache_Resolve_cases) auto
qed

theorem resolve_failure_witness:
  "\<exists>w1 s1. cache_Resolve (test_net\<lparr>net_ctx := \<lambda>_. Some ''canceled''\<rparr>) ''a'' (0, init_dns) =
     (Inl (CtxErr ''canceled''), w1, s1) \<and> same_caches init_dns s1"
proof -
  have a: "cache_Resolve (test_net\<lparr>net_ctx := \<lambda>_. Some ''canceled''\<rparr>) ''a'' (0, init_dns) =
     (Inl (CtxErr ''canceled''), 0, init_dns)"
    by (simp add: cache_Resolve_def resolveWithOrderedServers_def init_dns_def dnsServersPredefined_def upt_rec)
  then show ?thesis using resolve_failure [OF disjI2, OF a] by blast
qed

text \<open>
  Cancellation stops the single-address lookup and not the other one: with a context that is
  done, resolveWithOrderedServers returns the context's error and contacts no server, while
  resolveWithOrderedServersAll behaves as with any other context, since the break in its select
  leaves the select only.
\<close>

theorem resolver_cancellation:
  assumes "net_ctx net w = Some e" and "dnsServers s \<noteq> []"
  shows "resolveWithOrderedServers net d (w, s) = (Inl (CtxErr e), w, s) \<and>
    resolveWithOrderedServersAll net d (w, s) = resolveWithOrderedServersAll (net\<lparr>net_ctx := \<lambda>_. None\<rparr>) d (w, s)"
proof
  show "resolveWithOrderedServers net d (w, s) = (Inl (CtxErr e), w, s)"
    using assms by (simp add: resolveWithOrderedServers_def upt_conv_Cons)
  let ?net = "net\<lparr>net_ctx := \<lambda>_. None\<rparr>"
  have fields: "net_now ?net = net_now net" "net_dial ?net = net_dial net" "net_handshake ?net = net_handshake net"
    "net_write ?net = net_write net" "net_read ?net = net_read net" "net_read_full ?net = net_read_full net"
    "net_close ?net = net_close net" "net_http ?net = net_http net"
    by simp_all
  have all: "resolveAnyAll ?net = resolveAnyAll net"
    by (intro ext) (unfold resolveAnyAll_def resolveUDPWithServerAll_def resolveDoHWithServerAll_def
        resolveDoTWithServerAll_def udp_exchange_def doh_exchange_def dot_exchange_def fields, rule refl)
  have "ordered_loop_all ?net d st is acc frst (w, s) = ordered_loop_all net d st is acc frst (w, s)"
    for st "is" acc frst and w :: 'a and s
    by (induction "is" arbitrary: acc frst w s)
      (simp_all add: all Let_def split: prod.split sum.split)
  then show "resolveWithOrderedServersAll net d (w, s) = resolveWithOrderedServersAll ?net d (w, s)"
    by (simp add: resolveWithOrderedServersAll_def)
qed

theorem resolver_cancellation_witness:
  "resolveWithOrderedServers (test_net\<lparr>net_ctx := \<lambda>_. Some ''canceled''\<rparr>) ''a'' (0, init_dns) =
     (Inl (CtxErr ''canceled''), 0, init_dns) \<and>
   resolveWithOrderedServersAll (test_net\<lparr>net_ctx := \<lambda>_. Some ''canceled''\<rparr>) ''a'' (0, init_dns) =
     (Inr [''1.2.3.4''], 3, init_dns\<lparr>lastSuccessfulIndex := 2\<rparr>)"
proof -
  have "resolveWithOrderedServersAll test_net ''a'' (0, init_dns) =
      (Inr [''1.2.3.4''], 3, init_dns\<lparr>lastSuccessfulIndex := 2\<rparr>)"
    by (simp add: resolveWithOrderedServersAll_def init_dns_def dnsServersPredefined_def
        test_servers test_servers_down upt_rec add_new_def Let_def)
  moreover have "test_net\<lparr>net_ctx := \<lambda>_. Some ''canceled''\<rparr>\<lparr>net_ctx := \<lambda>_. None\<rparr> = test_net"
    by (simp add: test_net_def)
  ultimately show ?thesis
    using resolver_cancellation [of "test_net\<lparr>net_ctx := \<lambda>_. Some ''canceled''\<rparr>" 0 "''canceled''" init_dns "''a''"]
    by (simp add: init_dns_def dnsServersPredefined_def)
qed

end
