(* ===== verification/Go_Float.thy ===== *)
theory Go_Float
  imports TG_Prelude Complex_Main
begin

text \<open>
  Go's float64 as the rational it stands for: every operation of the code is the exact operation
  followed by \<open>f64\<close>, rounding to 53 significant bits, ties to even.  Overflow and subnormal numbers
  are left out: the code's values are durations, counts and their ratios, far inside the range.
\<close>

fun bitlen :: "nat \<Rightarrow> nat" where
  "bitlen n = (if n = 0 then 0 else Suc (bitlen (n div 2)))"

declare bitlen.simps [simp del]

text \<open>The binade of a positive rational: \<open>2 powi lg2 x \<le> x < 2 powi (lg2 x + 1)\<close>.\<close>

definition lg2 :: "rat \<Rightarrow> int" where
  "lg2 x = (case quotient_of x of (p, q) \<Rightarrow>
     let k = int (bitlen (nat p)) - int (bitlen (nat q))
     in if 2 powi k \<le> x then k else k - 1)"

definition round_even :: "rat \<Rightarrow> int" where
  "round_even x =
     (let n = \<lfloor>x\<rfloor>; f = x - of_int n
      in if f < 1 / 2 then n else if f > 1 / 2 then n + 1 else if even n then n else n + 1)"

definition f64 :: "rat \<Rightarrow> rat" where
  "f64 x = (if x = 0 then 0 else
     let e = lg2 \<bar>x\<bar> - 52 in of_int (round_even (x / 2 powi e)) * 2 powi e)"

text \<open>Conversion to an integer truncates towards zero.\<close>

definition f64_to_int :: "rat \<Rightarrow> int" where
  "f64_to_int x = (if x < 0 then - \<lfloor>- x\<rfloor> else \<lfloor>x\<rfloor>)"

section \<open>The binade\<close>

lemma bitlen_bounds: "0 < n \<Longrightarrow> 2 ^ (bitlen n - 1) \<le> n \<and> n < 2 ^ bitlen n \<and> 0 < bitlen n"
proof (induction n rule: bitlen.induct)
  case (1 n)
  show ?case
  proof (cases "n div 2 = 0")
    case True
    with 1(2) have "n = 1" by simp
    then show ?thesis by (simp add: bitlen.simps)
  next
    case False
    then have IH: "2 ^ (bitlen (n div 2) - 1) \<le> n div 2" "n div 2 < 2 ^ bitlen (n div 2)" "0 < bitlen (n div 2)"
      using 1 by auto
    have b: "bitlen n = Suc (bitlen (n div 2))" using 1(2) by (subst bitlen.simps) simp
    obtain m where m: "bitlen (n div 2) = Suc m" using IH(3) gr0_implies_Suc by blast
    show ?thesis using IH(1,2) b m by auto
  qed
qed

lemma powi_nat: "(2 :: rat) powi int n = 2 ^ n" by simp

lemma powi_2: "(2::rat) powi (k + 1) = 2 * 2 powi k" "(2::rat) powi (k - 1) = 2 powi k / 2" "0 < (2::rat) powi k"
  by (simp_all add: power_int_add power_int_diff)

lemma powi_split: "k = a + b \<Longrightarrow> (2::rat) powi k = 2 powi a * 2 powi b"
  by (simp add: power_int_add)

lemma powi_2_mono: "k \<le> l \<Longrightarrow> (2::rat) powi k \<le> 2 powi l"
  by (simp add: power_int_increasing)

lemma lg2_bounds:
  assumes "0 < x"
  shows "2 powi lg2 x \<le> x" "x < 2 powi (lg2 x + 1)"
proof -
  obtain p q where pq: "quotient_of x = (p, q)" by fastforce
  have q: "0 < q" using pq by (rule quotient_of_denom_pos)
  have x: "x = of_int p / of_int q" using pq by (rule quotient_of_div)
  then have p: "0 < p" using assms q by (simp add: zero_less_divide_iff)
  define a b where "a = bitlen (nat p)" and "b = bitlen (nat q)"
  have A: "2 ^ (a - 1) \<le> nat p" "nat p < 2 ^ a" "0 < a" using bitlen_bounds [of "nat p"] p by (auto simp: a_def)
  have B: "2 ^ (b - 1) \<le> nat q" "nat q < 2 ^ b" "0 < b" using bitlen_bounds [of "nat q"] q by (auto simp: b_def)
  have "(of_nat (2 ^ (a - 1)) :: rat) \<le> of_nat (nat p)" "(of_nat (nat p) :: rat) < of_nat (2 ^ a)"
    "(of_nat (2 ^ (b - 1)) :: rat) \<le> of_nat (nat q)" "(of_nat (nat q) :: rat) < of_nat (2 ^ b)"
    using A B by (simp_all only: of_nat_le_iff of_nat_less_iff)
  then have C: "(2::rat) powi (int a - 1) \<le> of_int p" "of_int p < (2::rat) powi int a"
    "(2::rat) powi (int b - 1) \<le> of_int q" "of_int q < (2::rat) powi int b"
    using A(3) B(3) p q by (simp_all add: power_int_def nat_diff_distrib)
  have qp: "(0::rat) < of_int q" using q by simp
  have up: "x < 2 powi (int a - int b + 1)"
  proof -
    have "(2::rat) powi (int a - int b + 1) * of_int q \<ge> 2 powi (int a - int b + 1) * 2 powi (int b - 1)"
      using C(3) by (intro mult_left_mono) simp_all
    moreover have "(2::rat) powi int a = 2 powi (int a - int b + 1) * 2 powi (int b - 1)"
      by (rule powi_split) simp
    ultimately have "of_int p < (2::rat) powi (int a - int b + 1) * of_int q" using C(2) by linarith
    then show ?thesis using qp by (simp add: x divide_less_eq)
  qed
  have low: "2 powi (int a - int b - 1) \<le> x"
  proof -
    have "(2::rat) powi (int a - int b - 1) * of_int q \<le> 2 powi (int a - int b - 1) * 2 powi int b"
      using C(4) by (intro mult_left_mono) simp_all
    moreover have "(2::rat) powi (int a - 1) = 2 powi (int a - int b - 1) * 2 powi int b"
      by (rule powi_split) simp
    ultimately have "(2::rat) powi (int a - int b - 1) * of_int q \<le> of_int p" using C(1) by linarith
    then show ?thesis using qp by (simp add: x le_divide_eq)
  qed
  show "2 powi lg2 x \<le> x" "x < 2 powi (lg2 x + 1)"
    using up low by (auto simp: lg2_def pq a_def [symmetric] b_def [symmetric] Let_def)
qed

section \<open>Rounding\<close>

lemma round_even_int [simp]: "round_even (of_int n) = n"
  by (simp add: round_even_def)

lemma round_even_near: "\<lfloor>x\<rfloor> \<le> round_even x" "round_even x \<le> \<lfloor>x\<rfloor> + 1"
  by (auto simp: round_even_def Let_def)

lemma round_even_mono:
  assumes "x \<le> y"
  shows "round_even x \<le> round_even y"
proof (cases "\<lfloor>x\<rfloor> = \<lfloor>y\<rfloor>")
  case True
  then show ?thesis using assms by (auto simp: round_even_def Let_def)
next
  case False
  then have "\<lfloor>x\<rfloor> + 1 \<le> \<lfloor>y\<rfloor>" using assms floor_mono [of x y] by linarith
  then show ?thesis using round_even_near [of x] round_even_near [of y] by linarith
qed

lemma f64_0 [simp]: "f64 0 = 0"
  by (simp add: f64_def)

lemma f64_binade:
  assumes "0 < x"
  shows "2 powi lg2 x \<le> f64 x" "f64 x \<le> 2 powi (lg2 x + 1)"
proof -
  let ?e = "lg2 x - 52"
  have p: "(2::rat) powi lg2 x = 2 powi 52 * 2 powi ?e" "(2::rat) powi (lg2 x + 1) = 2 powi 53 * 2 powi ?e"
    by (rule powi_split, simp)+
  have pos: "(0::rat) < 2 powi ?e" by simp
  have "2 powi 52 \<le> x / 2 powi ?e" "x / 2 powi ?e \<le> 2 powi 53"
    using lg2_bounds [OF assms] unfolding p using pos by (simp_all add: le_divide_eq divide_le_eq)
  then have "round_even (of_int (2 ^ 52)) \<le> round_even (x / 2 powi ?e)"
    "round_even (x / 2 powi ?e) \<le> round_even (of_int (2 ^ 53))"
    by (intro round_even_mono; simp)+
  then have "2 ^ 52 \<le> round_even (x / 2 powi ?e)" "round_even (x / 2 powi ?e) \<le> 2 ^ 53"
    unfolding round_even_int by simp_all
  then have r: "(of_int (2 ^ 52) :: rat) \<le> of_int (round_even (x / 2 powi ?e))"
    "(of_int (round_even (x / 2 powi ?e)) :: rat) \<le> of_int (2 ^ 53)"
    by (simp_all only: of_int_le_iff)
  have f: "f64 x = of_int (round_even (x / 2 powi ?e)) * 2 powi ?e"
    using assms by (simp add: f64_def Let_def)
  show "2 powi lg2 x \<le> f64 x" "f64 x \<le> 2 powi (lg2 x + 1)"
    unfolding p f using r pos by (auto intro!: mult_right_mono)
qed

lemma f64_pos: "0 < x \<Longrightarrow> 0 < f64 x"
  using f64_binade(1) [of x] powi_2(3) [of "lg2 x"] by linarith

lemma f64_nonneg: "0 \<le> x \<Longrightarrow> 0 \<le> f64 x"
  using f64_pos [of x] by (cases "x = 0") auto

lemma f64_mono_pos:
  assumes "0 < x" and "x \<le> y"
  shows "f64 x \<le> f64 y"
proof (cases "lg2 x = lg2 y")
  case True
  have "round_even (x / 2 powi (lg2 y - 52)) \<le> round_even (y / 2 powi (lg2 y - 52))"
    using assms by (intro round_even_mono divide_right_mono) simp_all
  then show ?thesis
    using assms True by (simp add: f64_def Let_def mult_right_mono)
next
  case False
  have "\<not> lg2 y < lg2 x"
  proof
    assume "lg2 y < lg2 x"
    then have "(2::rat) powi (lg2 y + 1) \<le> 2 powi lg2 x" by (intro powi_2_mono) simp
    then show False using lg2_bounds(1) [OF assms(1)] lg2_bounds(2) [of y] assms by linarith
  qed
  with False have "(2::rat) powi (lg2 x + 1) \<le> 2 powi lg2 y" by (intro powi_2_mono) simp
  then show ?thesis using f64_binade(2) [OF assms(1)] f64_binade(1) [of y] assms by linarith
qed

lemma f64_mono: "0 \<le> x \<Longrightarrow> x \<le> y \<Longrightarrow> f64 x \<le> f64 y"
  using f64_mono_pos [of x y] f64_nonneg [of y] by (cases "x = 0") auto

lemma f64_int:
  assumes "0 \<le> n" and "n < 2 ^ 53"
  shows "f64 (of_int n) = of_int n"
proof (cases "n = 0")
  case False
  then have n: "(0::rat) < of_int n" using assms by simp
  have "\<not> 53 \<le> lg2 (of_int n)"
  proof
    assume "53 \<le> lg2 (of_int n)"
    then have "(2::rat) powi 53 \<le> 2 powi lg2 (of_int n)" by (intro powi_2_mono) simp
    also have "\<dots> \<le> of_int n" using lg2_bounds(1) [OF n] .
    finally have "(of_int (2 ^ 53) :: rat) \<le> of_int n" by simp
    then show False using assms by (simp only: of_int_le_iff)
  qed
  then have k: "lg2 (of_int n) - 52 = - int (nat (52 - lg2 (of_int n)))" by simp
  define k where "k = nat (52 - lg2 (of_int n))"
  note k = k [folded k_def]
  have "of_int n / (2::rat) powi (lg2 (of_int n) - 52) = of_int (n * 2 ^ k)"
    unfolding k by (simp add: power_int_minus divide_inverse)
  then have "f64 (of_int n) = of_int (n * 2 ^ k) * 2 powi (- int k)"
    using n by (simp add: f64_def Let_def k del: of_int_mult)
  then show ?thesis by (simp add: power_int_minus field_simps)
qed simp

end
