(* ===== verification/Vk_Hosts.thy ===== *)
theory Vk_Hosts
  imports Resolver Go_Float
begin

text \<open>
  The host manager of internal/core/vk_hosts.go: the baseline addresses of the four VK domains, the
  addresses learnt from DNS, the metrics of each address and the choice of the best one.  Durations
  and times are integers of nanoseconds (the zero time is 0), float64 values are rationals rounded
  by \<open>f64\<close> after each operation.  The host cache of the resolver is part of the state.
\<close>

section \<open>State\<close>

record HostMetric =
  hm_IP :: string
  hm_RTT :: int
  hm_SuccessRate :: rat
  hm_LastSeen :: int
  hm_FailCount :: int
  hm_TotalTries :: int
  hm_TotalOK :: int

record vk_hosts =
  vk_dynamic :: "string \<rightharpoonup> string list"
  vk_metrics :: "string \<rightharpoonup> HostMetric"
  dnsOK :: bool
  lastDNS :: int
  hostCache :: dns_state

definition vkHostsBaseline :: "string \<Rightarrow> string list" where
  "vkHostsBaseline domain =
    (if domain = ''login.vk.ru'' then [''93.186.237.1'', ''95.213.56.1'']
     else if domain = ''api.vk.ru'' then
       [''87.240.129.140'', ''87.240.137.130'', ''87.240.137.206'', ''87.240.137.207'', ''87.240.137.208'',
        ''87.240.139.193'', ''87.240.190.70'', ''87.240.190.75'', ''93.186.225.205'']
     else if domain = ''calls.okcdn.ru'' then [''155.212.204.12'', ''155.212.204.136'', ''155.212.204.195'']
     else if domain = ''id.vk.ru'' then [''93.186.237.1'', ''95.213.56.1'']
     else [])"

definition baseline_domains :: "string list" where
  "baseline_domains = [''login.vk.ru'', ''api.vk.ru'', ''calls.okcdn.ru'', ''id.vk.ru'']"

definition init_vk :: vk_hosts where
  "init_vk = \<lparr>vk_dynamic = Map.empty, vk_metrics = Map.empty, dnsOK = True, lastDNS = 0, hostCache = init_dns\<rparr>"

definition metricKey :: "string \<Rightarrow> string \<Rightarrow> string" where
  "metricKey domain ip = domain @ '':'' @ ip"

definition dynamic_of :: "vk_hosts \<Rightarrow> string \<Rightarrow> string list" where
  "dynamic_of vh domain = (case vk_dynamic vh domain of None \<Rightarrow> [] | Some ips \<Rightarrow> ips)"

section \<open>Scores\<close>

definition Score :: "int \<Rightarrow> HostMetric \<Rightarrow> rat" where
  "Score now m =
     (if hm_SuccessRate m < f64 (1 / 10) then 0
      else if hm_FailCount m > 5 \<and> now - hm_LastSeen m > 3600 * 10 ^ 9 then 0
      else let rttMs = f64 (of_int (sgn (hm_RTT m) * (\<bar>hm_RTT m\<bar> div 10 ^ 6)))
        in f64 (hm_SuccessRate m * f64 (1000 / f64 (rttMs + 1))))"

text \<open>The score of an address without a metric; Go evaluates the constant expression exactly.\<close>

definition unknown_score :: rat where
  "unknown_score = f64 (1 / 2 * (1000 / (200 + 1)))"

definition allIPs :: "vk_hosts \<Rightarrow> string \<Rightarrow> string list" where
  "allIPs vh domain = merge_new (vkHostsBaseline domain) (merge_new (dynamic_of vh domain) [])"

definition ip_score :: "int \<Rightarrow> vk_hosts \<Rightarrow> string \<Rightarrow> string \<Rightarrow> rat" where
  "ip_score now vh domain ip =
     (case vk_metrics vh (metricKey domain ip) of None \<Rightarrow> unknown_score | Some metric \<Rightarrow> Score now metric)"

definition select_step :: "('a \<Rightarrow> rat) \<Rightarrow> 'a \<Rightarrow> 'a \<times> rat \<Rightarrow> 'a \<times> rat" where
  "select_step score ip best = (case best of (bestIP, bestScore) \<Rightarrow>
     if score ip > bestScore then (ip, score ip) else (bestIP, bestScore))"

datatype vk_error = NoIPs string | NoUsableIP string

definition selectBestIP :: "int \<Rightarrow> vk_hosts \<Rightarrow> string \<Rightarrow> (vk_error, string) result" where
  "selectBestIP now vh domain =
     (let ips = allIPs vh domain
      in if length ips = 0 then Inl (NoIPs domain)
         else case fold (select_step (ip_score now vh domain)) ips ([], - 1) of (bestIP, bestScore) \<Rightarrow>
           if bestIP = []
           then (if length (vkHostsBaseline domain) > 0 then Inr (hd (vkHostsBaseline domain))
                 else Inl (NoUsableIP domain))
           else Inr bestIP)"

definition mergeUnique :: "string list \<Rightarrow> string list \<Rightarrow> string list" where
  "mergeUnique a b = merge_new b (merge_new a [])"

section \<open>Operations\<close>

definition UpdateDynamic :: "int \<Rightarrow> string \<Rightarrow> string list \<Rightarrow> vk_hosts \<Rightarrow> vk_hosts" where
  "UpdateDynamic now domain ips vh =
     (if length ips > 0
      then vh\<lparr>vk_dynamic := (vk_dynamic vh)(domain \<mapsto> ips), dnsOK := True, lastDNS := now\<rparr>
      else vh)"

definition new_metric :: "string \<Rightarrow> HostMetric" where
  "new_metric ip = \<lparr>hm_IP = ip, hm_RTT = 0, hm_SuccessRate = 0, hm_LastSeen = 0, hm_FailCount = 0,
     hm_TotalTries = 0, hm_TotalOK = 0\<rparr>"

definition smooth_rtt :: "int \<Rightarrow> int \<Rightarrow> int" where
  "smooth_rtt old rtt =
     (if old = 0 then rtt
      else f64_to_int (f64 (f64 (f64 (of_int old) * f64 (7 / 10)) + f64 (f64 (of_int rtt) * f64 (3 / 10)))))"

definition success_rate :: "int \<Rightarrow> int \<Rightarrow> rat" where
  "success_rate ok tries = f64 (f64 (of_int ok) / f64 (of_int tries))"

definition metric_success :: "int \<Rightarrow> int \<Rightarrow> HostMetric \<Rightarrow> HostMetric" where
  "metric_success now rtt m =
     (let m = m\<lparr>hm_TotalTries := hm_TotalTries m + 1\<rparr>;
          m = m\<lparr>hm_TotalOK := hm_TotalOK m + 1\<rparr>;
          m = m\<lparr>hm_FailCount := 0\<rparr>;
          m = m\<lparr>hm_LastSeen := now\<rparr>;
          m = m\<lparr>hm_RTT := smooth_rtt (hm_RTT m) rtt\<rparr>
      in m\<lparr>hm_SuccessRate := success_rate (hm_TotalOK m) (hm_TotalTries m)\<rparr>)"

definition metric_failure :: "HostMetric \<Rightarrow> HostMetric" where
  "metric_failure m =
     (let m = m\<lparr>hm_TotalTries := hm_TotalTries m + 1\<rparr>;
          m = m\<lparr>hm_FailCount := hm_FailCount m + 1\<rparr>
      in m\<lparr>hm_SuccessRate := success_rate (hm_TotalOK m) (hm_TotalTries m)\<rparr>)"

definition update_metric :: "(HostMetric \<Rightarrow> HostMetric) \<Rightarrow> string \<Rightarrow> string \<Rightarrow> vk_hosts \<Rightarrow> vk_hosts" where
  "update_metric f domain ip vh =
     (let key = metricKey domain ip;
          m = (case vk_metrics vh key of Some m \<Rightarrow> m | None \<Rightarrow> new_metric ip)
      in vh\<lparr>vk_metrics := (vk_metrics vh)(key \<mapsto> f m)\<rparr>)"

definition RecordSuccess :: "int \<Rightarrow> string \<Rightarrow> string \<Rightarrow> int \<Rightarrow> vk_hosts \<Rightarrow> vk_hosts" where
  "RecordSuccess now domain ip rtt vh = update_metric (metric_success now rtt) domain ip vh"

definition RecordFailure :: "string \<Rightarrow> string \<Rightarrow> vk_hosts \<Rightarrow> vk_hosts" where
  "RecordFailure domain ip vh = update_metric metric_failure domain ip vh"

definition MarkDNSWorking :: "int \<Rightarrow> vk_hosts \<Rightarrow> vk_hosts" where
  "MarkDNSWorking now vh = (if \<not> dnsOK vh then vh\<lparr>dnsOK := True, lastDNS := now\<rparr> else vh)"

definition MarkDNSFailed :: "vk_hosts \<Rightarrow> vk_hosts" where
  "MarkDNSFailed vh = vh\<lparr>dnsOK := False\<rparr>"

definition IsDNSWorking :: "int \<Rightarrow> vk_hosts \<Rightarrow> bool" where
  "IsDNSWorking now vh \<longleftrightarrow> dnsOK vh \<and> now - lastDNS vh < 5 * 60 * 10 ^ 9"

definition vk_Resolve ::
  "'w dns_net \<Rightarrow> string \<Rightarrow> 'w \<times> vk_hosts \<Rightarrow> (vk_error, string) result \<times> 'w \<times> vk_hosts" where
  "vk_Resolve net domain ws =
     (case ws of (w, vh) \<Rightarrow>
      if dnsOK vh then
        (case cache_ResolveAll net domain (w, hostCache vh) of (r, w, h) \<Rightarrow>
         let vh = vh\<lparr>hostCache := h\<rparr> in
         (case (case r of Inr ips \<Rightarrow> if length ips > 0 then Some ips else None | Inl e \<Rightarrow> None) of
            Some ips \<Rightarrow>
              (let old = dynamic_of vh domain;
                   vh = vh\<lparr>vk_dynamic := (vk_dynamic vh)(domain \<mapsto> mergeUnique old ips)\<rparr>;
                   vh = vh\<lparr>dnsOK := True, lastDNS := net_now net w\<rparr>;
                   addedCount = int (length (dynamic_of vh domain)) - int (length old);
                   vh = (if addedCount > 0 then vh\<lparr>hostCache := MarkDirty (hostCache vh)\<rparr> else vh)
               in (selectBestIP (net_now net w) vh domain, w, vh))
          | None \<Rightarrow>
              (let vh = vh\<lparr>dnsOK := False\<rparr>
               in (selectBestIP (net_now net w) vh domain, w, vh))))
      else (selectBestIP (net_now net w) vh domain, w, vh))"

text \<open>A probe dials an address; the parameter says whether that worked and how long it took.\<close>

type_synonym 'w prober = "string \<Rightarrow> 'w \<Rightarrow> bool \<times> int \<times> 'w"

definition probeIP ::
  "'w dns_net \<Rightarrow> 'w prober \<Rightarrow> string \<Rightarrow> string \<Rightarrow> 'w \<times> vk_hosts \<Rightarrow> 'w \<times> vk_hosts" where
  "probeIP net dial domain ip ws =
     (case ws of (w, vh) \<Rightarrow>
      (case dial (ip @ '':443'') w of (ok, rtt, w) \<Rightarrow>
         if \<not> ok then (w, RecordFailure domain ip vh)
         else (w, RecordSuccess (net_now net w) domain ip rtt vh)))"

definition resolveAllViaDNS ::
  "'w dns_net \<Rightarrow> string \<Rightarrow> 'w \<times> dns_state \<Rightarrow> (resolve_error, string list) result \<times> 'w \<times> dns_state" where
  "resolveAllViaDNS net domain ws = cache_ResolveAll net domain ws"

text \<open>
  collectMetrics.  \<open>net\<close> has the collector's context, \<open>bg\<close> the fresh ten-second context of each DNS
  query; \<open>order\<close> is the order in which Go ranges over the map of domains.
\<close>

fun collect_dns ::
  "'w dns_net \<Rightarrow> 'w dns_net \<Rightarrow> string list \<Rightarrow> 'w \<times> vk_hosts \<Rightarrow> bool \<times> 'w \<times> vk_hosts" where
  "collect_dns net bg [] (w, vh) = (True, w, vh)"
| "collect_dns net bg (domain # order) (w, vh) =
     (case net_ctx net w of
        Some e \<Rightarrow> (False, w, vh)
      | None \<Rightarrow>
        (case resolveAllViaDNS bg domain (w, hostCache vh) of (r, w, h) \<Rightarrow>
         let vh = vh\<lparr>hostCache := h\<rparr>;
             vh = (case r of
               Inr ips \<Rightarrow> if length ips > 0
                 then MarkDNSWorking (net_now net w) (UpdateDynamic (net_now net w) domain ips vh) else vh
             | Inl e \<Rightarrow> vh)
         in collect_dns net bg order (w, vh)))"

fun collect_probes ::
  "'w dns_net \<Rightarrow> 'w prober \<Rightarrow> (string \<times> string) list \<Rightarrow> 'w \<times> vk_hosts \<Rightarrow> 'w \<times> vk_hosts" where
  "collect_probes net dial [] (w, vh) = (w, vh)"
| "collect_probes net dial ((domain, ip) # ps) (w, vh) =
     (case net_ctx net w of
        Some e \<Rightarrow> (w, vh)
      | None \<Rightarrow> collect_probes net dial ps (probeIP net dial domain ip (w, vh)))"

definition collectMetrics ::
  "'w dns_net \<Rightarrow> 'w dns_net \<Rightarrow> 'w prober \<Rightarrow> string list \<Rightarrow> string list \<Rightarrow> 'w \<times> vk_hosts \<Rightarrow> 'w \<times> vk_hosts" where
  "collectMetrics net bg dial order order2 ws =
     (case ws of (w, vh) \<Rightarrow>
      let domains = (\<lambda>domain. allIPs vh domain)
      in case collect_dns net bg order (w, vh) of (go, w, vh) \<Rightarrow>
           if \<not> go then (w, vh)
           else collect_probes net dial
                  (concat (map (\<lambda>domain. map (\<lambda>ip. (domain, ip)) (domains domain)) order2)) (w, vh))"

fun contains_item :: "string list \<Rightarrow> string \<Rightarrow> bool" where
  "contains_item [] item = False"
| "contains_item (s # rest) item = (if s = item then True else contains_item rest item)"

section \<open>Choosing the best\<close>

lemma select_step_pair:
  "select_step f x (b, s) = (if f x > s then (x, f x) else (b, s))"
  by (simp add: select_step_def)

lemma select_fold:
  "fold (select_step f) xs (b, s) = (b', s') \<Longrightarrow>
     (b' = b \<and> s' = s \<and> (\<forall>x \<in> set xs. f x \<le> s)) \<or>
     (\<exists>pre post. xs = pre @ b' # post \<and> s' = f b' \<and> s < f b' \<and>
        (\<forall>x \<in> set pre. f x < f b') \<and> (\<forall>x \<in> set post. f x \<le> f b'))"
proof (induction xs arbitrary: b s)
  case (Cons x xs)
  show ?case
  proof (cases "f x > s")
    case True
    then have "fold (select_step f) xs (x, f x) = (b', s')"
      using Cons.prems by (simp add: select_step_pair)
    from Cons.IH [OF this] show ?thesis
    proof (elim disjE exE conjE)
      assume "b' = x" "s' = f x" "\<forall>y \<in> set xs. f y \<le> f x"
      with True show ?thesis by (intro disjI2 exI [of _ "[]"] exI [of _ xs]) simp
    next
      fix pre post assume "xs = pre @ b' # post" "s' = f b'" "f x < f b'"
        "\<forall>x \<in> set pre. f x < f b'" "\<forall>x \<in> set post. f x \<le> f b'"
      with True show ?thesis by (intro disjI2 exI [of _ "x # pre"] exI [of _ post]) simp
    qed
  next
    case False
    then have "fold (select_step f) xs (b, s) = (b', s')"
      using Cons.prems by (simp add: select_step_pair)
    from Cons.IH [OF this] show ?thesis
    proof (elim disjE exE conjE)
      assume "b' = b" "s' = s" "\<forall>y \<in> set xs. f y \<le> s"
      with False show ?thesis by auto
    next
      fix pre post assume "xs = pre @ b' # post" "s' = f b'" "s < f b'"
        "\<forall>x \<in> set pre. f x < f b'" "\<forall>x \<in> set post. f x \<le> f b'"
      with False show ?thesis by (intro disjI2 exI [of _ "x # pre"] exI [of _ post]) auto
    qed
  qed
qed simp

section \<open>The metrics invariant\<close>

text \<open>
  The counters fit together, and the success rate is the rounded quotient of the two of them.
  Counters are Go ints of 64 bits; a collector run adds one per address, so they do not overflow.
\<close>

definition metric_ok :: "HostMetric \<Rightarrow> bool" where
  "metric_ok m \<longleftrightarrow> 0 \<le> hm_RTT m \<and> 0 \<le> hm_TotalOK m \<and> 0 \<le> hm_FailCount m \<and>
     hm_FailCount m \<le> hm_TotalTries m - hm_TotalOK m \<and> 1 \<le> hm_TotalTries m \<and>
     hm_SuccessRate m = success_rate (hm_TotalOK m) (hm_TotalTries m)"

definition metrics_ok :: "vk_hosts \<Rightarrow> bool" where
  "metrics_ok vh \<longleftrightarrow> (\<forall>m \<in> ran (vk_metrics vh). metric_ok m)"

lemma metrics_okD: "metrics_ok vh \<Longrightarrow> vk_metrics vh k = Some m \<Longrightarrow> metric_ok m"
  by (auto simp: metrics_ok_def ran_def)

lemma f64_of_int_nonneg: "0 \<le> n \<Longrightarrow> 0 \<le> f64 (of_int n)"
  by (simp add: f64_nonneg)

lemma success_rate_bounds:
  assumes "0 \<le> ok" and "ok \<le> tries" and "1 \<le> tries"
  shows "0 \<le> success_rate ok tries" "success_rate ok tries \<le> 1"
proof -
  have t: "0 < f64 (of_int tries)" using assms by (intro f64_pos) simp
  have o: "0 \<le> f64 (of_int ok)" using assms by (intro f64_of_int_nonneg)
  then show "0 \<le> success_rate ok tries"
    using t by (simp add: success_rate_def f64_nonneg)
  have "f64 (of_int ok) \<le> f64 (of_int tries)" using assms by (intro f64_mono) simp_all
  then have "f64 (of_int ok) / f64 (of_int tries) \<le> 1" using t by simp
  then have "success_rate ok tries \<le> f64 1"
    unfolding success_rate_def using o t by (intro f64_mono) simp_all
  also have "f64 1 = 1" using f64_int [of 1] by simp
  finally show "success_rate ok tries \<le> 1" .
qed

lemma metric_ok_rate: "metric_ok m \<Longrightarrow> 0 \<le> hm_SuccessRate m \<and> hm_SuccessRate m \<le> 1"
  using success_rate_bounds [of "hm_TotalOK m" "hm_TotalTries m"] by (simp add: metric_ok_def)

lemma smooth_rtt_nonneg: "0 \<le> old \<Longrightarrow> 0 \<le> rtt \<Longrightarrow> 0 \<le> smooth_rtt old rtt"
proof -
  assume a: "0 \<le> old" "0 \<le> rtt"
  have "0 \<le> f64 (f64 (f64 (of_int old) * f64 (7 / 10)) + f64 (f64 (of_int rtt) * f64 (3 / 10)))"
    using a by (intro f64_nonneg add_nonneg_nonneg mult_nonneg_nonneg) simp_all
  then show ?thesis using a by (simp add: smooth_rtt_def f64_to_int_def)
qed

lemma metric_ok_steps:
  assumes "metric_ok m \<or> m = new_metric ip"
  shows "0 \<le> rtt \<Longrightarrow> metric_ok (metric_success now rtt m)" "metric_ok (metric_failure m)"
proof -
  have m: "0 \<le> hm_RTT m" "0 \<le> hm_TotalOK m" "0 \<le> hm_FailCount m"
    "hm_FailCount m \<le> hm_TotalTries m - hm_TotalOK m" "0 \<le> hm_TotalTries m"
    using assms by (auto simp: metric_ok_def new_metric_def)
  show "0 \<le> rtt \<Longrightarrow> metric_ok (metric_success now rtt m)"
    using m by (simp add: metric_ok_def metric_success_def Let_def smooth_rtt_nonneg)
  show "metric_ok (metric_failure m)"
    using m by (simp add: metric_ok_def metric_failure_def Let_def)
qed

lemma metrics_ok_update:
  assumes "metrics_ok vh" and "\<And>m. metric_ok m \<or> m = new_metric ip \<Longrightarrow> metric_ok (f m)"
  shows "metrics_ok (update_metric f domain ip vh)"
  using assms metrics_okD [OF assms(1)]
  by (auto simp: metrics_ok_def update_metric_def Let_def ran_def split: option.splits)

lemma record_ok:
  "metrics_ok vh \<Longrightarrow> 0 \<le> rtt \<Longrightarrow> metrics_ok (RecordSuccess now domain ip rtt vh)"
  "metrics_ok vh \<Longrightarrow> metrics_ok (RecordFailure domain ip vh)"
  unfolding RecordSuccess_def RecordFailure_def
  by (rule metrics_ok_update, assumption, erule metric_ok_steps, assumption)
    (rule metrics_ok_update, assumption, erule metric_ok_steps)

lemma metrics_frame [tg_frame]:
  "vk_metrics (UpdateDynamic now d ips vh) = vk_metrics vh" "vk_metrics (MarkDNSWorking now vh) = vk_metrics vh"
  "vk_metrics (MarkDNSFailed vh) = vk_metrics vh"
  by (simp_all add: UpdateDynamic_def MarkDNSWorking_def MarkDNSFailed_def)

lemma vk_Resolve_metrics [tg_frame]: "vk_metrics (snd (snd (vk_Resolve net d (w, vh)))) = vk_metrics vh"
  by (auto simp: vk_Resolve_def Let_def split: prod.splits option.splits)

lemma collect_dns_metrics: "collect_dns net bg order (w, vh) = (go, w', vh') \<Longrightarrow> vk_metrics vh' = vk_metrics vh"
proof (induction order arbitrary: w vh)
  case (Cons d order)
  then show ?case
    by (cases "net_ctx net w") (auto simp: Let_def metrics_frame split: prod.splits sum.splits if_splits)
qed simp

lemma collect_probes_ok:
  assumes "\<And>addr w ok rtt w'. dial addr w = (ok, rtt, w') \<Longrightarrow> 0 \<le> rtt"
  shows "metrics_ok vh \<Longrightarrow> metrics_ok (snd (collect_probes net dial ps (w, vh)))"
proof (induction ps arbitrary: w vh)
  case (Cons p ps)
  obtain d ip where p: "p = (d, ip)" by fastforce
  obtain ok rtt w1 where dial: "dial (ip @ '':443'') w = (ok, rtt, w1)" by (metis prod_cases3)
  then have "0 \<le> rtt" by (rule assms)
  with Cons p dial show ?case
    by (cases "net_ctx net w") (simp_all add: probeIP_def record_ok)
qed simp

section \<open>Scores\<close>

lemma sgn_div: "0 \<le> rtt \<Longrightarrow> sgn rtt * (\<bar>rtt\<bar> div 10 ^ 6 :: int) = rtt div 10 ^ 6"
  by (cases "rtt = 0") simp_all

definition rtt_factor :: "int \<Rightarrow> rat" where
  "rtt_factor ms = f64 (1000 / f64 (f64 (of_int ms) + 1))"

lemma f64_succ_ge1: "0 \<le> ms \<Longrightarrow> 1 \<le> f64 (f64 (of_int ms) + 1)"
  using f64_mono [of 1 "f64 (of_int ms) + 1"] f64_int [of 1] f64_of_int_nonneg [of ms] by simp

lemma rtt_factor_bounds:
  assumes "0 \<le> ms"
  shows "0 < rtt_factor ms" "rtt_factor ms \<le> 1000"
proof -
  have d: "1 \<le> f64 (f64 (of_int ms) + 1)" using assms by (rule f64_succ_ge1)
  then show "0 < rtt_factor ms" unfolding rtt_factor_def by (intro f64_pos) simp
  have "rtt_factor ms \<le> f64 (of_int 1000)"
    unfolding rtt_factor_def using d by (intro f64_mono) (simp_all add: divide_le_eq)
  also have "\<dots> = 1000" by (subst f64_int) simp_all
  finally show "rtt_factor ms \<le> 1000" .
qed

lemma rtt_factor_antimono:
  assumes "0 \<le> a" and "a \<le> b"
  shows "rtt_factor b \<le> rtt_factor a"
proof -
  have a: "1 \<le> f64 (f64 (of_int a) + 1)" using assms by (intro f64_succ_ge1)
  have "f64 (of_int a) \<le> f64 (of_int b)" using assms by (intro f64_mono) simp_all
  then have "f64 (f64 (of_int a) + 1) \<le> f64 (f64 (of_int b) + 1)"
    using f64_of_int_nonneg [OF assms(1)] by (intro f64_mono) simp_all
  then have "1000 / f64 (f64 (of_int b) + 1) \<le> 1000 / f64 (f64 (of_int a) + 1)"
    using a by (intro divide_left_mono mult_pos_pos) simp_all
  then show ?thesis
    unfolding rtt_factor_def using a f64_succ_ge1 [of b] assms by (intro f64_mono) simp_all
qed

lemma Score_eq:
  assumes "metric_ok m"
  shows "Score now m = (if hm_SuccessRate m < f64 (1 / 10) \<or>
      hm_FailCount m > 5 \<and> now - hm_LastSeen m > 3600 * 10 ^ 9 then 0
    else f64 (hm_SuccessRate m * rtt_factor (hm_RTT m div 10 ^ 6)))"
proof -
  have "sgn (hm_RTT m) * (\<bar>hm_RTT m\<bar> div 10 ^ 6) = hm_RTT m div 10 ^ 6"
    using assms by (intro sgn_div) (simp add: metric_ok_def)
  then show ?thesis unfolding Score_def rtt_factor_def Let_def by simp
qed

lemma Score_bounds:
  assumes "metric_ok m"
  shows "0 \<le> Score now m" "Score now m \<le> 1000"
proof -
  have "0 \<le> hm_RTT m div 10 ^ 6" using assms by (simp add: metric_ok_def pos_imp_zdiv_nonneg_iff)
  note r = rtt_factor_bounds [OF this]
  note s = metric_ok_rate [OF assms]
  show "0 \<le> Score now m" using s r by (simp add: Score_eq [OF assms] f64_nonneg)
  have "hm_SuccessRate m * rtt_factor (hm_RTT m div 10 ^ 6) \<le> 1 * 1000"
    using s r by (intro mult_mono) simp_all
  then have "f64 (hm_SuccessRate m * rtt_factor (hm_RTT m div 10 ^ 6)) \<le> f64 (of_int 1000)"
    using s r by (intro f64_mono) simp_all
  also have "\<dots> = 1000" by (subst f64_int) simp_all
  finally show "Score now m \<le> 1000" by (simp add: Score_eq [OF assms])
qed

lemma unknown_score_pos: "0 < unknown_score"
  by (simp add: unknown_score_def f64_pos)

lemma ip_score_nonneg: "metrics_ok vh \<Longrightarrow> 0 \<le> ip_score now vh domain ip"
  using unknown_score_pos metrics_okD Score_bounds(1) by (auto simp: ip_score_def split: option.splits)

lemma select_best:
  assumes "metrics_ok vh" and "allIPs vh domain \<noteq> []" and "[] \<notin> set (allIPs vh domain)"
  obtains pre ip post where "allIPs vh domain = pre @ ip # post" "selectBestIP now vh domain = Inr ip"
    "\<forall>x \<in> set pre. ip_score now vh domain x < ip_score now vh domain ip"
    "\<forall>x \<in> set post. ip_score now vh domain x \<le> ip_score now vh domain ip"
proof -
  obtain b sc where f: "fold (select_step (ip_score now vh domain)) (allIPs vh domain) ([], - 1) = (b, sc)"
    by fastforce
  have "\<not> (\<forall>x \<in> set (allIPs vh domain). ip_score now vh domain x \<le> - 1)"
    using assms(2) ip_score_nonneg [OF assms(1), of now domain "hd (allIPs vh domain)"]
    by (metis hd_in_set neg_0_le_iff_le not_one_le_zero order_trans)
  with select_fold [OF f] obtain pre post where
    "allIPs vh domain = pre @ b # post"
    "\<forall>x \<in> set pre. ip_score now vh domain x < ip_score now vh domain b"
    "\<forall>x \<in> set post. ip_score now vh domain x \<le> ip_score now vh domain b"
    by auto
  moreover from this(1) have "b \<noteq> []" using assms(3) by auto
  ultimately show thesis
    using that f assms(2) by (simp add: selectBestIP_def Let_def)
qed

lemma cache_ResolveAll_nonempty: "cache_ResolveAll net d (w, s) = (Inr ips, w', s') \<Longrightarrow> ips \<noteq> []"
  unfolding cache_ResolveAll_eq
  by (erule all_cache.run_cases) (auto simp: cached_all_def dest: network_all_nonempty split: option.splits if_splits)

lemma baseline_nonempty: "d \<in> set baseline_domains \<Longrightarrow> vkHostsBaseline d \<noteq> []"
  by (auto simp: baseline_domains_def vkHostsBaseline_def)

lemma set_allIPs [simp]: "set (allIPs vh d) = set (dynamic_of vh d) \<union> set (vkHostsBaseline d)"
  by (auto simp: allIPs_def)

lemma distinct_allIPs [simp]: "distinct (allIPs vh d)"
  by (simp add: allIPs_def)

lemma selectBestIP_baseline:
  assumes "d \<in> set baseline_domains"
  shows "\<exists>ip. selectBestIP now vh d = Inr ip \<and> ip \<in> set (allIPs vh d)"
proof -
  obtain b sc where f: "fold (select_step (ip_score now vh d)) (allIPs vh d) ([], - 1) = (b, sc)" by fastforce
  have ne: "vkHostsBaseline d \<noteq> []" using assms by (rule baseline_nonempty)
  then have "allIPs vh d \<noteq> []" by (simp add: allIPs_def)
  moreover have "b = [] \<or> b \<in> set (allIPs vh d)"
    using select_fold [OF f] by fastforce
  ultimately show ?thesis
    using f ne by (auto simp: selectBestIP_def Let_def)
qed

section \<open>Properties\<close>

text \<open>
  Availability without DNS: for the four VK domains Resolve returns an address in every state
  and on every network, a baseline address or one learnt from DNS; no known address is lost;
  DNS counts as working afterwards exactly when it did before and has just answered, and while it
  does not, Resolve does not use the network and changes nothing.
\<close>

theorem vk_resolve_available:
  assumes "d \<in> set baseline_domains"
  shows "let (r, w', vh') = vk_Resolve net d (w, vh) in
    (\<exists>ip. r = Inr ip \<and> ip \<in> set (allIPs vh' d)) \<and> set (allIPs vh d) \<subseteq> set (allIPs vh' d) \<and>
    (dnsOK vh' \<longleftrightarrow> dnsOK vh \<and> is_ok (fst (cache_ResolveAll net d (w, hostCache vh)))) \<and>
    (dnsOK vh \<or> w' = w \<and> vh' = vh)"
proof (cases "dnsOK vh")
  case True
  obtain r w1 h where c: "cache_ResolveAll net d (w, hostCache vh) = (r, w1, h)" by (metis prod_cases3)
  show ?thesis
  proof (cases r)
    case (Inl e)
    let ?vh = "vh\<lparr>hostCache := h, dnsOK := False\<rparr>"
    have run: "vk_Resolve net d (w, vh) = (selectBestIP (net_now net w1) ?vh d, w1, ?vh)"
      using True c Inl by (simp add: vk_Resolve_def Let_def)
    have "allIPs ?vh d = allIPs vh d" by (simp add: allIPs_def dynamic_of_def)
    then show ?thesis
      using True c Inl selectBestIP_baseline [OF assms, of "net_now net w1" ?vh]
      unfolding run by (simp del: set_allIPs)
  next
    case (Inr ips)
    then have "ips \<noteq> []" using c cache_ResolveAll_nonempty [of net d w "hostCache vh" ips w1 h] by simp
    then obtain vh2 where run: "vk_Resolve net d (w, vh) = (selectBestIP (net_now net w1) vh2 d, w1, vh2)"
      and vh2: "dnsOK vh2" "dynamic_of vh2 d = mergeUnique (dynamic_of vh d) ips"
      using True c Inr by (simp add: vk_Resolve_def dynamic_of_def Let_def)
    obtain ip where ip: "selectBestIP (net_now net w1) vh2 d = Inr ip" "ip \<in> set (allIPs vh2 d)"
      using selectBestIP_baseline [OF assms] by blast
    have "set (allIPs vh d) \<subseteq> set (allIPs vh2 d)" by (auto simp: vh2 mergeUnique_def)
    then show ?thesis
      using True c Inr ip vh2(1) unfolding run by (simp del: set_allIPs)
  qed
next
  case False
  then show ?thesis
    using selectBestIP_baseline [OF assms] by (simp add: vk_Resolve_def)
qed

theorem vk_resolve_available_witness:
  "\<exists>ip. fst (vk_Resolve test_net ''api.vk.ru'' (0, init_vk)) = Inr ip"
  using vk_resolve_available [of "''api.vk.ru''" test_net 0 init_vk]
  by (auto simp: baseline_domains_def split: prod.splits)

text \<open>
  The choice: selectBestIP returns an address with the highest score among all known
  addresses of the domain, the first of them in the order dynamic, then baseline.
\<close>

theorem select_best_ip:
  assumes "metrics_ok vh" and "allIPs vh d \<noteq> []" and "[] \<notin> set (allIPs vh d)"
  shows "\<exists>pre ip post. selectBestIP now vh d = Inr ip \<and> allIPs vh d = pre @ ip # post \<and>
    (\<forall>x \<in> set pre. ip_score now vh d x < ip_score now vh d ip) \<and>
    (\<forall>x \<in> set post. ip_score now vh d x \<le> ip_score now vh d ip)"
  by (rule select_best [OF assms]) blast

definition test_vk :: vk_hosts where
  "test_vk = init_vk\<lparr>vk_dynamic := [''x'' \<mapsto> [''1.1.1.1'', ''2.2.2.2'']],
     vk_metrics := [''x:1.1.1.1'' \<mapsto> metric_failure (new_metric ''1.1.1.1'')]\<rparr>"

lemma test_vk_facts:
  "metrics_ok test_vk" "allIPs test_vk ''x'' = [''1.1.1.1'', ''2.2.2.2'']"
proof -
  have "metric_ok (metric_failure (new_metric ''1.1.1.1''))" by (rule metric_ok_steps(2)) blast
  then show "metrics_ok test_vk" by (simp add: metrics_ok_def test_vk_def init_vk_def)
  show "allIPs test_vk ''x'' = [''1.1.1.1'', ''2.2.2.2'']"
    by (simp add: test_vk_def init_vk_def allIPs_def dynamic_of_def vkHostsBaseline_def add_new_def)
qed

theorem select_best_ip_witness:
  "selectBestIP 0 test_vk ''x'' = Inr ''1.1.1.1'' \<or> selectBestIP 0 test_vk ''x'' = Inr ''2.2.2.2''"
  using select_best_ip [of test_vk "''x''" 0] test_vk_facts by (auto simp: Cons_eq_append_conv)

text \<open>
  When every known address of a domain is excluded by its metric, selectBestIP returns the
  first of all known addresses, a dynamic one if there is any: 0 is above the initial -1, so the
  branch meant for this case, which takes the first baseline address, is not reached.
\<close>

theorem excluded_addresses_fallback:
  assumes "metrics_ok vh" and "allIPs vh d \<noteq> []" and "[] \<notin> set (allIPs vh d)"
    and "\<forall>ip \<in> set (allIPs vh d). ip_score now vh d ip = 0"
  shows "selectBestIP now vh d = Inr (hd (allIPs vh d))"
proof (rule select_best [OF assms(1-3), of now])
  fix pre ip post
  assume a: "allIPs vh d = pre @ ip # post" "selectBestIP now vh d = Inr ip"
    "\<forall>x \<in> set pre. ip_score now vh d x < ip_score now vh d ip"
  have "pre = []"
    using a(1,3) assms(4) by (cases pre) auto
  with a show ?thesis by simp
qed

definition excluded_vk :: vk_hosts where
  "excluded_vk = (let dead = (\<lambda>ip. metric_failure (new_metric ip)) in
     init_vk\<lparr>vk_dynamic := [''id.vk.ru'' \<mapsto> [''1.1.1.1'']],
       vk_metrics := [''id.vk.ru:1.1.1.1'' \<mapsto> dead ''1.1.1.1'', ''id.vk.ru:93.186.237.1'' \<mapsto> dead ''93.186.237.1'',
         ''id.vk.ru:95.213.56.1'' \<mapsto> dead ''95.213.56.1'']\<rparr>)"

lemma dead_metric: "metric_ok (metric_failure (new_metric ip))" "Score now (metric_failure (new_metric ip)) = 0"
proof -
  show "metric_ok (metric_failure (new_metric ip))" by (rule metric_ok_steps(2)) blast
  have "0 < f64 (1 / 10)" by (rule f64_pos) simp
  then show "Score now (metric_failure (new_metric ip)) = 0"
    by (simp add: Score_def metric_failure_def new_metric_def success_rate_def Let_def)
qed

theorem excluded_addresses_fallback_witness:
  "selectBestIP 0 excluded_vk ''id.vk.ru'' = Inr ''1.1.1.1''"
proof -
  have ips: "allIPs excluded_vk ''id.vk.ru'' = [''1.1.1.1'', ''93.186.237.1'', ''95.213.56.1'']"
    by (simp add: excluded_vk_def init_vk_def allIPs_def dynamic_of_def vkHostsBaseline_def add_new_def Let_def)
  moreover have "metrics_ok excluded_vk"
    by (simp add: metrics_ok_def excluded_vk_def init_vk_def Let_def dead_metric)
  moreover have "ip_score 0 excluded_vk ''id.vk.ru'' ip = 0" if "ip \<in> set (allIPs excluded_vk ''id.vk.ru'')" for ip
    using that unfolding ips by (auto simp: ip_score_def excluded_vk_def metricKey_def Let_def dead_metric)
  ultimately show ?thesis
    using excluded_addresses_fallback [of excluded_vk "''id.vk.ru''" 0] by simp
qed

text \<open>
  C26.  The metrics stay consistent under everything that runs: success rates are the rounded
  quotients of the counters and lie between 0 and 1, consecutive failures never exceed all
  failures, smoothed round-trip times are not negative, and every score is between 0 and 1000.
  The prober reports elapsed times, which are not negative.
\<close>

theorem metrics_invariant:
  assumes "metrics_ok vh" and "\<And>addr w ok rtt w'. dial addr w = (ok, rtt, w') \<Longrightarrow> 0 \<le> rtt"
  shows "metrics_ok init_vk \<and> metrics_ok (snd (collectMetrics net bg dial order order2 (w, vh))) \<and>
    metrics_ok (snd (probeIP net dial d ip (w, vh))) \<and> metrics_ok (snd (snd (vk_Resolve net d (w, vh)))) \<and>
    (\<forall>m \<in> ran (vk_metrics vh). 0 \<le> hm_SuccessRate m \<and> hm_SuccessRate m \<le> 1 \<and> 0 \<le> Score now m \<and> Score now m \<le> 1000)"
proof (intro conjI)
  show "metrics_ok init_vk" by (simp add: metrics_ok_def init_vk_def)
  obtain go w1 vh1 where c: "collect_dns net bg order (w, vh) = (go, w1, vh1)" by (metis prod_cases3)
  have "metrics_ok vh1" using assms(1) collect_dns_metrics [OF c] by (simp add: metrics_ok_def)
  then show "metrics_ok (snd (collectMetrics net bg dial order order2 (w, vh)))"
    using c collect_probes_ok [where dial = dial and vh = vh1, OF assms(2)] by (simp add: collectMetrics_def)
  obtain ok rtt w1 where p: "dial (ip @ '':443'') w = (ok, rtt, w1)" by (metis prod_cases3)
  then show "metrics_ok (snd (probeIP net dial d ip (w, vh)))"
    using assms(1) assms(2) [OF p] by (simp add: probeIP_def record_ok)
  show "metrics_ok (snd (snd (vk_Resolve net d (w, vh))))"
    using assms(1) by (simp add: metrics_ok_def vk_Resolve_metrics)
  show "\<forall>m \<in> ran (vk_metrics vh). 0 \<le> hm_SuccessRate m \<and> hm_SuccessRate m \<le> 1 \<and> 0 \<le> Score now m \<and> Score now m \<le> 1000"
    using assms(1) metric_ok_rate Score_bounds by (auto simp: metrics_ok_def)
qed

theorem metrics_invariant_witness:
  "metrics_ok (snd (collectMetrics test_net test_net (\<lambda>_ w. (True, 25 * 10 ^ 6, w)) baseline_domains
     baseline_domains (0, init_vk)))"
  using metrics_invariant [of init_vk "\<lambda>_ w. (True, 25 * 10 ^ 6, w)" test_net test_net baseline_domains baseline_domains 0]
  by (simp add: metrics_ok_def init_vk_def)

text \<open>
  The score ranks as intended: an address that succeeds at least as often and whose
  round-trip time is not longer does not score less than another, unless it is itself excluded;
  this holds for the rounded values the code computes.
\<close>

theorem score_monotone:
  assumes "metric_ok a" and "metric_ok b"
    and "hm_SuccessRate b \<le> hm_SuccessRate a" and "hm_RTT a \<le> hm_RTT b"
    and "hm_FailCount a \<le> 5 \<or> now - hm_LastSeen a \<le> 3600 * 10 ^ 9"
  shows "Score now b \<le> Score now a"
proof (cases "Score now b = 0")
  case True
  then show ?thesis using Score_bounds(1) [OF assms(1)] by simp
next
  case False
  then have b: "\<not> hm_SuccessRate b < f64 (1 / 10)"
    "Score now b = f64 (hm_SuccessRate b * rtt_factor (hm_RTT b div 10 ^ 6))"
    by (auto simp: Score_eq [OF assms(2)] split: if_splits)
  then have a: "Score now a = f64 (hm_SuccessRate a * rtt_factor (hm_RTT a div 10 ^ 6))"
    using assms(3,5) by (auto simp: Score_eq [OF assms(1)])
  have ms: "0 \<le> hm_RTT a div 10 ^ 6" "hm_RTT a div 10 ^ 6 \<le> hm_RTT b div 10 ^ 6"
    using assms by (simp_all add: metric_ok_def pos_imp_zdiv_nonneg_iff zdiv_mono1)
  have "hm_SuccessRate b * rtt_factor (hm_RTT b div 10 ^ 6) \<le> hm_SuccessRate a * rtt_factor (hm_RTT a div 10 ^ 6)"
    using assms(3) rtt_factor_antimono [OF ms] rtt_factor_bounds [of "hm_RTT b div 10 ^ 6"] ms metric_ok_rate [OF assms(1)]
    by (intro mult_mono) simp_all
  moreover have "0 \<le> hm_SuccessRate b * rtt_factor (hm_RTT b div 10 ^ 6)"
    using metric_ok_rate [OF assms(2)] rtt_factor_bounds [of "hm_RTT b div 10 ^ 6"] ms by simp
  ultimately show ?thesis
    unfolding a b(2) by (intro f64_mono)
qed

theorem score_monotone_witness:
  "Score 0 (metric_success 0 (9 * 10 ^ 6) (new_metric ''b'')) \<le> Score 0 (metric_success 0 (5 * 10 ^ 6) (new_metric ''a''))"
proof -
  have "metric_ok (metric_success 0 (9 * 10 ^ 6) (new_metric ''b''))" "metric_ok (metric_success 0 (5 * 10 ^ 6) (new_metric ''a''))"
    by (rule metric_ok_steps(1) [OF disjI2 [OF refl]], simp)+
  then show ?thesis
    by (intro score_monotone) (simp_all add: metric_success_def new_metric_def smooth_rtt_def Let_def)
qed

end
