(* ===== verification/Dns_Persist.thy ===== *)
theory Dns_Persist
  imports Vk_Hosts
begin

text \<open>
  The persistent DNS cache of internal/core/dns_cache_persist.go: what is written, how a file is
  merged back, how the file is replaced, and the shutdown of the saver goroutine.  A file holds
  either the JSON of a persistFile, which encoding/json reads back as it was written, or something
  that does not parse.  Maps are ranged over in an order that Go leaves open; it is an argument.
\<close>

section \<open>What is stored\<close>

record persistMetric =
  pm_IP :: string
  pm_RTTms :: int
  pm_SuccessRate :: rat
  pm_LastSeen :: string
  pm_FailCount :: int
  pm_TotalTries :: int
  pm_TotalOK :: int

record persistDomain =
  pd_IPs :: "string list"
  pd_Metrics :: "persistMetric list"

record persistFile =
  pf_Version :: int
  pf_SavedAt :: string
  pf_Domains :: "string \<rightharpoonup> persistDomain"

datatype file_content = Json persistFile | Garbage

type_synonym file_system = "string \<rightharpoonup> file_content"

definition persistMaxIPsPerDomain :: nat where [tg_consts]: "persistMaxIPsPerDomain = 30"

definition to_persist :: "(int \<Rightarrow> string) \<Rightarrow> HostMetric \<Rightarrow> persistMetric" where
  "to_persist fmt m = \<lparr>pm_IP = hm_IP m, pm_RTTms = sgn (hm_RTT m) * (\<bar>hm_RTT m\<bar> div 10 ^ 6),
     pm_SuccessRate = hm_SuccessRate m, pm_LastSeen = fmt (hm_LastSeen m),
     pm_FailCount = hm_FailCount m, pm_TotalTries = hm_TotalTries m, pm_TotalOK = hm_TotalOK m\<rparr>"

definition from_persist :: "(string \<Rightarrow> int option) \<Rightarrow> int \<Rightarrow> persistMetric \<Rightarrow> HostMetric" where
  "from_persist prs now dm =
     (let lastSeen = (case prs (pm_LastSeen dm) of None \<Rightarrow> 0 | Some t \<Rightarrow> t);
          lastSeen = (if lastSeen = 0 then now else lastSeen)
      in \<lparr>hm_IP = pm_IP dm, hm_RTT = pm_RTTms dm * 10 ^ 6, hm_SuccessRate = pm_SuccessRate dm,
          hm_LastSeen = lastSeen, hm_FailCount = pm_FailCount dm, hm_TotalTries = pm_TotalTries dm,
          hm_TotalOK = pm_TotalOK dm\<rparr>)"

section \<open>Saving\<close>

definition known_domain :: "vk_hosts \<Rightarrow> string \<Rightarrow> bool" where
  "known_domain vh d \<longleftrightarrow> cache_allIps (hostCache vh) d \<noteq> None \<or> cache_ips (hostCache vh) d \<noteq> None \<or>
     vk_dynamic vh d \<noteq> None"

definition all_of :: "dns_state \<Rightarrow> string \<Rightarrow> string list" where
  "all_of s d = (case cache_allIps s d of None \<Rightarrow> [] | Some ips \<Rightarrow> ips)"

definition metric_ips :: "string list \<Rightarrow> string \<Rightarrow> string list" where
  "metric_ips keys d =
     (let prefx = d @ '':'' in
      map (\<lambda>k. drop (length prefx) k)
        (filter (\<lambda>k. length k > length prefx \<and> take (length prefx) k = prefx) keys))"

text \<open>\<open>keys\<close> is the order in which the snapshot of the metrics is ranged over for each domain.\<close>

definition merged_ips :: "string list \<Rightarrow> vk_hosts \<Rightarrow> string \<Rightarrow> string list" where
  "merged_ips keys vh d =
     fold (\<lambda>ip acc. mergeUnique acc [ip]) (metric_ips keys d)
       (mergeUnique (all_of (hostCache vh) d) (dynamic_of vh d))"

definition saved_metrics :: "(int \<Rightarrow> string) \<Rightarrow> vk_hosts \<Rightarrow> string \<Rightarrow> string list \<Rightarrow> persistMetric list" where
  "saved_metrics fmt vh d ips =
     List.map_filter (\<lambda>ip. map_option (to_persist fmt) (vk_metrics vh (metricKey d ip))) ips"

definition save_file :: "(int \<Rightarrow> string) \<Rightarrow> int \<Rightarrow> (string \<Rightarrow> string list) \<Rightarrow> vk_hosts \<Rightarrow> persistFile" where
  "save_file fmt now keys vh =
     \<lparr>pf_Version = 1, pf_SavedAt = fmt now,
      pf_Domains = (\<lambda>d. if known_domain vh d
        then let ips = merged_ips (keys d) vh d
             in if length ips = 0 then None
                else Some \<lparr>pd_IPs = ips, pd_Metrics = saved_metrics fmt vh d ips\<rparr>
        else None)\<rparr>"

text \<open>
  save: the dirty flag is cleared first; the file is written beside the old one and renamed.
  \<open>wrote\<close> and \<open>renamed\<close> say whether the two system calls succeed; a failed write leaves rubbish.
\<close>

definition persist_save ::
  "(int \<Rightarrow> string) \<Rightarrow> int \<Rightarrow> (string \<Rightarrow> string list) \<Rightarrow> bool \<Rightarrow> bool \<Rightarrow> string \<Rightarrow> vk_hosts \<times> file_system \<Rightarrow>
   bool \<times> vk_hosts \<times> file_system" where
  "persist_save fmt now keys wrote renamed path st =
     (case st of (vh, fs) \<Rightarrow>
      let vh = vh\<lparr>hostCache := (hostCache vh)\<lparr>persist_dirty := False\<rparr>\<rparr>
      in if path = [] then (True, vh, fs)
         else let pf = save_file fmt now keys vh;
                  tmpPath = path @ ''.tmp''
           in if \<not> wrote then (False, vh, fs(tmpPath \<mapsto> Garbage))
              else let fs = fs(tmpPath \<mapsto> Json pf)
                in if \<not> renamed then (False, vh, fs)
                   else (True, vh, fs(path \<mapsto> Json pf, tmpPath := None)))"

section \<open>Loading\<close>

definition load_host :: "string \<times> persistDomain \<Rightarrow> dns_state \<Rightarrow> dns_state" where
  "load_host entry s = (case entry of (domain, dd) \<Rightarrow>
     if length (pd_IPs dd) = 0 then s
     else let existing = all_of s domain;
              merged = mergeUnique existing (pd_IPs dd);
              merged = (if length merged > persistMaxIPsPerDomain then take persistMaxIPsPerDomain merged else merged);
              s = s\<lparr>cache_allIps := (cache_allIps s)(domain \<mapsto> merged)\<rparr>
          in if length merged > 0 then s\<lparr>cache_ips := (cache_ips s)(domain \<mapsto> hd merged)\<rparr> else s)"

definition load_vk :: "(string \<Rightarrow> int option) \<Rightarrow> int \<Rightarrow> string \<times> persistDomain \<Rightarrow> vk_hosts \<Rightarrow> vk_hosts" where
  "load_vk prs now entry vh = (case entry of (domain, dd) \<Rightarrow>
     let vh = (if length (pd_IPs dd) > 0
               then let old = dynamic_of vh domain;
                        merged = mergeUnique old (pd_IPs dd);
                        merged = (if length merged > persistMaxIPsPerDomain then take persistMaxIPsPerDomain merged else merged)
                    in vh\<lparr>vk_dynamic := (vk_dynamic vh)(domain \<mapsto> merged)\<rparr>
               else vh)
     in fold (\<lambda>dm vh. vh\<lparr>vk_metrics := (vk_metrics vh)(metricKey domain (pm_IP dm) \<mapsto> from_persist prs now dm)\<rparr>)
          (pd_Metrics dd) vh)"

definition entries :: "persistFile \<Rightarrow> string list \<Rightarrow> (string \<times> persistDomain) list" where
  "entries pf order = List.map_filter (\<lambda>d. map_option (Pair d) (pf_Domains pf d)) order"

definition persist_Load ::
  "(string \<Rightarrow> int option) \<Rightarrow> int \<Rightarrow> string list \<Rightarrow> string list \<Rightarrow> string \<Rightarrow> file_system \<Rightarrow> vk_hosts \<Rightarrow> bool \<times> vk_hosts" where
  "persist_Load prs now order order2 path fs vh =
     (if path = [] then (True, vh)
      else case fs path of
        None \<Rightarrow> (True, vh)
      | Some Garbage \<Rightarrow> (False, vh)
      | Some (Json pf) \<Rightarrow>
          if pf_Version pf \<noteq> 1 then (True, vh)
          else let vh = vh\<lparr>hostCache := fold load_host (entries pf order) (hostCache vh)\<rparr>
            in (True, fold (load_vk prs now) (entries pf order2) vh))"

section \<open>Lemmas: merging\<close>

lemma mergeUnique_simps [simp]:
  "set (mergeUnique a b) = set a \<union> set b" "distinct (mergeUnique a b)"
  by (simp_all add: mergeUnique_def Un_commute)

lemma mergeUnique_self: "distinct a \<Longrightarrow> set b \<subseteq> set a \<Longrightarrow> mergeUnique a b = a"
  by (simp add: mergeUnique_def merge_new_distinct merge_new_id)

lemma mergeUnique_Nil [simp]: "distinct b \<Longrightarrow> mergeUnique [] b = b"
  by (simp add: mergeUnique_def merge_new_distinct)

lemma mergeUnique_eq_Nil [simp]: "mergeUnique a b = [] \<longleftrightarrow> a = [] \<and> b = []"
  by (simp add: mergeUnique_def)

lemma hd_mergeUnique: "a \<noteq> [] \<Longrightarrow> distinct a \<Longrightarrow> hd (mergeUnique a b) = hd a"
  by (simp add: mergeUnique_def merge_new_distinct hd_merge_new)

lemma merged_ips_distinct [simp]: "distinct (merged_ips keys vh d)"
proof -
  have "distinct acc \<Longrightarrow> distinct (fold (\<lambda>ip acc. mergeUnique acc [ip]) xs acc)" for xs :: "string list" and acc
    by (induction xs arbitrary: acc) simp_all
  then show ?thesis by (simp add: merged_ips_def)
qed


definition cut30 :: "'a list \<Rightarrow> 'a list" where
  "cut30 xs = take 30 xs"

lemma cut30_if: "(if length xs > persistMaxIPsPerDomain then take persistMaxIPsPerDomain xs else xs) = cut30 xs"
  by (simp add: cut30_def persistMaxIPsPerDomain_def)

lemma cut30_simps [simp]: "cut30 xs = [] \<longleftrightarrow> xs = []" "distinct xs \<Longrightarrow> distinct (cut30 xs)" "hd (cut30 xs) = hd xs"
  "length (cut30 xs) \<le> 30"
  by (auto simp: cut30_def hd_take)

lemma load_host_eq:
  "load_host (d, dd) s = (if pd_IPs dd = [] then s
     else let m = cut30 (mergeUnique (all_of s d) (pd_IPs dd))
       in s\<lparr>cache_allIps := (cache_allIps s)(d \<mapsto> m), cache_ips := (cache_ips s)(d \<mapsto> hd m)\<rparr>)"
  by (simp add: load_host_def cut30_if Let_def)

lemma load_host_inv: "dns_inv s \<Longrightarrow> dns_inv (load_host e s)"
  by (cases e) (auto simp: load_host_eq dns_inv_def Let_def)

lemma load_hosts_inv: "dns_inv s \<Longrightarrow> dns_inv (fold load_host es s)"
  by (induction es arbitrary: s) (simp_all add: load_host_inv)





section \<open>Lemmas: saving and loading\<close>


lemma load_vk_fields:
  "vk_dynamic (load_vk prs now (d, dd) vh) = (if pd_IPs dd = [] then vk_dynamic vh
     else (vk_dynamic vh)(d \<mapsto> cut30 (mergeUnique (dynamic_of vh d) (pd_IPs dd))))"
  "hostCache (load_vk prs now (d, dd) vh) = hostCache vh"
proof -
  have f: "vk_dynamic (fold (\<lambda>dm vh. vh\<lparr>vk_metrics := (vk_metrics vh)(metricKey d (pm_IP dm) \<mapsto> from_persist prs now dm)\<rparr>) ms vh)
      = vk_dynamic vh"
    "hostCache (fold (\<lambda>dm vh. vh\<lparr>vk_metrics := (vk_metrics vh)(metricKey d (pm_IP dm) \<mapsto> from_persist prs now dm)\<rparr>) ms vh)
      = hostCache vh" for ms :: "persistMetric list" and vh :: vk_hosts
    by (induction ms arbitrary: vh) simp_all
  show "vk_dynamic (load_vk prs now (d, dd) vh) = (if pd_IPs dd = [] then vk_dynamic vh
     else (vk_dynamic vh)(d \<mapsto> cut30 (mergeUnique (dynamic_of vh d) (pd_IPs dd))))"
    "hostCache (load_vk prs now (d, dd) vh) = hostCache vh"
    by (simp_all add: load_vk_def cut30_if f Let_def)
qed

lemma load_vks_host: "hostCache (fold (load_vk prs now) es vh) = hostCache vh"
proof (induction es arbitrary: vh)
  case (Cons e es)
  then show ?case by (cases e) (simp add: load_vk_fields)
qed simp



lemma tmp_path: "path @ ''.tmp'' \<noteq> path" by simp

definition test_known :: vk_hosts where
  "test_known = init_vk\<lparr>hostCache := init_dns\<lparr>cache_allIps := [''d'' \<mapsto> [''1.1.1.1'', ''2.2.2.2'']],
     cache_ips := [''d'' \<mapsto> ''1.1.1.1'']\<rparr>, vk_dynamic := [''d'' \<mapsto> [''2.2.2.2'', ''3.3.3.3'']]\<rparr>"


section \<open>Stopping the saver\<close>

text \<open>
  Stop and the saver goroutine as two threads that share the mutex p.mu, the stop channel and the
  wait group.  Each step is one action between two blocking points of the code; \<open>MarkDirty\<close> of any
  other goroutine takes and releases the mutex in one step.
\<close>

datatype who = Stopper | Saver

datatype stop_pc = StopLock | StopCheck | StopWait | StopReturned

datatype saver_pc = Select | TickLock | TickHeld | SaveLock bool | SaveHeld bool | SaveWrite bool | Exited

record stop_sys =
  mu_owner :: "who option"
  sys_dirty :: bool
  sys_stopped :: bool
  stopCh_closed :: bool
  wait_count :: nat
  stop_at :: stop_pc
  saver_at :: saver_pc

definition saver_started :: "bool \<Rightarrow> stop_sys" where
  "saver_started d = \<lparr>mu_owner = None, sys_dirty = d, sys_stopped = False, stopCh_closed = False,
     wait_count = 1, stop_at = StopLock, saver_at = Select\<rparr>"

inductive stop_step :: "stop_sys \<Rightarrow> stop_sys \<Rightarrow> bool" where
  stop_lock: "stop_at s = StopLock \<Longrightarrow> mu_owner s = None \<Longrightarrow>
    stop_step s (s\<lparr>mu_owner := Some Stopper, stop_at := StopCheck\<rparr>)"
| stop_again: "stop_at s = StopCheck \<Longrightarrow> sys_stopped s \<Longrightarrow>
    stop_step s (s\<lparr>mu_owner := None, stop_at := StopReturned\<rparr>)"
| stop_close: "stop_at s = StopCheck \<Longrightarrow> \<not> sys_stopped s \<Longrightarrow>
    stop_step s (s\<lparr>sys_stopped := True, stopCh_closed := True, stop_at := StopWait\<rparr>)"
| stop_waited: "stop_at s = StopWait \<Longrightarrow> wait_count s = 0 \<Longrightarrow>
    stop_step s (s\<lparr>mu_owner := None, stop_at := StopReturned\<rparr>)"
| saver_stop: "saver_at s = Select \<Longrightarrow> stopCh_closed s \<Longrightarrow> stop_step s (s\<lparr>saver_at := SaveLock True\<rparr>)"
| saver_tick: "saver_at s = Select \<Longrightarrow> stop_step s (s\<lparr>saver_at := TickLock\<rparr>)"
| tick_lock: "saver_at s = TickLock \<Longrightarrow> mu_owner s = None \<Longrightarrow>
    stop_step s (s\<lparr>mu_owner := Some Saver, saver_at := TickHeld\<rparr>)"
| tick_unlock: "saver_at s = TickHeld \<Longrightarrow>
    stop_step s (s\<lparr>mu_owner := None, saver_at := (if sys_dirty s then SaveLock False else Select)\<rparr>)"
| save_lock: "saver_at s = SaveLock final \<Longrightarrow> mu_owner s = None \<Longrightarrow>
    stop_step s (s\<lparr>mu_owner := Some Saver, saver_at := SaveHeld final\<rparr>)"
| save_unlock: "saver_at s = SaveHeld final \<Longrightarrow>
    stop_step s (s\<lparr>sys_dirty := False, mu_owner := None, saver_at := SaveWrite final\<rparr>)"
| save_done: "saver_at s = SaveWrite False \<Longrightarrow> stop_step s (s\<lparr>saver_at := Select\<rparr>)"
| save_exit: "saver_at s = SaveWrite True \<Longrightarrow>
    stop_step s (s\<lparr>saver_at := Exited, wait_count := wait_count s - 1\<rparr>)"
| other_dirty: "mu_owner s = None \<Longrightarrow> stop_step s (s\<lparr>sys_dirty := True\<rparr>)"

inductive_cases stop_stepE: "stop_step s s'"

definition stop_inv :: "stop_sys \<Rightarrow> bool" where
  "stop_inv s \<longleftrightarrow> wait_count s = 1 \<and> stop_at s \<noteq> StopReturned \<and>
     saver_at s \<notin> {SaveHeld True, SaveWrite True, Exited} \<and>
     (sys_stopped s \<longleftrightarrow> stop_at s = StopWait) \<and> (stopCh_closed s \<longleftrightarrow> stop_at s = StopWait) \<and>
     (saver_at s = SaveLock True \<longrightarrow> stopCh_closed s) \<and>
     (stop_at s \<noteq> StopLock \<longrightarrow> mu_owner s = Some Stopper) \<and>
     (saver_at s \<in> {TickHeld, SaveHeld False} \<longrightarrow> mu_owner s = Some Saver)"

interpretation stop_sys: kept_by_steps stop_step stop_inv
  by unfold_locales (erule stop_stepE, auto simp: stop_inv_def)

lemma stop_inv_reachable: "stop_step\<^sup>*\<^sup>* (saver_started d) s \<Longrightarrow> stop_inv s"
  by (erule stop_sys.reached) (simp add: stop_inv_def saver_started_def)

section \<open>Properties\<close>



text \<open>
  Loading never breaks the host cache: whatever the file holds, the cache stays coherent, and
  addresses cached before keep their place in front of the loaded ones, so the single address of a
  domain that was cached does not change.
\<close>

theorem persist_load_coherent:
  assumes "dns_inv (hostCache vh)" and "persist_Load prs now order order2 path fs vh = (ok, vh2)"
  shows "dns_inv (hostCache vh2) \<and>
    (\<forall>d l. cache_allIps (hostCache vh) d = Some l \<longrightarrow> cache_ips (hostCache vh2) d = Some (hd l))"
proof -
  have keep: "cache_ips (load_host e s) d = Some (hd l) \<and> (\<exists>l'. cache_allIps (load_host e s) d = Some l' \<and> hd l' = hd l)"
    if "dns_inv s" "cache_allIps s d = Some l" for e s d l
    using that by (cases e) (auto simp: load_host_eq all_of_def dns_inv_def hd_mergeUnique Let_def)
  have fold: "cache_ips (fold load_host es s) d = Some (hd l)"
    if "dns_inv s" "cache_allIps s d = Some l" for es s d l
    using that
  proof (induction es arbitrary: s l)
    case (Cons e es)
    obtain l' where "cache_allIps (load_host e s) d = Some l'" "hd l' = hd l"
      using keep [OF Cons.prems] by blast
    then show ?case using Cons.IH [of "load_host e s" l'] load_host_inv [OF Cons.prems(1)] by simp
  qed (auto simp: dns_inv_def)
  have "\<exists>es. hostCache vh2 = fold load_host es (hostCache vh)"
    using assms(2) by (auto simp: persist_Load_def load_vks_host Let_def intro: exI [of _ "[]"]
        split: option.splits file_content.splits if_splits)
  then show ?thesis using fold [OF assms(1)] load_hosts_inv [OF assms(1)] by auto
qed

theorem persist_load_coherent_witness:
  "\<exists>ok vh2. persist_Load (\<lambda>_. None) 7 [''d''] [''d''] ''f'' [''f'' \<mapsto> Json (save_file (\<lambda>_. []) 0 (\<lambda>_. []) test_known)] test_known =
     (ok, vh2) \<and> dns_inv (hostCache vh2)"
proof -
  have "dns_inv (hostCache test_known)" by (simp add: dns_inv_def test_known_def)
  then show ?thesis using persist_load_coherent by (metis surj_pair)
qed

text \<open>
  The file is replaced whole or not at all: whichever of the two system calls fails, the file
  at the path is the old one, and when save reports success it is the complete new one.
\<close>

theorem persist_save_atomic:
  "let (ok, vh', fs') = persist_save fmt now keys wrote renamed path (vh, fs) in
    (fs' path = (if ok \<and> path \<noteq> [] then Some (Json (save_file fmt now keys vh)) else fs path)) \<and>
    (ok \<longleftrightarrow> path = [] \<or> wrote \<and> renamed) \<and> \<not> persist_dirty (hostCache vh')"
proof -
  let ?clean = "vh\<lparr>hostCache := (hostCache vh)\<lparr>persist_dirty := False\<rparr>\<rparr>"
  have "merged_ips k ?clean d = merged_ips k vh d" "known_domain ?clean d = known_domain vh d"
    "saved_metrics fmt ?clean d ips = saved_metrics fmt vh d ips" for k d ips
    by (simp_all add: merged_ips_def all_of_def dynamic_of_def known_domain_def saved_metrics_def)
  then have "save_file fmt now keys ?clean = save_file fmt now keys vh"
    by (simp add: save_file_def cong: if_cong)
  then show ?thesis by (simp add: persist_save_def Let_def)
qed

text \<open>
  Stop never returns while the saver runs: it holds the mutex while it waits for the saver,
  and the saver's last save needs the mutex.  On no schedule does Stop return, does the saver exit,
  or does the save that the stop channel asks for write the file.
\<close>

theorem stop_deadlock:
  assumes "stop_step\<^sup>*\<^sup>* (saver_started d) s"
  shows "stop_at s \<noteq> StopReturned \<and> saver_at s \<noteq> Exited \<and> saver_at s \<noteq> SaveWrite True"
  using stop_inv_reachable [OF assms] by (auto simp: stop_inv_def)

theorem stop_deadlock_witness:
  "\<exists>s. stop_step\<^sup>*\<^sup>* (saver_started True) s \<and> stop_at s = StopWait \<and> saver_at s = SaveLock True \<and> stop_at s \<noteq> StopReturned"
proof -
  let ?a = "(saver_started True)\<lparr>mu_owner := Some Stopper, stop_at := StopCheck\<rparr>"
  let ?b = "?a\<lparr>sys_stopped := True, stopCh_closed := True, stop_at := StopWait\<rparr>"
  let ?c = "?b\<lparr>saver_at := SaveLock True\<rparr>"
  have "stop_step (saver_started True) ?a" by (rule stop_lock) (simp_all add: saver_started_def)
  moreover have "stop_step ?a ?b" by (rule stop_close) (simp_all add: saver_started_def)
  moreover have "stop_step ?b ?c" by (rule saver_stop) (simp_all add: saver_started_def)
  ultimately have r: "stop_step\<^sup>*\<^sup>* (saver_started True) ?c" by (meson converse_rtranclp_into_rtranclp rtranclp.rtrancl_refl)
  with stop_deadlock [OF r] show ?thesis by (intro exI [of _ ?c]) simp
qed

end
