(* ===== verification/Js_Lexer.thy ===== *)
theory Js_Lexer
  imports TG_Prelude
begin

text \<open>
  The JavaScript lexer of internal/core/jstoken.go.  The code walks an index over the source; here
  the rest of the source is the state, and an access src[i+k] guarded by i+k < n is a pattern on it.
  A token's position is the length of what has been read.  Bytes from 0x80 on belong to identifiers.
\<close>

section \<open>Tokens and character classes\<close>

datatype jsTokenKind = jsTString | jsTNumber | jsTIdent | jsTPunct | jsTTemplate | jsTRegex

record jsToken =
  tok_Kind :: jsTokenKind
  tok_Val :: string
  tok_Pos :: nat

definition ch :: "nat \<Rightarrow> char" where
  "ch n = char_of n"

definition ord :: "char \<Rightarrow> nat" where
  "ord c = of_char c"

definition jsPunctOps :: "string list" where
  "jsPunctOps = [''>>>='', ''...'', ''==='', ''!=='', ''**='', ''<<='', ''>>='', ''>>>'', ''&&='', ''||='', ''??='',
     ''=>'', ''=='', ''!='', ''<='', ''>='', ''&&'', ''||'', ''??'', ''?.'', ''++'', ''--'',
     ''+='', ''-='', ''*='', ''/='', ''%='', ''&='', ''|='', ''^='', ''<<'', ''>>'']"

definition jsRegexPrecKw :: "string list" where
  "jsRegexPrecKw = [''return'', ''typeof'', ''instanceof'', ''in'', ''of'', ''new'', ''delete'', ''void'', ''case'',
     ''do'', ''else'', ''throw'', ''yield'', ''await'']"

definition isDecDigit :: "char \<Rightarrow> bool" where
  "isDecDigit b \<longleftrightarrow> 48 \<le> ord b \<and> ord b \<le> 57"

definition isOctDigit :: "char \<Rightarrow> bool" where
  "isOctDigit b \<longleftrightarrow> 48 \<le> ord b \<and> ord b \<le> 55"

definition isHexDigit :: "char \<Rightarrow> bool" where
  "isHexDigit b \<longleftrightarrow> 48 \<le> ord b \<and> ord b \<le> 57 \<or> 97 \<le> ord b \<and> ord b \<le> 102 \<or> 65 \<le> ord b \<and> ord b \<le> 70"

definition hexVal :: "char \<Rightarrow> nat" where
  "hexVal b = (if 48 \<le> ord b \<and> ord b \<le> 57 then ord b - 48
     else if 97 \<le> ord b \<and> ord b \<le> 102 then ord b - 97 + 10 else ord b - 65 + 10)"

definition parseHexPair :: "char \<Rightarrow> char \<Rightarrow> char option" where
  "parseHexPair a b = (if \<not> isHexDigit a \<or> \<not> isHexDigit b then None else Some (ch (hexVal a * 16 + hexVal b)))"

definition isIdentStart :: "char \<Rightarrow> bool" where
  "isIdentStart r \<longleftrightarrow> 97 \<le> ord r \<and> ord r \<le> 122 \<or> 65 \<le> ord r \<and> ord r \<le> 90 \<or> r = CHR ''_'' \<or> r = CHR ''$''"

definition isIdentPart :: "char \<Rightarrow> bool" where
  "isIdentPart r \<longleftrightarrow> isIdentStart r \<or> 48 \<le> ord r \<and> ord r \<le> 57"

text \<open>string(rune(v)): UTF-8, with U+FFFD for what is not a code point.\<close>

definition utf8 :: "int \<Rightarrow> string" where
  "utf8 v =
     (if v < 0 \<or> v > 0x10FFFF \<or> 0xD800 \<le> v \<and> v \<le> 0xDFFF then [ch 0xEF, ch 0xBF, ch 0xBD]
      else let n = nat v in
        if n < 0x80 then [ch n]
        else if n < 0x800 then [ch (0xC0 + n div 64), ch (0x80 + n mod 64)]
        else if n < 0x10000 then [ch (0xE0 + n div 4096), ch (0x80 + n div 64 mod 64), ch (0x80 + n mod 64)]
        else [ch (0xF0 + n div 262144), ch (0x80 + n div 4096 mod 64), ch (0x80 + n div 64 mod 64), ch (0x80 + n mod 64)])"

section \<open>Strings\<close>

definition bslash :: char where "bslash = ch 92"
definition newline :: char where "newline = ch 10"

text \<open>The accumulated code point of a braced escape is a 64-bit int, which may wrap.\<close>

definition brace_value :: "string \<Rightarrow> 64 word" where
  "brace_value ds = foldl (\<lambda>v d. v * 16 + word_of_nat (hexVal d)) 0 ds"

definition js_escape_x :: "string \<Rightarrow> string \<times> string" where
  "js_escape_x s =
     (case s of a # b # r \<Rightarrow> (case parseHexPair a b of Some v \<Rightarrow> ([v], r) | None \<Rightarrow> (''x'', s))
      | _ \<Rightarrow> (''x'', s))"

definition js_escape_brace :: "string \<Rightarrow> (string \<times> string) option" where
  "js_escape_brace t =
     (let ds = takeWhile isHexDigit t; v = brace_value ds
      in case dropWhile isHexDigit t of
           e # r \<Rightarrow> if e = CHR ''}'' \<and> sint v < 0x110000
             then Some (utf8 (sint (ucast v :: 32 word)), r) else None
         | [] \<Rightarrow> None)"

definition js_escape_u :: "string \<Rightarrow> string \<times> string" where
  "js_escape_u s =
     (if length s \<ge> 4 \<and> list_all isHexDigit (take 4 s)
      then (utf8 (int (foldl (\<lambda>v d. v * 16 + hexVal d) 0 (take 4 s))), drop 4 s)
      else case s of
        c # t \<Rightarrow> (case (if c = CHR ''{'' then js_escape_brace t else None) of
            Some res \<Rightarrow> res | None \<Rightarrow> (''u'', s))
      | [] \<Rightarrow> (''u'', s))"

text \<open>\<open>js_escape esc s\<close>: what the escape appends, and the rest of the source after it.\<close>

definition js_escape :: "char \<Rightarrow> string \<Rightarrow> string \<times> string" where
  "js_escape esc s =
     (if esc = CHR ''n'' then ([newline], s)
      else if esc = CHR ''t'' then ([ch 9], s)
      else if esc = CHR ''r'' then ([ch 13], s)
      else if esc = CHR ''b'' then ([ch 8], s)
      else if esc = CHR ''f'' then ([ch 12], s)
      else if esc = CHR ''v'' then ([ch 11], s)
      else if esc = CHR ''0'' then ([ch 0], s)
      else if esc = CHR ''x'' then js_escape_x s
      else if esc = CHR ''u'' then js_escape_u s
      else if esc = newline then ([], s)
      else ([esc], s))"

lemma dropWhile_Cons_length: "dropWhile P t = e # r \<Longrightarrow> length r < length t"
  by (metis length_Cons length_dropWhile_le less_Suc_eq_le Suc_le_eq)

lemma js_escape_x_length: "length (snd (js_escape_x s)) \<le> length s"
  by (simp add: js_escape_x_def split: list.split option.split)

lemma js_escape_brace_length: "js_escape_brace t = Some (out, r) \<Longrightarrow> length r < length t"
  by (auto simp: js_escape_brace_def Let_def dest: dropWhile_Cons_length split: list.splits if_splits)

lemma js_escape_u_length: "length (snd (js_escape_u s)) \<le> length s"
proof (cases s)
  case (Cons c t)
  then show ?thesis
    using js_escape_brace_length [of t]
    by (cases "js_escape_brace t") (auto simp: js_escape_u_def le_SucI less_imp_le)
qed (simp add: js_escape_u_def)

lemma js_escape_length: "length (snd (js_escape esc s)) \<le> length s"
  by (simp add: js_escape_def js_escape_x_length js_escape_u_length)

function js_string :: "char \<Rightarrow> string \<Rightarrow> string \<Rightarrow> string \<times> string" where
  "js_string quote [] b = (b, [])"
| "js_string quote (c # s) b =
     (if c = quote then (b, s)
      else if c = bslash \<and> s \<noteq> []
      then (case js_escape (hd s) (tl s) of (out, r) \<Rightarrow> js_string quote r (b @ out))
      else if c = newline then (b, c # s)
      else js_string quote s (b @ [c]))"
  by pat_completeness auto
termination
proof (relation "measure (\<lambda>(q, s, b). length s)", goal_cases)
  case (2 quote c s b x y)
  then have "length y \<le> length (tl s)" using js_escape_length [of "hd s" "tl s"] by (metis snd_conv)
  then show ?case by simp
qed auto

section \<open>Templates, numbers, regular expressions\<close>

fun js_template :: "string \<Rightarrow> nat \<Rightarrow> string \<Rightarrow> string \<times> string" where
  "js_template [] depth b = (b, [])"
| "js_template [c] depth b =
     (if depth = 0 \<and> c = CHR ''`'' then (b, [])
      else let depth = (if depth > 0 \<and> c = CHR ''{'' then depth + 1 else depth);
               depth = (if depth > 0 \<and> c = CHR ''}'' then depth - 1 else depth)
        in (if depth = 0 then b @ [c] else b, []))"
| "js_template (c # d # s) depth b =
     (if c = bslash then js_template s depth (if depth = 0 \<and> d \<noteq> CHR ''`'' then b @ [d] else b)
      else if depth = 0 \<and> c = CHR ''`'' then (b, d # s)
      else if c = CHR ''$'' \<and> d = CHR ''{'' then js_template s (depth + 1) b
      else let depth = (if depth > 0 \<and> c = CHR ''{'' then depth + 1 else depth);
               depth = (if depth > 0 \<and> c = CHR ''}'' then depth - 1 else depth)
        in js_template (d # s) depth (if depth = 0 then b @ [c] else b))"

definition js_exponent :: "string \<Rightarrow> string \<times> string" where
  "js_exponent s =
     (case s of [] \<Rightarrow> ([], [])
      | e # r \<Rightarrow>
        if e = CHR ''e'' \<or> e = CHR ''E'' then
          (let sign = (case r of x # _ \<Rightarrow> if x = CHR ''+'' \<or> x = CHR ''-'' then [x] else [] | [] \<Rightarrow> []);
               r1 = drop (length sign) r;
               ds = takeWhile isDecDigit r1
           in if ds \<noteq> [] then (e # sign @ ds, dropWhile isDecDigit r1) else ([], s))
        else ([], s))"

definition js_decimal :: "string \<Rightarrow> string \<times> string" where
  "js_decimal s =
     (let digit = (\<lambda>c. isDecDigit c \<or> c = CHR ''_'');
          whole = takeWhile digit s; r = dropWhile digit s;
          (frac, r) = (case r of x # t \<Rightarrow> if x = CHR ''.''
              then (x # takeWhile digit t, dropWhile digit t) else ([], r) | [] \<Rightarrow> ([], r));
          (expo, r) = js_exponent r
      in (whole @ frac @ expo, r))"

definition js_number :: "string \<Rightarrow> string \<times> string" where
  "js_number s =
     (let run = (\<lambda>ok t. (take 2 s @ takeWhile ok t, dropWhile ok t));
          (v, r) = (case s of
             z # x # t \<Rightarrow>
               if z = CHR ''0'' \<and> (x = CHR ''x'' \<or> x = CHR ''X'') then run (\<lambda>c. isHexDigit c \<or> c = CHR ''_'') t
               else if z = CHR ''0'' \<and> (x = CHR ''o'' \<or> x = CHR ''O'') then run (\<lambda>c. isOctDigit c \<or> c = CHR ''_'') t
               else if z = CHR ''0'' \<and> (x = CHR ''b'' \<or> x = CHR ''B'')
               then run (\<lambda>c. c = CHR ''0'' \<or> c = CHR ''1'' \<or> c = CHR ''_'') t
               else js_decimal s
           | _ \<Rightarrow> js_decimal s)
      in case r of
           e # t \<Rightarrow> if e = CHR ''n'' \<or> e = CHR ''N'' then (v @ [e], t) else (v, r)
         | [] \<Rightarrow> (v, r))"

text \<open>The body of a regular expression after its slash; \<open>None\<close> when it is a division after all.\<close>

fun js_regex :: "string \<Rightarrow> bool \<Rightarrow> string \<Rightarrow> (string \<times> string) option" where
  "js_regex [] inClass b = None"
| "js_regex (c # s) inClass b =
     (if c = bslash \<and> s \<noteq> [] then (case s of d # r \<Rightarrow> js_regex r inClass (b @ [c, d]) | [] \<Rightarrow> None)
      else if c = newline then None
      else if inClass then js_regex s (if c = CHR '']'' then False else inClass) (b @ [c])
      else if c = CHR ''['' then js_regex s True (b @ [c])
      else if c = CHR ''/'' then Some (b @ c # takeWhile isIdentPart s, dropWhile isIdentPart s)
      else js_regex s inClass (b @ [c]))"

fun skip_block :: "string \<Rightarrow> string" where
  "skip_block (c # d # s) = (if c = CHR ''*'' \<and> d = CHR ''/'' then s else skip_block (d # s))"
| "skip_block s = []"

section \<open>The lexer\<close>

definition prevIsRegexPos :: "jsToken list \<Rightarrow> bool" where
  "prevIsRegexPos toks =
     (if length toks = 0 then True
      else let prev = last toks in
        case tok_Kind prev of
          jsTIdent \<Rightarrow> tok_Val prev \<in> set jsRegexPrecKw
        | jsTPunct \<Rightarrow> tok_Val prev \<notin> {'')'', '']'', ''}'', ''++'', ''--''}
        | _ \<Rightarrow> False)"

definition is_ident_byte :: "char \<Rightarrow> bool" where
  "is_ident_byte c \<longleftrightarrow> ord c \<ge> 0x80 \<or> isIdentPart c"

datatype lex_step = Skip string | Emit jsTokenKind string string

definition emit :: "jsTokenKind \<Rightarrow> string \<times> string \<Rightarrow> lex_step" where
  "emit k vr = Emit k (fst vr) (snd vr)"

text \<open>A slash that opens no comment, and everything that is left at the end of the loop's body.\<close>

definition lex_slash :: "jsToken list \<Rightarrow> string \<Rightarrow> lex_step" where
  "lex_slash toks s =
     (case (if prevIsRegexPos toks then js_regex s False [CHR ''/''] else None) of
        Some vr \<Rightarrow> emit jsTRegex vr
      | None \<Rightarrow> Emit jsTPunct ''/'' s)"

definition lex_punct :: "char \<Rightarrow> string \<Rightarrow> lex_step" where
  "lex_punct c s =
     (case filter (\<lambda>op. prefix op (c # s)) jsPunctOps of
        op # _ \<Rightarrow> Emit jsTPunct op (drop (length op) (c # s))
      | [] \<Rightarrow> Emit jsTPunct [c] s)"

text \<open>
  One round of the main loop at a non-empty source: skip to a rest, or emit a token with its value
  and the rest.
\<close>

definition lex_one :: "jsToken list \<Rightarrow> char \<Rightarrow> string \<Rightarrow> lex_step" where
  "lex_one toks c s =
     (if is_space c then Skip s
      else if c = CHR ''/'' \<and> s \<noteq> [] \<and> hd s = CHR ''/'' then Skip (dropWhile (\<lambda>x. x \<noteq> newline) s)
      else if c = CHR ''/'' \<and> s \<noteq> [] \<and> hd s = CHR ''*'' then Skip (skip_block (tl s))
      else if c = ch 39 \<or> c = ch 34 then emit jsTString (js_string c s [])
      else if c = CHR ''`'' then emit jsTTemplate (js_template s 0 [])
      else if isDecDigit c \<or> c = CHR ''.'' \<and> s \<noteq> [] \<and> isDecDigit (hd s)
      then emit jsTNumber (js_number (c # s))
      else if isIdentStart c \<or> ord c \<ge> 0x80
      then Emit jsTIdent (takeWhile is_ident_byte (c # s)) (dropWhile is_ident_byte (c # s))
      else if c = CHR ''/'' then lex_slash toks s
      else lex_punct c s)"

section \<open>Progress\<close>

lemma suffix_tl_trans: "suffix r s \<Longrightarrow> suffix r (c # s)"
  by (rule suffix_ConsI)

lemma dropWhile_suffix: "suffix (dropWhile P s) s"
  by (rule suffix_dropWhile)

lemma dropWhile_Cons_suffix: "dropWhile P t = e # r \<Longrightarrow> suffix r t"
  by (metis dropWhile_suffix suffix_ConsD)

lemma js_escape_suffix: "suffix (snd (js_escape esc s)) s"
proof -
  have "suffix (snd (js_escape_x s)) s"
    by (auto simp: js_escape_x_def intro: suffix_ConsI split: list.split option.split)
  moreover have "suffix (snd (js_escape_u s)) s"
  proof (cases s)
    case (Cons c t)
    have "js_escape_brace t = Some (out, r) \<Longrightarrow> suffix r t" for out r
      by (auto simp: js_escape_brace_def Let_def dest: dropWhile_Cons_suffix split: list.splits if_splits)
    then show ?thesis
      using Cons by (cases "js_escape_brace t") (auto simp: js_escape_u_def intro: suffix_ConsI suffix_drop)
  qed (simp add: js_escape_u_def)
  ultimately show ?thesis by (simp add: js_escape_def)
qed

lemma js_string_suffix: "js_string q s b = (v, r) \<Longrightarrow> suffix r s"
proof (induction q s b rule: js_string.induct)
  case (2 quote c s b)
  show ?case
  proof (cases "c = quote \<or> \<not> (c = bslash \<and> s \<noteq> [])")
    case True
    then show ?thesis using 2 by (auto simp: suffix_ConsI split: if_splits)
  next
    case False
    obtain out r' where e: "js_escape (hd s) (tl s) = (out, r')" by fastforce
    have "js_string quote r' (b @ out) = (v, r)" using False 2(3) e by simp
    then have "suffix r r'" using 2(1) False e by (metis (no_types))
    moreover have "suffix r' (tl s)" using js_escape_suffix [of "hd s" "tl s"] e by simp
    ultimately show ?thesis
      using False by (metis suffix_ConsI suffix_order.trans suffix_tl)
  qed
qed simp

lemma js_template_suffix: "js_template s d b = (v, r) \<Longrightarrow> suffix r s"
  by (induction s d b rule: js_template.induct)
    (auto simp: Let_def suffix_ConsI split: if_splits)

lemma js_exponent_parts: "js_exponent s = (v, r) \<Longrightarrow> v @ r = s"
proof (cases s)
  case (Cons e t)
  assume a: "js_exponent s = (v, r)"
  obtain sign where sign: "sign = (case t of x # _ \<Rightarrow> if x = CHR ''+'' \<or> x = CHR ''-'' then [x] else [] | [] \<Rightarrow> [])" by simp
  then have "sign @ drop (length sign) t = t" by (auto split: list.splits)
  then show ?thesis
    using a Cons by (auto simp: js_exponent_def Let_def sign [symmetric] split: if_splits)
qed (simp add: js_exponent_def)

lemma js_decimal_parts: "js_decimal s = (v, r) \<Longrightarrow> v @ r = s"
proof -
  assume a: "js_decimal s = (v, r)"
  let ?d = "\<lambda>c. isDecDigit c \<or> c = CHR ''_''"
  obtain frac r1 where f: "(case dropWhile ?d s of x # t \<Rightarrow> if x = CHR ''.''
      then (x # takeWhile ?d t, dropWhile ?d t) else ([], dropWhile ?d s) | [] \<Rightarrow> ([], dropWhile ?d s)) = (frac, r1)"
    by fastforce
  then have "frac @ r1 = dropWhile ?d s" by (auto split: list.splits if_splits)
  moreover obtain expo r2 where e: "js_exponent r1 = (expo, r2)" by fastforce
  moreover have "expo @ r2 = r1" using e by (rule js_exponent_parts)
  ultimately show ?thesis
    using a f by (simp add: js_decimal_def Let_def) (metis append.assoc takeWhile_dropWhile_id)
qed

lemma js_number_parts: "js_number s = (v, r) \<Longrightarrow> v @ r = s"
proof -
  assume a: "js_number s = (v, r)"
  define run where "run = (\<lambda>ok t. (take 2 s @ takeWhile ok t, dropWhile ok t))"
  define vr where "vr = (case s of
             z # x # t \<Rightarrow>
               if z = CHR ''0'' \<and> (x = CHR ''x'' \<or> x = CHR ''X'') then run (\<lambda>c. isHexDigit c \<or> c = CHR ''_'') t
               else if z = CHR ''0'' \<and> (x = CHR ''o'' \<or> x = CHR ''O'') then run (\<lambda>c. isOctDigit c \<or> c = CHR ''_'') t
               else if z = CHR ''0'' \<and> (x = CHR ''b'' \<or> x = CHR ''B'')
               then run (\<lambda>c. c = CHR ''0'' \<or> c = CHR ''1'' \<or> c = CHR ''_'') t
               else js_decimal s
           | _ \<Rightarrow> js_decimal s)"
  have vr: "fst vr @ snd vr = s"
    unfolding vr_def using js_decimal_parts [of s "fst (js_decimal s)" "snd (js_decimal s)"]
    by (auto simp: run_def split: list.split)
  have "(v, r) = (case snd vr of e # t \<Rightarrow> if e = CHR ''n'' \<or> e = CHR ''N'' then (fst vr @ [e], t) else vr | [] \<Rightarrow> vr)"
    using a unfolding js_number_def Let_def run_def [symmetric] vr_def [symmetric]
    by (auto split: prod.splits list.splits)
  then show ?thesis using vr by (auto split: list.splits if_splits)
qed

lemma js_regex_parts: "js_regex s inClass b = Some (v, r) \<Longrightarrow> v @ r = b @ s"
proof (induction s inClass b rule: js_regex.induct)
  case (2 c s inClass b)
  show ?case
  proof (cases "c = bslash \<and> s \<noteq> []")
    case True
    then obtain d t where "s = d # t" by (cases s) auto
    with True 2 show ?thesis by simp
  next
    case False
    with 2 show ?thesis by (simp split: if_split_asm) auto
  qed
qed simp

lemma skip_block_suffix: "suffix (skip_block s) s"
  by (induction s rule: skip_block.induct) (auto simp: suffix_ConsI)

lemma ops_nonempty: "op \<in> set jsPunctOps \<Longrightarrow> op \<noteq> []"
  by (auto simp: jsPunctOps_def)

lemma js_regex_grows: "js_regex s inClass b = Some (v, r) \<Longrightarrow> prefix b v"
proof (induction s inClass b rule: js_regex.induct)
  case (2 c s inClass b)
  show ?case
  proof (cases "c = bslash \<and> s \<noteq> []")
    case True
    then obtain d t where "s = d # t" by (cases s) auto
    with True 2 show ?thesis by (simp add: append_prefixD)
  next
    case False
    with 2 show ?thesis by (simp split: if_split_asm) (auto simp: append_prefixD)
  qed
qed simp

lemma js_number_nonempty:
  assumes "isDecDigit c \<or> c = CHR ''.''" and "js_number (c # s) = (v, r)"
  shows "v \<noteq> []"
proof -
  have d: "fst (js_decimal (c # s)) \<noteq> []"
    using assms(1) by (auto simp: js_decimal_def Let_def split: prod.split)
  show ?thesis
    using assms(2) d unfolding js_number_def Let_def
    by (auto split: list.splits prod.splits if_splits)
qed

lemma append_suffix: "v @ r = c # s \<Longrightarrow> v \<noteq> [] \<Longrightarrow> suffix r s"
  by (cases v) (auto simp: suffix_def)

lemma lex_parts_emit: "emit k vr \<noteq> Skip r" "lex_slash toks s \<noteq> Skip r" "lex_punct c s \<noteq> Skip r"
  by (simp_all add: emit_def lex_slash_def lex_punct_def split: option.split list.split)

lemma lex_one_Skip: "lex_one toks c s = Skip r \<Longrightarrow> suffix r s"
proof -
  assume a: "lex_one toks c s = Skip r"
  have "suffix (skip_block (tl s)) s" by (metis skip_block_suffix suffix_order.trans suffix_tl)
  then show ?thesis
    using a by (auto simp: lex_one_def lex_parts_emit dropWhile_suffix split: if_split_asm)
qed

definition literal_kind :: "jsTokenKind \<Rightarrow> bool" where
  "literal_kind k \<longleftrightarrow> k \<in> {jsTNumber, jsTIdent, jsTPunct, jsTRegex}"

definition good_step :: "char \<Rightarrow> string \<Rightarrow> lex_step \<Rightarrow> bool" where
  "good_step c s st = (case st of Skip r \<Rightarrow> suffix r s
     | Emit k v r \<Rightarrow> suffix r s \<and> (literal_kind k \<longrightarrow> v @ r = c # s))"

lemma good_if: "(P \<Longrightarrow> good_step c s A) \<Longrightarrow> (\<not> P \<Longrightarrow> good_step c s B) \<Longrightarrow> good_step c s (if P then A else B)"
  by simp

lemma good_number:
  assumes "isDecDigit c \<or> c = CHR ''.''"
  shows "good_step c s (emit jsTNumber (js_number (c # s)))"
  using js_number_parts [of "c # s"] js_number_nonempty [OF assms, of s] append_suffix
  by (cases "js_number (c # s)") (auto simp: good_step_def emit_def)

lemma good_slash: "good_step (CHR ''/'') s (lex_slash toks s)"
proof -
  have "v @ r = CHR ''/'' # s \<and> suffix r s" if "js_regex s False [CHR ''/''] = Some (v, r)" for v r
    using js_regex_parts [OF that] js_regex_grows [OF that] append_suffix [of v r "CHR ''/''" s]
    by (cases v) auto
  then show ?thesis
    by (auto simp: good_step_def lex_slash_def emit_def split: option.split)
qed

lemma good_punct: "good_step c s (lex_punct c s)"
proof (cases "filter (\<lambda>op. prefix op (c # s)) jsPunctOps")
  case (Cons op ops)
  then have "op \<in> set (filter (\<lambda>op. prefix op (c # s)) jsPunctOps)" by simp
  then have op: "op \<in> set jsPunctOps" "prefix op (c # s)" by simp_all
  have "op \<noteq> []" using op(1) by (rule ops_nonempty)
  then obtain d op' where "op = d # op'" by (cases op) simp
  with op(2) Cons show ?thesis
    by (auto simp: good_step_def lex_punct_def suffix_drop prefix_def)
qed (simp add: good_step_def lex_punct_def)

lemma good_lex_one: "good_step c s (lex_one toks c s)"
proof -
  have skip: "suffix (skip_block (tl s)) s" by (metis skip_block_suffix suffix_order.trans suffix_tl)
  have str: "good_step c s (emit jsTString (js_string c s []))"
    using js_string_suffix [of c s "[]"] by (cases "js_string c s []") (simp add: good_step_def emit_def literal_kind_def)
  have tmp: "good_step c s (emit jsTTemplate (js_template s 0 []))"
    using js_template_suffix [of s 0 "[]"] by (cases "js_template s 0 []") (simp add: good_step_def emit_def literal_kind_def)
  have ident: "good_step c s (Emit jsTIdent (takeWhile is_ident_byte (c # s)) (dropWhile is_ident_byte (c # s)))"
    if "isIdentStart c \<or> ord c \<ge> 0x80"
    using that by (auto simp: good_step_def is_ident_byte_def isIdentPart_def dropWhile_suffix)
  show ?thesis
    unfolding lex_one_def
  proof (intro good_if)
    show "good_step c s (Skip s)" "good_step c s (Skip (dropWhile (\<lambda>x. x \<noteq> newline) s))"
      "good_step c s (Skip (skip_block (tl s)))"
      using skip by (simp_all add: good_step_def dropWhile_suffix)
    show "good_step c s (emit jsTNumber (js_number (c # s)))" if "isDecDigit c \<or> c = CHR ''.'' \<and> s \<noteq> [] \<and> isDecDigit (hd s)"
      using that by (intro good_number) auto
    show "good_step c s (lex_slash toks s)" if "c = CHR ''/''"
      using that good_slash by simp
  qed (use str tmp ident good_punct in simp_all)
qed

lemma lex_one_Emit: "lex_one toks c s = Emit k v r \<Longrightarrow> suffix r s \<and> (literal_kind k \<longrightarrow> v @ r = c # s)"
  using good_lex_one [of c s toks] by (simp add: good_step_def)

function lex_loop :: "nat \<Rightarrow> jsToken list \<Rightarrow> string \<Rightarrow> jsToken list" where
  "lex_loop n toks [] = toks"
| "lex_loop n toks (c # s) =
     (case lex_one toks c s of
        Skip r \<Rightarrow> lex_loop n toks r
      | Emit k v r \<Rightarrow>
          lex_loop n (toks @ [\<lparr>tok_Kind = k, tok_Val = v, tok_Pos = n - length (c # s)\<rparr>]) r)"
  by pat_completeness auto
termination
  by (relation "measure (\<lambda>(n, toks, s). length s)")
    (auto dest!: lex_one_Skip lex_one_Emit suffix_length_le)

definition lexJS :: "string \<Rightarrow> jsToken list" where
  "lexJS src = lex_loop (length src) [] src"

section \<open>Positions and source text\<close>

definition tokens_in :: "string \<Rightarrow> nat \<Rightarrow> jsToken list \<Rightarrow> bool" where
  "tokens_in src m toks \<longleftrightarrow> sorted_wrt (<) (map tok_Pos toks) \<and> (\<forall>t \<in> set toks. tok_Pos t < m \<and>
     (literal_kind (tok_Kind t) \<longrightarrow> take (length (tok_Val t)) (drop (tok_Pos t) src) = tok_Val t))"

lemma lex_loop_tokens_in:
  "suffix s src \<Longrightarrow> n = length src \<Longrightarrow> tokens_in src (n - length s) toks \<Longrightarrow> tokens_in src n (lex_loop n toks s)"
proof (induction n toks s rule: lex_loop.induct)
  case (1 n toks)
  then show ?case by simp
next
  case (2 n toks c s)
  obtain pre where src: "src = pre @ c # s" using 2(3) by (auto simp: suffix_def)
  have mono: "tokens_in src (n - length r) toks'" if "tokens_in src m toks'" "m \<le> n - length r" for m r toks'
    using that by (auto simp: tokens_in_def)
  show ?case
  proof (cases "lex_one toks c s")
    case (Skip r)
    have r: "suffix r s" using Skip by (rule lex_one_Skip)
    have "suffix r src" using suffix_order.trans [OF r] 2(3) by (metis suffix_ConsI suffix_ConsD)
    moreover have "tokens_in src (n - length r) toks"
      using mono [OF 2(5), of r] suffix_length_le [OF r] by (simp add: diff_le_mono2)
    ultimately show ?thesis using 2(1) [OF Skip _ 2(4)] Skip by simp
  next
    case (Emit k v r)
    let ?t = "\<lparr>tok_Kind = k, tok_Val = v, tok_Pos = n - length (c # s)\<rparr>"
    have r: "suffix r s" and lit: "literal_kind k \<Longrightarrow> v @ r = c # s" using lex_one_Emit [OF Emit] by auto
    have "suffix r src" using suffix_order.trans [OF r] 2(3) by (metis suffix_ConsI suffix_ConsD)
    moreover have "take (length v) (drop (n - length (c # s)) src) = v" if "literal_kind k"
      using lit [OF that] src 2(4) by (metis append_eq_conv_conj diff_add_inverse2 length_append)
    then have "tokens_in src (n - length r) (toks @ [?t])"
      using 2(4,5) src suffix_length_le [OF r] by (auto simp: tokens_in_def sorted_wrt_append)
    ultimately show ?thesis using 2(2) [OF Emit _ 2(4)] Emit by simp
  qed
qed

section \<open>Printed token sequences\<close>

text \<open>
  The specification side: the representations a seed call may be written in.  A string carries its
  quote character, a number its text, and any white space may stand before a token.
\<close>

datatype jtok = JStr char string | JNum string | JId string | JPunct char

fun jtok_text :: "jtok \<Rightarrow> string" where
  "jtok_text (JStr q v) = q # v @ [q]"
| "jtok_text (JNum t) = t"
| "jtok_text (JId x) = x"
| "jtok_text (JPunct c) = [c]"

fun jtok_kv :: "jtok \<Rightarrow> jsTokenKind \<times> string" where
  "jtok_kv (JStr q v) = (jsTString, v)"
| "jtok_kv (JNum t) = (jsTNumber, t)"
| "jtok_kv (JId x) = (jsTIdent, x)"
| "jtok_kv (JPunct c) = (jsTPunct, [c])"

definition js_brackets :: string where
  "js_brackets = ''()[],''"

definition plain_for :: "char \<Rightarrow> string \<Rightarrow> bool" where
  "plain_for q v \<longleftrightarrow> q \<notin> set v \<and> bslash \<notin> set v \<and> newline \<notin> set v"

definition number_text :: "string \<Rightarrow> bool" where
  "number_text t \<longleftrightarrow> t \<noteq> [] \<and> list_all isDecDigit t \<or>
     (\<exists>h. t = ''0x'' @ h \<and> h \<noteq> [] \<and> list_all isHexDigit h)"

fun jtok_ok :: "jtok \<Rightarrow> bool" where
  "jtok_ok (JStr q v) \<longleftrightarrow> (q = ch 39 \<or> q = ch 34) \<and> plain_for q v"
| "jtok_ok (JNum t) \<longleftrightarrow> number_text t"
| "jtok_ok (JId x) \<longleftrightarrow> x \<noteq> [] \<and> isIdentStart (hd x) \<and> list_all isIdentPart x"
| "jtok_ok (JPunct c) \<longleftrightarrow> c \<in> set js_brackets"

fun is_word :: "jtok \<Rightarrow> bool" where
  "is_word (JNum t) = True"
| "is_word (JId x) = True"
| "is_word _ = False"

fun print_toks :: "(string \<times> jtok) list \<Rightarrow> string" where
  "print_toks [] = []"
| "print_toks ((ws, t) # ts) = ws @ jtok_text t @ print_toks ts"

fun spaced :: "(string \<times> jtok) list \<Rightarrow> bool" where
  "spaced ((w1, t1) # (w2, t2) # ts) \<longleftrightarrow> (is_word t1 \<and> is_word t2 \<longrightarrow> w2 \<noteq> []) \<and> spaced ((w2, t2) # ts)"
| "spaced _ \<longleftrightarrow> True"

definition printable :: "(string \<times> jtok) list \<Rightarrow> bool" where
  "printable ts \<longleftrightarrow> (\<forall>(ws, t) \<in> set ts. list_all is_space ws \<and> jtok_ok t) \<and> spaced ts"

definition kv :: "jsToken \<Rightarrow> jsTokenKind \<times> string" where
  "kv t = (tok_Kind t, tok_Val t)"

text \<open>What may follow a word without becoming part of it.\<close>

definition stops :: "string \<Rightarrow> bool" where
  "stops r \<longleftrightarrow> r = [] \<or> (\<not> is_ident_byte (hd r) \<and> hd r \<noteq> CHR ''.'')"

lemma ord_lits [simp]: "ord (CHR ''0'') = 48" "ord (CHR ''a'') = 97" "ord (CHR ''_'') = 95" "ord (CHR ''$'') = 36" "ord (CHR ''/'') = 47" "ord (CHR ''.'') = 46" "ord (CHR ''`'') = 96" "ord (CHR ''x'') = 120" "ord (CHR ''X'') = 88" "ord (CHR ''o'') = 111" "ord (CHR ''O'') = 79" "ord (CHR ''b'') = 98" "ord (CHR ''B'') = 66" "ord (CHR ''e'') = 101" "ord (CHR ''E'') = 69" "ord (CHR ''n'') = 110" "ord (CHR ''N'') = 78" "ord (CHR '','') = 44" "ord (CHR ''('') = 40" "ord (CHR '')'') = 41" "ord (CHR ''['') = 91" "ord (CHR '']'') = 93" "ord (CHR ''{'') = 123" "ord (CHR ''}'') = 125" "ord (CHR ''*'') = 42" "ord (CHR '';'') = 59"
  by (simp_all add: ord_def)

lemma ord_ch [simp]: "ord (ch n) = n mod 256"
  by (simp add: ord_def ch_def)

lemma char_ord: "c = d \<longleftrightarrow> ord c = ord d"
  by (simp add: ord_def)

lemma is_space_ord: "is_space c \<longleftrightarrow> ord c \<in> {9, 10, 11, 12, 13, 32}"
  by (simp add: is_space_def ord_def)

lemmas char_class_defs = is_ident_byte_def isIdentPart_def isIdentStart_def isDecDigit_def isHexDigit_def
  is_space_ord char_ord

lemma not_ident_byteD:
  assumes "\<not> is_ident_byte c"
  shows "\<not> isDecDigit c" "\<not> isHexDigit c" "c \<noteq> CHR ''_''" "c \<noteq> CHR ''e''" "c \<noteq> CHR ''E''"
    "c \<noteq> CHR ''n''" "c \<noteq> CHR ''N''" "c \<noteq> CHR ''x''" "c \<noteq> CHR ''X''" "c \<noteq> CHR ''o''" "c \<noteq> CHR ''O''"
    "c \<noteq> CHR ''b''" "c \<noteq> CHR ''B''" "\<not> isIdentPart c"
  using assms by (auto simp: char_class_defs)

lemma lex_loop_space: "list_all is_space ws \<Longrightarrow> lex_loop n toks (ws @ s) = lex_loop n toks s"
  by (induction ws) (simp_all add: lex_one_def)

lemma js_string_plain: "plain_for q v \<Longrightarrow> js_string q (v @ q # s) b = (b @ v, s)"
  by (induction v arbitrary: b) (auto simp: plain_for_def)

lemma quote_class:
  assumes "q = ch 39 \<or> q = ch 34"
  shows "\<not> is_space q" "q \<noteq> CHR ''/''" "\<not> is_ident_byte q" "q \<noteq> CHR ''.''"
  using assms by (auto simp: char_class_defs)

lemma lex_one_str:
  assumes "jtok_ok (JStr q v)"
  shows "lex_one toks q (v @ q # s) = Emit jsTString v s"
  using assms quote_class [of q] by (auto simp: lex_one_def emit_def js_string_plain)

lemma takeWhile_stop: "list_all P t \<Longrightarrow> r = [] \<or> \<not> P (hd r) \<Longrightarrow> takeWhile P (t @ r) = t \<and> dropWhile P (t @ r) = r"
  by (cases r) (auto simp: list_all_iff takeWhile_append2 dropWhile_append2)

lemma digit_class:
  assumes "isDecDigit c"
  shows "\<not> is_space c" "c \<noteq> CHR ''/''" "c \<noteq> ch 39" "c \<noteq> ch 34" "c \<noteq> CHR ''`''"
  using assms by (auto simp: char_class_defs)

lemma ident_class:
  assumes "isIdentStart c"
  shows "\<not> is_space c" "c \<noteq> CHR ''/''" "c \<noteq> ch 39" "c \<noteq> ch 34" "c \<noteq> CHR ''`''" "\<not> isDecDigit c" "c \<noteq> CHR ''.''"
  using assms by (auto simp: char_class_defs)

lemma js_decimal_digits:
  assumes "list_all isDecDigit t" and "stops r"
  shows "js_decimal (t @ r) = (t, r)"
proof -
  let ?d = "\<lambda>c. isDecDigit c \<or> c = CHR ''_''"
  have "takeWhile ?d (t @ r) = t \<and> dropWhile ?d (t @ r) = r"
    using assms not_ident_byteD by (intro takeWhile_stop) (auto simp: list_all_iff stops_def)
  then have tw: "takeWhile ?d (t @ r) = t" and dw: "dropWhile ?d (t @ r) = r" by auto
  have "js_exponent r = ([], r)"
    using assms(2) not_ident_byteD by (cases r) (auto simp: js_exponent_def stops_def)
  moreover have "(case r of x # u \<Rightarrow> if x = CHR ''.'' then (x # takeWhile ?d u, dropWhile ?d u) else ([], r) | [] \<Rightarrow> ([], r)) = ([], r)"
    using assms(2) by (cases r) (auto simp: stops_def)
  ultimately show ?thesis
    unfolding js_decimal_def Let_def tw dw by simp
qed

lemma js_number_text:
  assumes "number_text t" and "stops r"
  shows "js_number (t @ r) = (t, r)"
proof -
  have nosuf: "(case r of e # u \<Rightarrow> if e = CHR ''n'' \<or> e = CHR ''N'' then (v @ [e], u) else (v, r) | [] \<Rightarrow> (v, r)) = (v, r)" for v
    using assms(2) not_ident_byteD by (cases r) (auto simp: stops_def)
  from assms(1) consider (dec) "t \<noteq> []" "list_all isDecDigit t"
    | (hex) h where "t = ''0x'' @ h" "list_all isHexDigit h" by (auto simp: number_text_def)
  then show ?thesis
  proof cases
    case dec
    have x: "\<not> isDecDigit (CHR ''x'')" "\<not> isDecDigit (CHR ''X'')" "\<not> isDecDigit (CHR ''o'')"
      "\<not> isDecDigit (CHR ''O'')" "\<not> isDecDigit (CHR ''b'')" "\<not> isDecDigit (CHR ''B'')"
      by (simp_all add: isDecDigit_def)
    have "js_number (t @ r) = (case js_decimal (t @ r) of (v, r) \<Rightarrow>
        case r of e # u \<Rightarrow> if e = CHR ''n'' \<or> e = CHR ''N'' then (v @ [e], u) else (v, r) | [] \<Rightarrow> (v, r))"
    proof (cases "t @ r")
      case (Cons z u)
      show ?thesis
      proof (cases u)
        case (Cons y w)
        have "y \<notin> {CHR ''x'', CHR ''X'', CHR ''o'', CHR ''O'', CHR ''b'', CHR ''B''}"
        proof (cases "length t = 1")
          case True
          then have "r = y # w" using \<open>t @ r = z # u\<close> Cons by (auto simp: length_Suc_conv)
          then show ?thesis using assms(2) not_ident_byteD [of y] by (auto simp: stops_def)
        next
          case False
          then have "y \<in> set t" using dec(1) \<open>t @ r = z # u\<close> Cons
            by (cases t; cases "tl t") auto
          then show ?thesis using dec(2) x by (auto simp: list_all_iff)
        qed
        then show ?thesis using \<open>t @ r = z # u\<close> Cons by (simp add: js_number_def Let_def)
      qed (use \<open>t @ r = z # u\<close> in \<open>simp add: js_number_def Let_def\<close>)
    qed (use dec in simp)
    then show ?thesis using js_decimal_digits [OF dec(2) assms(2)] nosuf by simp
  next
    case hex
    let ?p = "\<lambda>c. isHexDigit c \<or> c = CHR ''_''"
    have "takeWhile ?p (h @ r) = h \<and> dropWhile ?p (h @ r) = r"
      using hex assms(2) not_ident_byteD by (intro takeWhile_stop) (auto simp: list_all_iff stops_def)
    then show ?thesis using hex nosuf [of t] by (auto simp: js_number_def Let_def split: list.splits)
  qed
qed

lemma number_text_hd: "number_text t \<Longrightarrow> \<exists>c u. t = c # u \<and> isDecDigit c"
  by (cases t) (auto simp: number_text_def isDecDigit_def)

lemma lex_one_num:
  assumes "number_text (c # u)" and "stops r"
  shows "lex_one toks c (u @ r) = Emit jsTNumber (c # u) r"
proof -
  have "isDecDigit c" using number_text_hd [OF assms(1)] by simp
  then show ?thesis
    using js_number_text [OF assms] digit_class [of c] by (simp add: lex_one_def emit_def)
qed

lemma lex_one_id:
  assumes "isIdentStart c" and "list_all isIdentPart (c # u)" and "stops r"
  shows "lex_one toks c (u @ r) = Emit jsTIdent (c # u) r"
proof -
  have p: "list_all is_ident_byte (c # u)" using assms(2) by (auto simp: list_all_iff is_ident_byte_def)
  have "takeWhile is_ident_byte ((c # u) @ r) = c # u \<and> dropWhile is_ident_byte ((c # u) @ r) = r"
    using p assms(3) by (intro takeWhile_stop) (auto simp: stops_def)
  then show ?thesis
    using assms(1) ident_class [OF assms(1)] by (simp add: lex_one_def)
qed

lemma bracket_class:
  assumes "c \<in> set js_brackets"
  shows "\<not> is_space c" "c \<noteq> CHR ''/''" "c \<noteq> ch 39" "c \<noteq> ch 34" "c \<noteq> CHR ''`''" "\<not> isDecDigit c" "c \<noteq> CHR ''.''"
    "\<not> isIdentStart c" "\<not> ord c \<ge> 0x80" "\<not> is_ident_byte c"
  using assms by (auto simp: js_brackets_def char_class_defs)

lemma lex_one_bracket:
  assumes "c \<in> set js_brackets"
  shows "lex_one toks c s = Emit jsTPunct [c] s"
proof -
  have "op \<in> set jsPunctOps \<Longrightarrow> \<not> prefix op (c # s)" for op
    using assms by (auto simp: jsPunctOps_def js_brackets_def)
  then have "filter (\<lambda>op. prefix op (c # s)) jsPunctOps = []" by (auto simp: filter_empty_conv)
  then show ?thesis using bracket_class [OF assms] by (simp add: lex_one_def lex_punct_def)
qed

lemma lex_loop_tok:
  assumes "jtok_ok t" and "is_word t \<Longrightarrow> stops r"
  shows "\<exists>pos. lex_loop n toks (jtok_text t @ r) =
    lex_loop n (toks @ [\<lparr>tok_Kind = fst (jtok_kv t), tok_Val = snd (jtok_kv t), tok_Pos = pos\<rparr>]) r"
proof (cases t)
  case (JStr q v)
  then show ?thesis using lex_one_str [of q v toks r] assms(1) by auto
next
  case (JNum u)
  then obtain c w where "u = c # w" using assms(1) number_text_hd [of u] by auto
  then show ?thesis using JNum lex_one_num [of c w r toks] assms by auto
next
  case (JId x)
  then obtain c w where "x = c # w" using assms(1) by (cases x) auto
  then show ?thesis using JId lex_one_id [of c w r toks] assms by auto
next
  case (JPunct c)
  then show ?thesis using lex_one_bracket [of c toks r] assms(1) by auto
qed

lemma stops_next:
  assumes "printable ((ws, t) # ts)" and "list_all is_space wsEnd" and "is_word t"
  shows "stops (print_toks ts @ wsEnd)"
proof -
  have sp: "\<not> is_ident_byte c \<and> c \<noteq> CHR ''.''" if "is_space c" for c
    using that by (auto simp: char_class_defs)
  show ?thesis
  proof (cases ts)
    case Nil
    then show ?thesis using assms(2) sp by (cases wsEnd) (auto simp: stops_def)
  next
    case (Cons a ts')
    obtain w2 t2 where a: "a = (w2, t2)" by fastforce
    show ?thesis
    proof (cases w2)
      case (Cons b w)
      then have "is_space b" using assms(1) \<open>ts = a # ts'\<close> a by (simp add: printable_def)
      then show ?thesis using sp \<open>ts = a # ts'\<close> a Cons by (simp add: stops_def)
    next
      case Nil
      then have "\<not> is_word t2" "jtok_ok t2" using assms(1,3) \<open>ts = a # ts'\<close> a by (auto simp: printable_def)
      then show ?thesis
        using \<open>ts = a # ts'\<close> a Nil quote_class bracket_class by (cases t2) (auto simp: stops_def)
    qed
  qed
qed

lemma printable_Cons: "printable (x # xs) \<Longrightarrow> printable xs"
  by (cases x; cases xs) (auto simp: printable_def)

lemma lex_loop_print:
  assumes "printable ts" and "list_all is_space wsEnd"
  shows "map kv (lex_loop n toks (print_toks ts @ wsEnd)) = map kv toks @ map (jtok_kv \<circ> snd) ts"
  using assms(1)
proof (induction ts arbitrary: toks)
  case Nil
  then show ?case using lex_loop_space [OF assms(2), of n toks "[]"] by simp
next
  case (Cons x ts)
  obtain ws t where x: "x = (ws, t)" by fastforce
  have ok: "list_all is_space ws" "jtok_ok t" using Cons.prems x by (auto simp: printable_def)
  obtain pos where "lex_loop n toks (jtok_text t @ print_toks ts @ wsEnd) =
      lex_loop n (toks @ [\<lparr>tok_Kind = fst (jtok_kv t), tok_Val = snd (jtok_kv t), tok_Pos = pos\<rparr>]) (print_toks ts @ wsEnd)"
    using lex_loop_tok [OF ok(2), of "print_toks ts @ wsEnd"] stops_next Cons.prems assms(2) x by blast
  then show ?case
    using Cons.IH [OF printable_Cons [OF Cons.prems]] lex_loop_space [OF ok(1)] x
    by (simp add: kv_def)
qed

section \<open>Properties\<close>

text \<open>
  The lexer reads every source to the end, and its tokens are faithful to it: positions
  increase strictly and lie inside the source, and a number, identifier, operator or regular
  expression is exactly the text found at its position.
\<close>

theorem lexer_faithful:
  "tokens_in src (length src) (lexJS src)"
  unfolding lexJS_def by (rule lex_loop_tokens_in) (simp_all add: tokens_in_def)

text \<open>
  C19.  Lexing depends on the structure and not on the representation: however a sequence of
  strings, numbers, identifiers and brackets is printed, with either quote character, any white
  space and decimal or 0x numbers, the lexer gives back its kinds and values.
\<close>

theorem lexer_reads_printed:
  assumes "printable ts" and "list_all is_space wsEnd"
  shows "map kv (lexJS (print_toks ts @ wsEnd)) = map (jtok_kv \<circ> snd) ts"
  using lex_loop_print [OF assms, of _ "[]"] by (simp add: lexJS_def)

theorem lexer_reads_printed_witness:
  "map kv (lexJS ([CHR ''f'', CHR ''('', CHR '' '', ch 34, CHR ''a'', ch 34, CHR '','', CHR ''0'', CHR ''x'', CHR ''2'', CHR '')''])) =
    [(jsTIdent, ''f''), (jsTPunct, ''(''), (jsTString, ''a''), (jsTPunct, '',''), (jsTNumber, ''0x2''), (jsTPunct, '')'')]"
proof -
  have "number_text ''0x2''" by (auto simp: number_text_def isHexDigit_def ord_def)
  moreover have "plain_for (ch 34) ''a''"
    unfolding plain_for_def bslash_def newline_def by (simp add: char_ord [of "ch _"])
  ultimately show ?thesis
    using lexer_reads_printed [of "[([], JId ''f''), ([], JPunct CHR ''(''), ('' '', JStr (ch 34) ''a''), ([], JPunct CHR '',''),
      ([], JNum ''0x2''), ([], JPunct CHR '')'')]" "[]"]
    by (simp add: printable_def js_brackets_def isIdentStart_def isIdentPart_def ord_def is_space_def)
qed

end
