(* ===== verification/Pow_Extract.thy ===== *)
theory Pow_Extract
  imports Js_Lexer Go_Float
begin

text \<open>
  The structural extraction of the proof-of-work seed of internal/core/pow_extract.go: finding
  the inline scripts, the call around the marker, its argument list, and classifying the arguments.
  Lower-casing covers ASCII, as in the tags and markers the code looks for.
\<close>

section \<open>Numbers\<close>

fun digits_value :: "nat \<Rightarrow> (char \<Rightarrow> nat option) \<Rightarrow> nat \<Rightarrow> string \<Rightarrow> nat option" where
  "digits_value base digit acc [] = Some acc"
| "digits_value base digit acc (c # s) =
     (case digit c of None \<Rightarrow> None
      | Some d \<Rightarrow> if d < base then digits_value base digit (acc * base + d) s else None)"

text \<open>strconv.ParseInt(s, base, 64): a sign, at least one digit, and the range of int64.\<close>

definition parse_int :: "nat \<Rightarrow> string \<Rightarrow> int option" where
  "parse_int base s =
     (let neg = (s \<noteq> [] \<and> hd s = CHR ''-'');
          ds = (if s \<noteq> [] \<and> (hd s = CHR ''-'' \<or> hd s = CHR ''+'') then tl s else s)
      in if ds = [] then None
         else case digits_value base hex_val 0 ds of None \<Rightarrow> None
           | Some n \<Rightarrow>
               if neg then (if n \<le> 2 ^ 63 then Some (- int n) else None)
               else if n < 2 ^ 63 then Some (int n) else None)"

text \<open>strconv.ParseFloat on decimal text, rounded to float64; out of range is an error.\<close>

definition parse_float :: "string \<Rightarrow> rat option" where
  "parse_float s =
     (let neg = (s \<noteq> [] \<and> hd s = CHR ''-'');
          s = (if s \<noteq> [] \<and> (hd s = CHR ''-'' \<or> hd s = CHR ''+'') then tl s else s);
          mant = takeWhile (\<lambda>c. c \<noteq> CHR ''e'' \<and> c \<noteq> CHR ''E'') s;
          rest = drop (length mant) s;
          whole = takeWhile (\<lambda>c. c \<noteq> CHR ''.'') mant;
          frac = drop (length whole + 1) mant;
          expo = (if rest = [] then Some 0 else parse_int 10 (tl rest))
      in if whole @ frac = [] then None
         else case (digits_value 10 hex_val 0 (whole @ frac), expo) of
             (Some n, Some e) \<Rightarrow>
               (let x = f64 (of_nat n * 10 powi (e - int (length frac)))
                in if x \<ge> 2 ^ 1024 then None else Some (if neg then - x else x))
           | _ \<Rightarrow> None)"

definition has_prefix2 :: "char \<Rightarrow> char \<Rightarrow> string \<Rightarrow> bool" where
  "has_prefix2 x y s \<longleftrightarrow> length s \<ge> 2 \<and> hd s = CHR ''0'' \<and> (s ! 1 = x \<or> s ! 1 = y)"

definition parseJSNumber :: "string \<Rightarrow> int option" where
  "parseJSNumber s =
     (let s = filter (\<lambda>c. c \<noteq> CHR ''_'') s;
          s = (if s \<noteq> [] \<and> (last s = CHR ''n'' \<or> last s = CHR ''N'') then butlast s else s);
          neg = (s \<noteq> [] \<and> hd s = CHR ''-'');
          s = (if neg then tl s else s);
          v = (if has_prefix2 (CHR ''x'') (CHR ''X'') s then parse_int 16 (drop 2 s)
               else if has_prefix2 (CHR ''o'') (CHR ''O'') s then parse_int 8 (drop 2 s)
               else if has_prefix2 (CHR ''b'') (CHR ''B'') s then parse_int 2 (drop 2 s)
               else if list_ex (\<lambda>c. c \<in> {CHR ''.'', CHR ''e'', CHR ''E''}) s
               then map_option f64_to_int (parse_float s)
               else parse_int 10 s)
      in map_option (\<lambda>v. if neg then - v else v) v)"

section \<open>Calls and their arguments\<close>

record powSeed =
  ps_PowInput :: string
  ps_Difficulty :: int
  ps_Marker :: string
  ps_Source :: string

definition knownPowComponents :: "string list" where
  "knownPowComponents =
    [''frame'', ''cookie_test'', ''referrer'', ''nav_tamper'', ''timezone_locale'', ''plugins'', ''devtools'', ''ua'',
     ''shadow_dom_check'', ''env_viewport'', ''device_pixel_ratio'', ''native_integrity'', ''match_media'', ''env_ua'',
     ''max_touch_points'', ''chrome_runtime'', ''media_codecs'', ''ancestor_origins'', ''globals'', ''css'',
     ''sandbox_behavior'', ''origin_via_self'', ''font'', ''webgl'', ''canvas'', ''audio'', ''battery'', ''speech'',
     ''notification'', ''permissions'']"

definition powInputShape :: "string \<Rightarrow> bool" where
  "powInputShape s \<longleftrightarrow> 6 \<le> length s \<and> length s \<le> 64 \<and>
     list_all (\<lambda>c. 65 \<le> ord c \<and> ord c \<le> 90 \<or> 97 \<le> ord c \<and> ord c \<le> 122 \<or> 48 \<le> ord c \<and> ord c \<le> 57 \<or>
       c = CHR ''_'' \<or> c = CHR ''-'') s"

definition is_punct :: "jsToken \<Rightarrow> string \<Rightarrow> bool" where
  "is_punct t v \<longleftrightarrow> tok_Kind t = jsTPunct \<and> tok_Val t = v"

definition opens_group :: "jsToken \<Rightarrow> bool" where
  "opens_group t \<longleftrightarrow> is_punct t ''('' \<or> is_punct t ''['' \<or> is_punct t ''{''"

definition closes_group :: "jsToken \<Rightarrow> bool" where
  "closes_group t \<longleftrightarrow> is_punct t '')'' \<or> is_punct t '']'' \<or> is_punct t ''}''"

text \<open>
  The backward walk: the list is the tokens before the current one, nearest first, so the index of
  its head is the length of its tail.
\<close>

fun enclosing_walk :: "jsToken list \<Rightarrow> nat \<Rightarrow> nat option" where
  "enclosing_walk [] depth = None"
| "enclosing_walk (t # before) depth =
     (if closes_group t then enclosing_walk before (depth + 1)
      else if opens_group t then
        (if depth = 0 then
           (if is_punct t ''('' \<and> before \<noteq> [] \<and>
               (is_punct (hd before) '')'' \<or> is_punct (hd before) ''}'' \<or> tok_Kind (hd before) = jsTIdent)
            then Some (length before) else None)
         else enclosing_walk before (depth - 1))
      else enclosing_walk before depth)"

definition findEnclosingCallOpen :: "jsToken list \<Rightarrow> nat \<Rightarrow> nat option" where
  "findEnclosingCallOpen toks k = enclosing_walk (rev (take k toks)) 0"

definition statement_keywords :: "string list" where
  "statement_keywords = [''return'', ''var'', ''let'', ''const'', ''if'', ''for'', ''while'', ''do'', ''switch'', ''try'',
     ''typeof'', ''new'', ''delete'', ''void'', ''class'', ''import'', ''export'', ''yield'', ''await'', ''throw'',
     ''else'', ''case'']"

fun call_args :: "jsToken list \<Rightarrow> nat \<Rightarrow> jsToken list \<Rightarrow> jsToken list list \<Rightarrow> jsToken list list option" where
  "call_args [] depth cur args = None"
| "call_args (t # ts) depth cur args =
     (if opens_group t then call_args ts (depth + 1) (cur @ [t]) args
      else if closes_group t then
        (if depth = 0 then
           (if is_punct t '')''
            then Some (if length cur > 0 \<or> length args > 0 then args @ [cur] else args)
            else None)
         else call_args ts (depth - 1) (cur @ [t]) args)
      else if is_punct t '','' \<and> depth = 0 then call_args ts depth [] (args @ [cur])
      else if is_punct t '';'' \<and> depth = 0 then None
      else if tok_Kind t = jsTIdent \<and> depth = 0 \<and> length cur = 0 \<and> tok_Val t \<in> set statement_keywords then None
      else call_args ts depth (cur @ [t]) args)"

definition parseCallArgs :: "jsToken list \<Rightarrow> nat \<Rightarrow> jsToken list list option" where
  "parseCallArgs toks start =
     (if start \<ge> length toks \<or> \<not> is_punct (toks ! start) ''('' then None
      else call_args (drop (start + 1) toks) 0 [] [])"

section \<open>Classification\<close>

definition text_token :: "jsToken \<Rightarrow> bool" where
  "text_token t \<longleftrightarrow> tok_Kind t = jsTString \<or> tok_Kind t = jsTTemplate \<and> tok_Val t \<noteq> []"

record arg_class =
  strArgs :: "string list"
  arrayArg :: "string list option"
  difficulty :: int

definition classify_arg :: "jsToken list \<Rightarrow> arg_class \<Rightarrow> arg_class option" where
  "classify_arg arg st =
     (if length arg = 1 \<and> text_token (hd arg) then Some (st\<lparr>strArgs := strArgs st @ [tok_Val (hd arg)]\<rparr>)
      else if length arg = 1 \<and> tok_Kind (hd arg) = jsTNumber then
        (case parseJSNumber (tok_Val (hd arg)) of
           Some v \<Rightarrow> if 1 \<le> v \<and> v \<le> 16 \<and> difficulty st = 0 then Some (st\<lparr>difficulty := v\<rparr>) else Some st
         | None \<Rightarrow> Some st)
      else if length arg \<ge> 2 \<and> is_punct (hd arg) ''['' \<and> is_punct (last arg) '']'' then
        (if arrayArg st \<noteq> None then None
         else Some (st\<lparr>arrayArg := Some (map tok_Val (filter text_token (butlast (tl arg))))\<rparr>))
      else None)"

fun classify_args :: "jsToken list list \<Rightarrow> arg_class \<Rightarrow> arg_class option" where
  "classify_args [] st = Some st"
| "classify_args (arg # args) st =
     (case classify_arg arg st of None \<Rightarrow> None | Some st \<Rightarrow> classify_args args st)"

definition marker_like :: "string \<Rightarrow> bool" where
  "marker_like s \<longleftrightarrow> (let low = to_lower s in
     str_contains low ''pow'' \<or> str_contains low ''timeout'' \<or> str_contains low ''seed'')"

definition classifyCallAround :: "jsToken list \<Rightarrow> nat \<Rightarrow> string \<Rightarrow> bool \<Rightarrow> powSeed option" where
  "classifyCallAround toks k source markerMode =
     (case (if markerMode then findEnclosingCallOpen toks k else Some k) of None \<Rightarrow> None
      | Some start \<Rightarrow>
        (case parseCallArgs toks start of None \<Rightarrow> None
         | Some args \<Rightarrow>
           if length args < 3 \<or> length args > 6 then None
           else (case classify_args args \<lparr>strArgs = [], arrayArg = None, difficulty = 0\<rparr> of None \<Rightarrow> None
             | Some st \<Rightarrow>
               (let markers = filter marker_like (strArgs st);
                    seedCandidates = filter (\<lambda>s. \<not> marker_like s \<and> powInputShape s) (strArgs st);
                    hasArray = (arrayArg st \<noteq> None);
                    known = length (filter (\<lambda>c. c \<in> set knownPowComponents)
                      (case arrayArg st of None \<Rightarrow> [] | Some cs \<Rightarrow> cs))
                in if markerMode \<and> \<not> hasArray \<and> difficulty st = 0 then None
                   else if \<not> markerMode \<and> (\<not> hasArray \<or> known < 4) then None
                   else if length seedCandidates \<noteq> 1 then None
                   else Some \<lparr>ps_PowInput = hd seedCandidates, ps_Difficulty = difficulty st,
                     ps_Marker = (case markers of [] \<Rightarrow> [] | m # _ \<Rightarrow> m), ps_Source = source\<rparr>))))"

fun first_some :: "('a \<Rightarrow> 'b option) \<Rightarrow> 'a list \<Rightarrow> 'b option" where
  "first_some f [] = None"
| "first_some f (x # xs) = (case f x of Some y \<Rightarrow> Some y | None \<Rightarrow> first_some f xs)"

definition extract_body :: "string \<Rightarrow> string \<Rightarrow> powSeed option" where
  "extract_body label body =
     (let toks = lexJS body in
      case first_some (\<lambda>k. if text_token (toks ! k) \<and> tok_Val (toks ! k) = ''pow_timeout''
             then classifyCallAround toks k (label @ ''/tokenizer-marker'') True else None) [0 ..< length toks] of
        Some seed \<Rightarrow> Some seed
      | None \<Rightarrow>
          first_some (\<lambda>k. if is_punct (toks ! k) ''(''
             then classifyCallAround toks k (label @ ''/tokenizer-structure'') False else None) [0 ..< length toks])"

definition extractPowFromBodies :: "string list \<Rightarrow> string \<Rightarrow> powSeed option" where
  "extractPowFromBodies bodies label = first_some (extract_body label) bodies"

section \<open>Pages\<close>

definition prefix_ci :: "string \<Rightarrow> string \<Rightarrow> bool" where
  "prefix_ci p s \<longleftrightarrow> to_lower (take (length p) s) = p"

text \<open>The text before the first case-insensitive occurrence, and the text after it.\<close>

fun break_ci :: "string \<Rightarrow> string \<Rightarrow> string \<Rightarrow> (string \<times> string) option" where
  "break_ci p acc [] = (if p = [] then Some (acc, []) else None)"
| "break_ci p acc (c # s) =
     (if prefix_ci p (c # s) then Some (acc, drop (length p) (c # s)) else break_ci p (acc @ [c]) s)"

text \<open>A match of inlineScriptRe at the start: the tag runs to the first \<open>>\<close>, the body to the first end tag.\<close>

definition script_at :: "string \<Rightarrow> (string \<times> string) option" where
  "script_at s =
     (if prefix_ci ''<script'' s
      then (case dropWhile (\<lambda>c. c \<noteq> CHR ''>'') (drop 7 s) of
          [] \<Rightarrow> None
        | _ # r \<Rightarrow> break_ci ''</script>'' [] r)
      else None)"

lemma break_ci_length: "break_ci p acc s = Some (b, r) \<Longrightarrow> length r \<le> length s"
  by (induction p acc s rule: break_ci.induct) (auto split: if_splits)

lemma script_at_length: "script_at s = Some (b, r) \<Longrightarrow> length r < length s"
proof -
  assume "script_at s = Some (b, r)"
  then obtain c u where u: "dropWhile (\<lambda>c. c \<noteq> CHR ''>'') (drop 7 s) = c # u" "break_ci ''</script>'' [] u = Some (b, r)"
    by (auto simp: script_at_def split: if_splits list.splits)
  have "length u < length (drop 7 s)" using u(1) by (rule dropWhile_Cons_length)
  moreover have "length r \<le> length u" using u(2) by (rule break_ci_length)
  ultimately show ?thesis by simp
qed

function inline_scripts :: "string \<Rightarrow> string list" where
  "inline_scripts [] = []"
| "inline_scripts (c # s) =
     (case script_at (c # s) of
        Some (body, r) \<Rightarrow> body # inline_scripts r
      | None \<Rightarrow> inline_scripts s)"
  by pat_completeness auto
termination by (relation "measure length") (auto dest: script_at_length)

definition html_entities :: "(string \<times> string) list" where
  "html_entities = [(''&quot;'', [ch 34]), (''&#34;'', [ch 34]), (''&#x22;'', [ch 34]), (''&amp;'', ''&''),
     (''&#x27;'', [ch 39]), (''&#39;'', [ch 39])]"

function htmlUnescapeForPow :: "string \<Rightarrow> string" where
  "htmlUnescapeForPow [] = []"
| "htmlUnescapeForPow (c # s) =
     (case filter (\<lambda>(old, new). prefix old (c # s)) html_entities of
        (old, new) # _ \<Rightarrow> new @ htmlUnescapeForPow (drop (length old - 1) s)
      | [] \<Rightarrow> c # htmlUnescapeForPow s)"
  by pat_completeness auto
termination by (relation "measure length") auto

definition extractPowSeed :: "string \<Rightarrow> powSeed option" where
  "extractPowSeed html =
     first_some (\<lambda>(name, input).
         case extractPowFromBodies (filter (\<lambda>b. trim_space b \<noteq> []) (inline_scripts input)) (name @ ''/inline'') of
           Some seed \<Rightarrow> Some seed
         | None \<Rightarrow> extractPowFromBodies [input] (name @ ''/full''))
       [(''raw'', html), (''unescaped'', htmlUnescapeForPow html)]"

section \<open>What a seed looks like\<close>

lemma first_some_SomeD: "first_some f xs = Some y \<Longrightarrow> \<exists>x \<in> set xs. f x = Some y"
  by (induction xs) (auto split: option.splits)

lemma classify_args_difficulty:
  "classify_args args st = Some st' \<Longrightarrow> 0 \<le> difficulty st \<and> difficulty st \<le> 16 \<Longrightarrow>
     0 \<le> difficulty st' \<and> difficulty st' \<le> 16"
proof (induction args arbitrary: st)
  case (Cons arg args)
  then obtain st1 where "classify_arg arg st = Some st1" "classify_args args st1 = Some st'"
    by (auto split: option.splits)
  moreover from this(1) Cons.prems(2) have "0 \<le> difficulty st1 \<and> difficulty st1 \<le> 16"
    by (auto simp: classify_arg_def split: if_splits option.splits)
  ultimately show ?case using Cons.IH by blast
qed simp

definition good_seed :: "powSeed \<Rightarrow> bool" where
  "good_seed seed \<longleftrightarrow> powInputShape (ps_PowInput seed) \<and> \<not> marker_like (ps_PowInput seed) \<and>
     0 \<le> ps_Difficulty seed \<and> ps_Difficulty seed \<le> 16 \<and> (ps_Marker seed = [] \<or> marker_like (ps_Marker seed))"

lemma classifyCallAround_good:
  assumes "classifyCallAround toks k source mode = Some seed"
  shows "good_seed seed"
proof -
  obtain args st where st: "classify_args args \<lparr>strArgs = [], arrayArg = None, difficulty = 0\<rparr> = Some st"
    and one: "length (filter (\<lambda>s. \<not> marker_like s \<and> powInputShape s) (strArgs st)) = 1"
    and seed: "ps_PowInput seed = hd (filter (\<lambda>s. \<not> marker_like s \<and> powInputShape s) (strArgs st))"
      "ps_Difficulty seed = difficulty st"
      "ps_Marker seed = (case filter marker_like (strArgs st) of [] \<Rightarrow> [] | m # _ \<Rightarrow> m)"
    using assms unfolding classifyCallAround_def Let_def
    by (auto split: option.splits if_split_asm)
  have "hd (filter (\<lambda>s. \<not> marker_like s \<and> powInputShape s) (strArgs st)) \<in>
      set (filter (\<lambda>s. \<not> marker_like s \<and> powInputShape s) (strArgs st))"
    using one by (intro hd_in_set) auto
  moreover have "ps_Marker seed = [] \<or> ps_Marker seed \<in> set (filter marker_like (strArgs st))"
    unfolding seed(3) by (cases "filter marker_like (strArgs st)") (simp_all del: set_filter)
  ultimately show ?thesis
    using classify_args_difficulty [OF st] seed by (auto simp: good_seed_def)
qed

lemma extract_body_good: "extract_body label body = Some seed \<Longrightarrow> good_seed seed"
  unfolding extract_body_def Let_def
  by (auto split: option.splits if_split_asm dest!: first_some_SomeD classifyCallAround_good)

lemma extractPowFromBodies_good: "extractPowFromBodies bodies label = Some seed \<Longrightarrow> good_seed seed"
  unfolding extractPowFromBodies_def by (auto dest!: first_some_SomeD extract_body_good)

section \<open>The call as it is printed\<close>

text \<open>The specification side: the arguments of the seed call, each in some representation.\<close>

datatype parg = AStr char string | ANum string | AArr "(char \<times> string) list"





definition same_toks :: "jsToken list \<Rightarrow> jtok list \<Rightarrow> bool" where
  "same_toks ts js \<longleftrightarrow> map kv ts = map jtok_kv js"

lemma same_toks_Nil [simp]: "same_toks ts [] \<longleftrightarrow> ts = []"
  by (simp add: same_toks_def)








section \<open>Reading the arguments back\<close>

text \<open>Inside an array only strings and commas occur; both walks pass over them.\<close>

definition flat :: "jsToken list \<Rightarrow> bool" where
  "flat ts \<longleftrightarrow> (\<forall>t \<in> set ts. \<not> opens_group t \<and> \<not> closes_group t)"






lemma flat_rev [simp]: "flat (rev ts) = flat ts"
  by (simp add: flat_def)



definition arg_strings :: "parg list \<Rightarrow> string list" where
  "arg_strings as = concat (map (\<lambda>a. case a of AStr q v \<Rightarrow> [v] | _ \<Rightarrow> []) as)"

definition arg_arrays :: "parg list \<Rightarrow> (char \<times> string) list list" where
  "arg_arrays as = concat (map (\<lambda>a. case a of AArr cs \<Rightarrow> [cs] | _ \<Rightarrow> []) as)"

definition arg_difficulties :: "parg list \<Rightarrow> int list" where
  "arg_difficulties as = concat (map (\<lambda>a. case a of ANum t \<Rightarrow>
      (case parseJSNumber t of Some v \<Rightarrow> if 1 \<le> v \<and> v \<le> 16 then [v] else [] | None \<Rightarrow> []) | _ \<Rightarrow> []) as)"


lemma arg_simps [simp]:
  "arg_strings [] = []" "arg_strings (AStr q v # as) = v # arg_strings as"
  "arg_strings (ANum t # as) = arg_strings as" "arg_strings (AArr cs # as) = arg_strings as"
  "arg_arrays [] = []" "arg_arrays (AStr q v # as) = arg_arrays as"
  "arg_arrays (ANum t # as) = arg_arrays as" "arg_arrays (AArr cs # as) = cs # arg_arrays as"
  "arg_difficulties [] = []" "arg_difficulties (AStr q v # as) = arg_difficulties as"
  "arg_difficulties (AArr cs # as) = arg_difficulties as"
  "arg_difficulties (ANum t # as) = (case parseJSNumber t of
      Some v \<Rightarrow> if 1 \<le> v \<and> v \<le> 16 then [v] else [] | None \<Rightarrow> []) @ arg_difficulties as"
  by (simp_all add: arg_strings_def arg_arrays_def arg_difficulties_def)




section \<open>Finding the marker\<close>








section \<open>Number texts\<close>

fun nat_hex :: "nat \<Rightarrow> string" where
  "nat_hex n = (if n < 16 then [hex_digit n] else nat_hex (n div 16) @ [hex_digit (n mod 16)])"

declare nat_hex.simps [simp del]

lemma digits_value_append:
  "digits_value base digit acc (s @ [c]) =
    (case digits_value base digit acc s of None \<Rightarrow> None
     | Some n \<Rightarrow> (case digit c of Some d \<Rightarrow> if d < base then Some (n * base + d) else None | None \<Rightarrow> None))"
  by (induction s arbitrary: acc) (auto split: option.splits)

lemma digits_value_nat_hex: "digits_value 16 hex_val 0 (nat_hex n) = Some n"
proof (induction n rule: nat_hex.induct)
  case (1 n)
  show ?case
  proof (cases "n < 16")
    case False
    then show ?thesis using 1 by (subst nat_hex.simps) (simp add: digits_value_append)
  qed (subst nat_hex.simps, simp)
qed

lemma digits_value_nat_dec: "digits_value 10 hex_val 0 (nat_dec n) = Some n"
proof (induction n rule: nat_dec.induct)
  case (1 n)
  have d: "hex_val (dec_digit k) = Some k" if "k < 10" for k
    using that by (simp add: hex_val_def Let_def)
  show ?case
  proof (cases "n < 10")
    case False
    then show ?thesis using 1 d by (subst nat_dec.simps) (simp add: digits_value_append)
  qed (subst nat_dec.simps, simp add: d)
qed

lemma nat_hex_digits: "c \<in> set (nat_hex n) \<Longrightarrow> \<exists>d < 16. c = hex_digit d"
proof (induction n rule: nat_hex.induct)
  case (1 n)
  show ?case
  proof (cases "n < 16")
    case True
    then show ?thesis using 1(2) by (subst (asm) nat_hex.simps) auto
  next
    case False
    then have "c \<in> set (nat_hex (n div 16)) \<or> c = hex_digit (n mod 16)"
      using 1(2) by (subst (asm) nat_hex.simps) auto
    then show ?thesis using 1(1) False by (metis mod_less_divisor zero_less_numeral)
  qed
qed

lemma nat_hex_not_Nil [simp]: "nat_hex n \<noteq> []"
  by (subst nat_hex.simps) simp

lemma hex_digit_class:
  "d < 16 \<Longrightarrow> hex_digit d \<notin> {CHR ''_'', CHR ''n'', CHR ''N'', CHR ''-'', CHR ''+''}"
  by (auto simp: hex_digit_def char_ord ord_def)

lemma parseJSNumber_hex:
  assumes "n < 2 ^ 63"
  shows "parseJSNumber (''0x'' @ nat_hex n) = Some (int n)"
proof -
  have cls: "c \<notin> {CHR ''_'', CHR ''n'', CHR ''N'', CHR ''-'', CHR ''+''}" if "c \<in> set (nat_hex n)" for c
    using nat_hex_digits [OF that] hex_digit_class by auto
  have l: "last (nat_hex n) \<in> set (nat_hex n)" "hd (nat_hex n) \<in> set (nat_hex n)" by simp_all
  have "filter (\<lambda>c. c \<noteq> CHR ''_'') (nat_hex n) = nat_hex n" using cls by (auto intro: filter_True)
  then show ?thesis
    using assms cls [OF l(1)] cls [OF l(2)]
    by (simp add: parseJSNumber_def has_prefix2_def parse_int_def digits_value_nat_hex Let_def)
qed

lemma parseJSNumber_dec:
  assumes "n < 2 ^ 63"
  shows "parseJSNumber (nat_dec n) = Some (int n)"
proof -
  have cls: "48 \<le> ord c \<and> ord c < 58" if "c \<in> set (nat_dec n)" for c
    using nat_dec_digits [OF that] by (simp add: ord_def)
  have out: "c \<notin> {CHR ''_'', CHR ''n'', CHR ''N'', CHR ''-'', CHR ''+'', CHR ''.'', CHR ''e'', CHR ''E'',
      CHR ''x'', CHR ''X'', CHR ''o'', CHR ''O'', CHR ''b'', CHR ''B''}" if "c \<in> set (nat_dec n)" for c
    using cls [OF that] by (auto simp: ord_def)
  have l: "last (nat_dec n) \<in> set (nat_dec n)" "hd (nat_dec n) \<in> set (nat_dec n)" by simp_all
  have f: "filter (\<lambda>c. c \<noteq> CHR ''_'') (nat_dec n) = nat_dec n" using out by (auto intro: filter_True)
  have e: "\<not> list_ex (\<lambda>c. c \<in> {CHR ''.'', CHR ''e'', CHR ''E''}) (nat_dec n)"
    using out by (auto simp: list_ex_iff)
  have p: "\<not> has_prefix2 x y (nat_dec n)" if "{x, y} \<subseteq> {CHR ''x'', CHR ''X'', CHR ''o'', CHR ''O'', CHR ''b'', CHR ''B''}" for x y
    using that out nth_mem [of 1 "nat_dec n"] by (fastforce simp: has_prefix2_def)
  show ?thesis
    using assms f e p [of "CHR ''x''" "CHR ''X''"] p [of "CHR ''o''" "CHR ''O''"] p [of "CHR ''b''" "CHR ''B''"] out [OF l(1)] out [OF l(2)]
    by (simp add: parseJSNumber_def parse_int_def digits_value_nat_dec Let_def)
qed

section \<open>Properties\<close>






text \<open>
  Whatever the page, an extracted seed has the shape the solver needs: 6 to 64 characters of
  the seed alphabet that do not look like a marker, and a difficulty from 0 to 16, where 0 stands
  for one that is not in the call.
\<close>

theorem pow_seed_sound:
  "(case extractPowSeed html of None \<Rightarrow> True | Some seed \<Rightarrow> good_seed seed)"
  unfolding extractPowSeed_def
  by (auto split: option.split dest!: first_some_SomeD extractPowFromBodies_good)

text \<open>
  Numbers mean the same in either base: for every value below 2^63 parseJSNumber reads the
  decimal text and the 0x text as that value.
\<close>

theorem js_number_bases:
  assumes "n < 2 ^ 63"
  shows "parseJSNumber (nat_dec n) = Some (int n) \<and> parseJSNumber (''0x'' @ nat_hex n) = Some (int n)"
  using assms by (simp add: parseJSNumber_dec parseJSNumber_hex del: append_Cons append.simps)

theorem js_number_bases_witness:
  "parseJSNumber (nat_dec 10) = Some 10 \<and> parseJSNumber (''0x'' @ nat_hex 10) = Some 10"
  using js_number_bases [of 10] by simp

end
