(* ===== verification/Slider_Puzzle.thy ===== *)
theory Slider_Puzzle
  imports TG_Prelude "HOL-Library.Multiset"
begin

text \<open>
  The local solver of the slider captcha (slider_captcha.go): cutting the picture into a grid,
  the permutation of tiles after some of the offered swaps, rendering and scoring each candidate,
  the ranking, and the attempts against the server.

  Go's int has 64 bits.  The grid size comes from the server, so its square is taken with
  wrap-around; the other products stay far below the limit for pictures the JPEG format allows
  (at most 65535 by 65535), which \<open>score_in_int64\<close> shows for the score itself.
\<close>

definition int64 :: "int \<Rightarrow> int" where
  "int64 i = (i + 2 ^ 63) mod 2 ^ 64 - 2 ^ 63"

lemma int64_id [simp]: "- (2 ^ 63) \<le> i \<Longrightarrow> i < 2 ^ 63 \<Longrightarrow> int64 i = i"
  by (simp add: int64_def)

definition minInt :: "int \<Rightarrow> int \<Rightarrow> int" where
  "minInt left right = (if left < right then left else right)"

lemma minInt_min: "minInt = min"
  by (auto simp: fun_eq_iff minInt_def)

section \<open>Pictures (package image)\<close>

record rect =
  min_x :: int
  min_y :: int
  max_x :: int
  max_y :: int

text \<open>\<open>image.Rect\<close> orders its corners.\<close>

definition Rect :: "int \<Rightarrow> int \<Rightarrow> int \<Rightarrow> int \<Rightarrow> rect" where
  "Rect x0 y0 x1 y1 =
     \<lparr>min_x = (if x0 > x1 then x1 else x0), min_y = (if y0 > y1 then y1 else y0),
      max_x = (if x0 > x1 then x0 else x1), max_y = (if y0 > y1 then y0 else y1)\<rparr>"

definition Dx :: "rect \<Rightarrow> int" where "Dx r = max_x r - min_x r"
definition Dy :: "rect \<Rightarrow> int" where "Dy r = max_y r - min_y r"

definition rect_empty :: "rect \<Rightarrow> bool" where
  "rect_empty r \<longleftrightarrow> min_x r \<ge> max_x r \<or> min_y r \<ge> max_y r"

definition in_rect :: "rect \<Rightarrow> int \<Rightarrow> int \<Rightarrow> bool" where
  "in_rect r x y \<longleftrightarrow> min_x r \<le> x \<and> x < max_x r \<and> min_y r \<le> y \<and> y < max_y r"

text \<open>What \<open>Color.RGBA()\<close> returns: four numbers of at most 16 bits in a uint32.\<close>

record color =
  red :: "32 word"
  green :: "32 word"
  blue :: "32 word"
  alpha :: "32 word"

record picture =
  bounds :: rect
  pixel :: "int \<Rightarrow> int \<Rightarrow> color"

text \<open>An \<open>image.RGBA\<close> keeps the high byte of each channel; reading it back repeats that byte.\<close>

definition channel8 :: "32 word \<Rightarrow> 32 word" where
  "channel8 v = (let r = (ucast (ucast (drop_bit 8 v) :: byte) :: 32 word) in r OR push_bit 8 r)"

definition color8 :: "color \<Rightarrow> color" where
  "color8 c = \<lparr>red = channel8 (red c), green = channel8 (green c), blue = channel8 (blue c),
     alpha = channel8 (alpha c)\<rparr>"

definition NewRGBA :: "rect \<Rightarrow> picture" where
  "NewRGBA b = \<lparr>bounds = b, pixel = (\<lambda>_ _. \<lparr>red = 0, green = 0, blue = 0, alpha = 0\<rparr>)\<rparr>"

definition rgba_Set :: "int \<Rightarrow> int \<Rightarrow> color \<Rightarrow> picture \<Rightarrow> picture" where
  "rgba_Set x y c p =
     (if in_rect (bounds p) x y
      then p\<lparr>pixel := (pixel p)(x := (pixel p x)(y := color8 c))\<rparr> else p)"

section \<open>Tiles\<close>

definition sliderTileRect :: "rect \<Rightarrow> int \<Rightarrow> int \<Rightarrow> rect" where
  "sliderTileRect b gridSize index =
     (let row = index div gridSize; col = index mod gridSize
      in Rect (min_x b + col * Dx b div gridSize) (min_y b + row * Dy b div gridSize)
           (min_x b + (col + 1) * Dx b div gridSize) (min_y b + (row + 1) * Dy b div gridSize))"

definition copyScaledTile :: "rect \<Rightarrow> picture \<Rightarrow> rect \<Rightarrow> picture \<Rightarrow> picture" where
  "copyScaledTile dstRect src srcRect dst =
     (if rect_empty dstRect \<or> rect_empty srcRect then dst
      else fold (\<lambda>y. fold (\<lambda>x.
             rgba_Set (min_x dstRect + x) (min_y dstRect + y)
               (pixel src (min_x srcRect + x * Dx srcRect div Dx dstRect)
                          (min_y srcRect + y * Dy srcRect div Dy dstRect)))
           [0..Dx dstRect - 1]) [0..Dy dstRect - 1] dst)"

datatype slider_error =
    Invalid_tile_count int
  | Invalid_steps_length nat
  | Step_out_of_range int int
  | No_candidates
  | Invalid_grid_size int
  | Unexpected_mapping_length nat
  | Panic_makeslice int
  | Panic_index

definition tile_count :: "int \<Rightarrow> int" where
  "tile_count gridSize = int64 (gridSize * gridSize)"

definition renderSliderCandidate :: "picture \<Rightarrow> int \<Rightarrow> int list \<Rightarrow> (slider_error, picture) result" where
  "renderSliderCandidate img gridSize mapping =
     (if gridSize \<le> 0 then Inl (Invalid_grid_size gridSize)
      else if int (length mapping) \<noteq> tile_count gridSize
      then Inl (Unexpected_mapping_length (length mapping))
      else Inr (fold (\<lambda>(dstIndex, srcIndex).
             copyScaledTile (sliderTileRect (bounds img) gridSize dstIndex) img
               (sliderTileRect (bounds img) gridSize srcIndex))
           (zip [0..int (length mapping) - 1] mapping) (NewRGBA (bounds img))))"

section \<open>Scores\<close>

definition absDiff :: "32 word \<Rightarrow> 32 word \<Rightarrow> int" where
  "absDiff left right = (if left > right then uint (left - right) else uint (right - left))"

definition pixelDiff :: "color \<Rightarrow> color \<Rightarrow> int" where
  "pixelDiff left right =
     absDiff (red left) (red right) + absDiff (green left) (green right) +
     absDiff (blue left) (blue right)"

definition seam_right :: "picture \<Rightarrow> int \<Rightarrow> int \<Rightarrow> int \<Rightarrow> int" where
  "seam_right img gridSize row col =
     (let leftRect = sliderTileRect (bounds img) gridSize (row * gridSize + col);
          rightRect = sliderTileRect (bounds img) gridSize (row * gridSize + col + 1);
          height = minInt (Dy leftRect) (Dy rightRect)
      in \<Sum>offset\<leftarrow>[0..height - 1].
           pixelDiff (pixel img (max_x leftRect - 1) (min_y leftRect + offset))
             (pixel img (min_x rightRect) (min_y rightRect + offset)))"

definition seam_below :: "picture \<Rightarrow> int \<Rightarrow> int \<Rightarrow> int \<Rightarrow> int" where
  "seam_below img gridSize row col =
     (let topRect = sliderTileRect (bounds img) gridSize (row * gridSize + col);
          bottomRect = sliderTileRect (bounds img) gridSize ((row + 1) * gridSize + col);
          width = minInt (Dx topRect) (Dx bottomRect)
      in \<Sum>offset\<leftarrow>[0..width - 1].
           pixelDiff (pixel img (min_x topRect + offset) (max_y topRect - 1))
             (pixel img (min_x bottomRect + offset) (min_y bottomRect)))"

definition scoreRenderedSliderImage :: "picture \<Rightarrow> int \<Rightarrow> int" where
  "scoreRenderedSliderImage img gridSize =
     (\<Sum>row\<leftarrow>[0..gridSize - 1]. \<Sum>col\<leftarrow>[0..gridSize - 2]. seam_right img gridSize row col) +
     (\<Sum>row\<leftarrow>[0..gridSize - 2]. \<Sum>col\<leftarrow>[0..gridSize - 1]. seam_below img gridSize row col)"

definition scoreSliderCandidate :: "picture \<Rightarrow> int \<Rightarrow> int list \<Rightarrow> (slider_error, int) result" where
  "scoreSliderCandidate img gridSize mapping =
     rbind (renderSliderCandidate img gridSize mapping)
       (\<lambda>rendered. Inr (scoreRenderedSliderImage rendered gridSize))"

section \<open>Candidates\<close>

record sliderCandidate =
  Index :: int
  ActiveSteps :: "int list"
  CScore :: int

text \<open>The first \<open>candidateIndex\<close> pairs of the swaps.\<close>

definition buildSliderActiveSteps :: "int list \<Rightarrow> int \<Rightarrow> int list" where
  "buildSliderActiveSteps swaps candidateIndex =
     (if candidateIndex \<le> 0 then []
      else let end_i = candidateIndex * 2;
               end_i' = (if end_i > int (length swaps) then int (length swaps) else end_i)
           in take (nat end_i') swaps)"

text \<open>
  \<open>make([]int, n)\<close> panics when n numbers of 8 bytes exceed the address space (2^48 bytes on a
  64-bit machine); below that the model's memory is unlimited.
\<close>

definition makeslice_limit :: int where "makeslice_limit = 2 ^ 45"

fun swap_steps :: "int \<Rightarrow> int list \<Rightarrow> int list \<Rightarrow> (slider_error, int list) result" where
  "swap_steps tileCount [] mapping = Inr mapping"
| "swap_steps tileCount [left] mapping = Inl Panic_index"
| "swap_steps tileCount (left # right # steps) mapping =
     (if left < 0 \<or> right < 0 \<or> left \<ge> tileCount \<or> right \<ge> tileCount
      then Inl (Step_out_of_range left right)
      else swap_steps tileCount steps
        (mapping[nat left := mapping ! nat right, nat right := mapping ! nat left]))"

definition buildSliderTileMapping :: "int \<Rightarrow> int list \<Rightarrow> (slider_error, int list) result" where
  "buildSliderTileMapping gridSize activeSteps =
     (let tileCount = tile_count gridSize in
      if tileCount \<le> 0 then Inl (Invalid_tile_count tileCount)
      else if length activeSteps mod 2 \<noteq> 0 then Inl (Invalid_steps_length (length activeSteps))
      else if tileCount > makeslice_limit then Inl (Panic_makeslice tileCount)
      else swap_steps tileCount activeSteps [0..tileCount - 1])"

definition make_candidate :: "picture \<Rightarrow> int \<Rightarrow> int list \<Rightarrow> int \<Rightarrow> (slider_error, sliderCandidate) result" where
  "make_candidate img gridSize swaps idx =
     (let activeSteps = buildSliderActiveSteps swaps idx in
      rbind (buildSliderTileMapping gridSize activeSteps) (\<lambda>mapping.
      rbind (scoreSliderCandidate img gridSize mapping) (\<lambda>score.
        Inr \<lparr>Index = idx, ActiveSteps = activeSteps, CScore = score\<rparr>)))"

fun make_candidates :: "picture \<Rightarrow> int \<Rightarrow> int list \<Rightarrow> int list \<Rightarrow> (slider_error, sliderCandidate list) result" where
  "make_candidates img gridSize swaps [] = Inr []"
| "make_candidates img gridSize swaps (idx # idxs) =
     rbind (make_candidate img gridSize swaps idx) (\<lambda>c.
     rbind (make_candidates img gridSize swaps idxs) (\<lambda>cs. Inr (c # cs)))"

text \<open>The order of the ranking: lower score first, then lower index.\<close>

datatype rank_key = Rank_Key (rk_score: int) (rk_index: int)

instantiation rank_key :: linorder
begin

definition less_eq_rank_key :: "rank_key \<Rightarrow> rank_key \<Rightarrow> bool" where
  "less_eq_rank_key a b \<longleftrightarrow> (if rk_score a = rk_score b then rk_index a \<le> rk_index b else rk_score a < rk_score b)"

definition less_rank_key :: "rank_key \<Rightarrow> rank_key \<Rightarrow> bool" where
  "less_rank_key a b \<longleftrightarrow> (if rk_score a = rk_score b then rk_index a < rk_index b else rk_score a < rk_score b)"

instance
  by standard (auto simp: less_eq_rank_key_def less_rank_key_def intro: rank_key.expand split: if_splits)

end

definition candidate_key :: "sliderCandidate \<Rightarrow> rank_key" where
  "candidate_key c = Rank_Key (CScore c) (Index c)"

definition rankSliderCandidates :: "picture \<Rightarrow> int \<Rightarrow> int list \<Rightarrow> (slider_error, sliderCandidate list) result" where
  "rankSliderCandidates img gridSize swaps =
     (let candidateCount = length swaps div 2 in
      if candidateCount = 0 then Inl No_candidates
      else rbind (make_candidates img gridSize swaps [1..int candidateCount])
        (\<lambda>candidates. Inr (sort_key candidate_key candidates)))"

section \<open>Attempts\<close>

record captchaCheckResult =
  Status :: string
  SuccessToken :: string
  check_type :: string

datatype 'e try_error =
    No_ranked_candidates
  | No_attempts
  | Check_failed 'e
  | Success_token_missing
  | Check_status string
  | Guesses_exhausted

text \<open>The check changes the world \<open>'w\<close> it runs in.\<close>

fun try_loop :: "(sliderCandidate \<Rightarrow> 'w \<Rightarrow> ('e, captchaCheckResult) result \<times> 'w) \<Rightarrow>
    sliderCandidate list \<Rightarrow> 'w \<Rightarrow> ('e try_error, string) result \<times> 'w" where
  "try_loop check [] w = (Inl Guesses_exhausted, w)"
| "try_loop check (c # cs) w =
     (case check c w of
        (Inl e, w') \<Rightarrow> (Inl (Check_failed e), w')
      | (Inr res, w') \<Rightarrow>
          if Status res = ''OK'' then
            (if SuccessToken res = [] then (Inl Success_token_missing, w')
             else (Inr (SuccessToken res), w'))
          else if Status res = ''ERROR_LIMIT'' then (Inl (Check_status (Status res)), w')
          else try_loop check cs w')"

definition trySliderCaptchaCandidates :: "sliderCandidate list \<Rightarrow> int \<Rightarrow>
    (sliderCandidate \<Rightarrow> 'w \<Rightarrow> ('e, captchaCheckResult) result \<times> 'w) \<Rightarrow> 'w \<Rightarrow>
    ('e try_error, string) result \<times> 'w" where
  "trySliderCaptchaCandidates candidates maxAttempts check w =
     (if candidates = [] then (Inl No_ranked_candidates, w)
      else let limit = minInt maxAttempts (int (length candidates)) in
        if limit \<le> 0 then (Inl No_attempts, w)
        else try_loop check (take (nat limit) candidates) w)"

section \<open>Strips and tiles\<close>

text \<open>
  The code cuts n pixels into g strips at the points k * n / g.  The strip that holds pixel t has
  a closed form.
\<close>

definition strip_of :: "int \<Rightarrow> int \<Rightarrow> int \<Rightarrow> int" where
  "strip_of n g t = ((t + 1) * g - 1) div n"

lemma le_div_iff: "0 < (g::int) \<Longrightarrow> t \<le> a div g \<longleftrightarrow> t * g \<le> a"
  by (smt (verit) div_mult_mod_eq mult_right_mono nonzero_mult_div_cancel_right pos_mod_sign zdiv_mono1)

lemma strip_iff:
  assumes "0 < g" and "0 < n"
  shows "k * n div g \<le> t \<and> t < (k + 1) * n div g \<longleftrightarrow> k = strip_of n g t"
proof -
  have le: "j * n div g \<le> t \<longleftrightarrow> j \<le> strip_of n g t" for j
    using le_div_iff [of g "t + 1" "j * n"] le_div_iff [of n j "(t + 1) * g - 1"] assms
    unfolding strip_of_def by linarith
  show ?thesis using le [of k] le [of "k + 1"] by linarith
qed

lemma strip_range:
  assumes "0 < g" and "0 \<le> t" and "t < n"
  shows "0 \<le> strip_of n g t" "strip_of n g t < g"
proof -
  have "g * 1 \<le> g * (t + 1)" "(t + 1) * g \<le> n * g" using assms by (intro mult_left_mono mult_right_mono; simp)+
  then show "0 \<le> strip_of n g t" "strip_of n g t < g"
    using assms le_div_iff [of n 0 "(t + 1) * g - 1"] le_div_iff [of n g "(t + 1) * g - 1"]
    unfolding strip_of_def by (auto simp: mult.commute)
qed

lemma cut_mono: "0 < (g::int) \<Longrightarrow> 0 \<le> n \<Longrightarrow> k * n div g \<le> (k + 1) * n div g"
  by (intro zdiv_mono1) (simp_all add: algebra_simps)

definition tile_at :: "rect \<Rightarrow> int \<Rightarrow> int \<Rightarrow> int \<Rightarrow> int" where
  "tile_at b g x y = strip_of (Dy b) g (y - min_y b) * g + strip_of (Dx b) g (x - min_x b)"

lemma tile_rect:
  assumes "0 < g" and "0 \<le> Dx b" and "0 \<le> Dy b"
  shows "sliderTileRect b g d =
    \<lparr>min_x = min_x b + d mod g * Dx b div g, min_y = min_y b + d div g * Dy b div g,
     max_x = min_x b + (d mod g + 1) * Dx b div g, max_y = min_y b + (d div g + 1) * Dy b div g\<rparr>"
  using cut_mono [OF assms(1,2), of "d mod g"] cut_mono [OF assms(1,3), of "d div g"]
  by (auto simp: sliderTileRect_def Rect_def Let_def)

lemma in_rect_dims: "in_rect b x y \<Longrightarrow> 0 < Dx b \<and> 0 < Dy b \<and> 0 \<le> x - min_x b \<and> x - min_x b < Dx b \<and> 0 \<le> y - min_y b \<and> y - min_y b < Dy b"
  by (auto simp: in_rect_def Dx_def Dy_def)

lemma in_tile_iff:
  assumes "0 < g" and "in_rect b x y"
  shows "in_rect (sliderTileRect b g d) x y \<longleftrightarrow> d = tile_at b g x y"
proof -
  note D = in_rect_dims [OF assms(2)]
  have 1: "in_rect (sliderTileRect b g d) x y \<longleftrightarrow>
      d mod g = strip_of (Dx b) g (x - min_x b) \<and> d div g = strip_of (Dy b) g (y - min_y b)"
    using D assms(1) strip_iff [of g "Dx b" "d mod g" "x - min_x b"] strip_iff [of g "Dy b" "d div g" "y - min_y b"]
    by (simp add: tile_rect in_rect_def) linarith
  have r: "0 \<le> strip_of (Dx b) g (x - min_x b)" "strip_of (Dx b) g (x - min_x b) < g"
    using D assms(1) strip_range [of g "x - min_x b" "Dx b"] by auto
  show ?thesis
  proof
    assume "in_rect (sliderTileRect b g d) x y"
    with 1 have "d = strip_of (Dy b) g (y - min_y b) * g + strip_of (Dx b) g (x - min_x b)"
      by (metis div_mult_mod_eq)
    then show "d = tile_at b g x y" by (simp add: tile_at_def)
  next
    assume "d = tile_at b g x y"
    then show "in_rect (sliderTileRect b g d) x y"
      unfolding 1 using r assms(1) by (auto simp: tile_at_def)
  qed
qed

lemma tile_at_range:
  assumes "0 < g" and "in_rect b x y"
  shows "0 \<le> tile_at b g x y" "tile_at b g x y < g * g"
proof -
  note D = in_rect_dims [OF assms(2)]
  define r where "r = strip_of (Dy b) g (y - min_y b)"
  define c where "c = strip_of (Dx b) g (x - min_x b)"
  have r: "0 \<le> r" "r < g" and c: "0 \<le> c" "c < g"
    using D assms(1) strip_range [of g "x - min_x b" "Dx b"] strip_range [of g "y - min_y b" "Dy b"]
    by (auto simp: r_def c_def)
  have "r * g \<le> (g - 1) * g" using r assms(1) by (intro mult_right_mono) auto
  then show "0 \<le> tile_at b g x y" "tile_at b g x y < g * g"
    using r c assms(1) by (auto simp: tile_at_def r_def [symmetric] c_def [symmetric] algebra_simps)
qed

section \<open>Copying and rendering\<close>

lemma rgba_Set_bounds [simp]: "bounds (rgba_Set x y c p) = bounds p"
  by (simp add: rgba_Set_def)

lemma rgba_Set_pixel:
  "pixel (rgba_Set x y c p) a b = (if a = x \<and> b = y \<and> in_rect (bounds p) a b then color8 c else pixel p a b)"
  by (auto simp: rgba_Set_def)

lemma row_bounds [simp]: "bounds (fold (\<lambda>x. rgba_Set (X x) Y (f x)) xs p) = bounds p"
  by (induction xs arbitrary: p) auto

lemma row_pixel:
  "pixel (fold (\<lambda>x. rgba_Set (x0 + x) Y (f x)) xs p) a b =
     (if b = Y \<and> a - x0 \<in> set xs \<and> in_rect (bounds p) a b then color8 (f (a - x0)) else pixel p a b)"
  by (induction xs arbitrary: p) (auto simp: rgba_Set_pixel)

lemma rows_bounds [simp]: "bounds (fold (\<lambda>y. fold (\<lambda>x. rgba_Set (X x) (Y y) (f y x)) xs) ys p) = bounds p"
  by (induction ys arbitrary: p) auto

lemma rows_pixel:
  "pixel (fold (\<lambda>y. fold (\<lambda>x. rgba_Set (x0 + x) (y0 + y) (f y x)) xs) ys p) a b =
     (if b - y0 \<in> set ys \<and> a - x0 \<in> set xs \<and> in_rect (bounds p) a b
      then color8 (f (b - y0) (a - x0)) else pixel p a b)"
  by (induction ys arbitrary: p) (auto simp: row_pixel)

lemma copyScaledTile_bounds [simp]: "bounds (copyScaledTile dr src sr dst) = bounds dst"
  by (simp add: copyScaledTile_def)

definition scaled :: "rect \<Rightarrow> rect \<Rightarrow> int \<Rightarrow> int \<Rightarrow> int \<times> int" where
  "scaled sr dr a b = (min_x sr + (a - min_x dr) * Dx sr div Dx dr, min_y sr + (b - min_y dr) * Dy sr div Dy dr)"

lemma copyScaledTile_pixel:
  "pixel (copyScaledTile dr src sr dst) a b =
     (if in_rect dr a b \<and> in_rect (bounds dst) a b \<and> \<not> rect_empty sr
      then color8 (case_prod (pixel src) (scaled sr dr a b)) else pixel dst a b)"
  by (auto simp: copyScaledTile_def rows_pixel scaled_def in_rect_def rect_empty_def Dx_def Dy_def)

lemma color8_idem [simp]: "color8 (color8 c) = color8 c"
proof -
  have "channel8 (channel8 v) = channel8 v" for v
    by (rule bit_word_eqI) (auto simp: channel8_def Let_def bit_simps)
  then show ?thesis by (simp add: color8_def)
qed

lemma tiles_bounds [simp]: "bounds (fold (\<lambda>(d, s). copyScaledTile (T d) img (T s)) ps p) = bounds p"
  by (induction ps arbitrary: p) auto

lemma tiles_pixel:
  assumes "0 < g" and "in_rect b x y" and "bounds p = b" and "distinct (map fst ps)"
    and "\<forall>(d, s) \<in> set ps. \<not> rect_empty (sliderTileRect b g s)"
  shows "pixel (fold (\<lambda>(d, s). copyScaledTile (sliderTileRect b g d) img (sliderTileRect b g s)) ps p) x y =
    (case map_of ps (tile_at b g x y) of None \<Rightarrow> pixel p x y
     | Some s \<Rightarrow> color8 (case_prod (pixel img) (scaled (sliderTileRect b g s) (sliderTileRect b g (tile_at b g x y)) x y)))"
  using assms(3-)
proof (induction ps arbitrary: p)
  case (Cons q ps)
  obtain d s where q: "q = (d, s)" by fastforce
  have n: "map_of ps d = None" using Cons.prems(2) by (auto simp: q map_of_eq_None_iff)
  show ?case
    using Cons n assms(1,2) by (auto simp: q copyScaledTile_pixel in_tile_iff split: option.splits)
qed simp

lemma fold_skip: "\<forall>q \<in> set ps. f q p = p \<Longrightarrow> fold f ps p = p"
  by (induction ps) auto

lemma tile_count_id [simp]: "0 < g \<Longrightarrow> g < 2 ^ 31 \<Longrightarrow> tile_count g = g * g"
proof -
  assume g: "0 < g" "g < 2 ^ 31"
  then have "g * g \<le> 2 ^ 31 * 2 ^ 31" by (intro mult_mono) auto
  then have hi: "g * g < 2 ^ 63" by simp
  have "0 \<le> g * g" using g by simp
  then have lo: "- (2 ^ 63) \<le> g * g" by (rule order_trans [rotated]) simp
  from lo hi show ?thesis unfolding tile_count_def by (rule int64_id)
qed

lemma tile_nonempty:
  assumes "0 < g" and "g \<le> Dx b" and "g \<le> Dy b"
  shows "\<not> rect_empty (sliderTileRect b g s)"
proof -
  have "k * n div g < (k + 1) * n div g" if "g \<le> n" for k n
  proof -
    have "k * n div g + 1 = (k * n + g) div g" using assms(1) by (simp add: div_add_self2)
    also have "\<dots> \<le> (k + 1) * n div g" using that assms(1) by (intro zdiv_mono1) (auto simp: algebra_simps)
    finally show ?thesis by simp
  qed
  from this [of "Dx b" "s mod g"] this [of "Dy b" "s div g"] show ?thesis
    using assms by (simp add: tile_rect rect_empty_def not_le)
qed

text \<open>A picture that is an image.RGBA: its pixels are stored in 8 bits, and nothing lies outside.\<close>

definition is_rgba :: "picture \<Rightarrow> bool" where
  "is_rgba p \<longleftrightarrow> (\<exists>q :: picture. p = \<lparr>bounds = bounds p, pixel = (\<lambda>x y. if in_rect (bounds p) x y then color8 (pixel q x y)
     else \<lparr>red = 0, green = 0, blue = 0, alpha = 0\<rparr>)\<rparr>)"

lemma zip_upto_nth: "0 \<le> d \<Longrightarrow> d < int (length m) \<Longrightarrow> map_of (zip [0..int (length m) - 1] m) d = Some (m ! nat d)"
proof -
  assume d: "0 \<le> d" "d < int (length m)"
  have "[0..int (length m) - 1] ! nat d = d" using d by (simp add: nth_upto)
  moreover have "map_of (zip [0..int (length m) - 1] m) ([0..int (length m) - 1] ! nat d) = Some (m ! nat d)"
    using d by (intro map_of_zip_nth) auto
  ultimately show ?thesis by simp
qed

definition rendered_pixel :: "picture \<Rightarrow> int \<Rightarrow> int list \<Rightarrow> int \<Rightarrow> int \<Rightarrow> color" where
  "rendered_pixel img g m x y =
     (let d = tile_at (bounds img) g x y in
      color8 (case_prod (pixel img)
        (scaled (sliderTileRect (bounds img) g (m ! nat d)) (sliderTileRect (bounds img) g d) x y)))"

lemma render_eq:
  assumes "0 < g" and "g < 2 ^ 31" and "g \<le> Dx (bounds img)" and "g \<le> Dy (bounds img)"
    and "int (length m) = g * g"
  shows "renderSliderCandidate img g m = Inr \<lparr>bounds = bounds img,
    pixel = (\<lambda>x y. if in_rect (bounds img) x y then rendered_pixel img g m x y
      else \<lparr>red = 0, green = 0, blue = 0, alpha = 0\<rparr>)\<rparr>" (is "_ = Inr ?r")
proof -
  let ?T = "sliderTileRect (bounds img) g"
  define r where "r = fold (\<lambda>(d, s). copyScaledTile (?T d) img (?T s)) (zip [0..int (length m) - 1] m) (NewRGBA (bounds img))"
  have b: "bounds r = bounds img" by (simp add: r_def NewRGBA_def)
  have out: "pixel r x y = \<lparr>red = 0, green = 0, blue = 0, alpha = 0\<rparr>" if "\<not> in_rect (bounds img) x y" for x y
  proof -
    have "pixel (fold (\<lambda>(d, s). copyScaledTile (?T d) img (?T s)) ps p) x y = pixel p x y" if "bounds p = bounds img" for ps p
      using that \<open>\<not> in_rect (bounds img) x y\<close> by (induction ps arbitrary: p) (auto simp: copyScaledTile_pixel)
    then show ?thesis by (simp add: r_def NewRGBA_def)
  qed
  have ins: "pixel r x y = rendered_pixel img g m x y" if xy: "in_rect (bounds img) x y" for x y
  proof -
    have "0 \<le> tile_at (bounds img) g x y" "tile_at (bounds img) g x y < int (length m)"
      using tile_at_range [OF assms(1) xy] assms(5) by auto
    moreover have "distinct (map fst (zip [0..int (length m) - 1] m))" by (simp add: map_fst_zip_take)
    ultimately show ?thesis unfolding r_def
      by (subst tiles_pixel [OF assms(1) xy])
        (auto simp: NewRGBA_def tile_nonempty assms(1,3,4) zip_upto_nth rendered_pixel_def Let_def)
  qed
  have "r = ?r" using b out ins by (intro picture.equality) (auto simp: fun_eq_iff)
  then show ?thesis using assms by (simp add: renderSliderCandidate_def r_def)
qed

lemma render_is_rgba: "g \<le> Dx (bounds img) \<Longrightarrow> g \<le> Dy (bounds img) \<Longrightarrow> 0 < g \<Longrightarrow> g < 2 ^ 31 \<Longrightarrow> int (length m) = g * g \<Longrightarrow>
  renderSliderCandidate img g m = Inr r \<Longrightarrow> bounds r = bounds img"
  by (auto simp: render_eq)

section \<open>Swaps\<close>

fun rev_pairs :: "'a list \<Rightarrow> 'a list" where
  "rev_pairs (l # r # s) = rev_pairs s @ [l, r]"
| "rev_pairs s = s"

definition steps_ok :: "int \<Rightarrow> int list \<Rightarrow> bool" where
  "steps_ok n s \<longleftrightarrow> even (length s) \<and> (\<forall>i \<in> set s. 0 \<le> i \<and> i < n)"

fun swap_all :: "int list \<Rightarrow> 'a list \<Rightarrow> 'a list" where
  "swap_all (l # r # s) m = swap_all s (m[nat l := m ! nat r, nat r := m ! nat l])"
| "swap_all s m = m"

lemma swap_steps_eq:
  "even (length s) \<Longrightarrow> swap_steps n s m = (if \<forall>i \<in> set s. 0 \<le> i \<and> i < n then Inr (swap_all s m) else swap_steps n s m)"
  by (induction n s m rule: swap_steps.induct) auto

lemma swap_steps_Inr: "swap_steps n s m = Inr m' \<longleftrightarrow> steps_ok n s \<and> m' = swap_all s m"
  by (induction n s m rule: swap_steps.induct) (auto simp: steps_ok_def)

lemma length_swap_all [simp]: "length (swap_all s m) = length m"
  by (induction s m rule: swap_all.induct) auto

lemma mset_swap_all: "steps_ok (int (length m)) s \<Longrightarrow> mset (swap_all s m) = mset m"
proof (induction s m rule: swap_all.induct)
  case (1 l r s m)
  then have "nat l < length m" "nat r < length m" by (auto simp: steps_ok_def)
  then have "mset (m[nat l := m ! nat r, nat r := m ! nat l]) = mset m" by (metis mset_swap)
  with 1 show ?case by (auto simp: steps_ok_def)
qed (auto simp: steps_ok_def)



lemma rev_pairs_parts [simp]: "set (rev_pairs s) = set s" "length (rev_pairs s) = length s"
  by (induction s rule: rev_pairs.induct) auto


lemma rev_pairs_snoc: "even (length t) \<Longrightarrow> rev_pairs (t @ [l, r]) = l # r # rev_pairs t"
  by (induction t rule: rev_pairs.induct) auto

lemma rev_pairs_rev_pairs [simp]: "even (length s) \<Longrightarrow> rev_pairs (rev_pairs s) = s"
  by (induction s rule: rev_pairs.induct) (auto simp: rev_pairs_snoc)


definition mapping_of :: "int \<Rightarrow> int list \<Rightarrow> int list" where
  "mapping_of n s = swap_all s [0..n - 1]"


lemma mapping_of_props:
  assumes "steps_ok n s" and "0 \<le> n"
  shows "length (mapping_of n s) = nat n" "mset (mapping_of n s) = mset [0..n - 1]" "set (mapping_of n s) = {0..<n}"
proof -
  show "length (mapping_of n s) = nat n" by (simp add: mapping_of_def)
  have l: "int (length [0..n - 1]) = n" using assms(2) by simp
  show m: "mset (mapping_of n s) = mset [0..n - 1]"
    unfolding mapping_of_def by (rule mset_swap_all) (simp only: l assms(1))
  have "set (mapping_of n s) = set [0..n - 1]" by (rule mset_eq_setD [OF m])
  also have "\<dots> = {0..<n}" by auto
  finally show "set (mapping_of n s) = {0..<n}" .
qed

lemma grid_small:
  assumes "0 < (g::int)" and "g * g \<le> makeslice_limit"
  shows "g < 2 ^ 31"
proof (rule ccontr)
  assume "\<not> g < 2 ^ 31"
  then have "2 ^ 31 * 2 ^ 31 \<le> g * g" by (intro mult_mono) auto
  with assms(2) show False by (simp add: makeslice_limit_def)
qed

lemma buildSliderTileMapping_eq:
  assumes "0 < g" and "g < 2 ^ 31"
  shows "buildSliderTileMapping g s =
    (if odd (length s) then Inl (Invalid_steps_length (length s))
     else if g * g > makeslice_limit then Inl (Panic_makeslice (g * g))
     else swap_steps (g * g) s [0..g * g - 1])"
  using assms by (simp add: buildSliderTileMapping_def Let_def odd_iff_mod_2_eq_one mult_le_0_iff)

lemma buildSliderTileMapping_Inr:
  assumes "0 < g" and "g * g \<le> makeslice_limit"
  shows "buildSliderTileMapping g s = Inr m \<longleftrightarrow> steps_ok (g * g) s \<and> m = mapping_of (g * g) s"
  using assms grid_small [OF assms]
  by (auto simp: buildSliderTileMapping_eq swap_steps_Inr mapping_of_def steps_ok_def)







section \<open>The size of the score\<close>

lemma absDiff_abs: "absDiff l r = \<bar>uint l - uint r\<bar>"
  using uint_sub_lem [of l r] uint_sub_lem [of r l] by (auto simp: absDiff_def word_less_def)

lemma absDiff_sym: "absDiff l r = absDiff r l"
  by (simp add: absDiff_abs abs_minus_commute)

lemma pixelDiff_props: "pixelDiff a b = pixelDiff b a" "0 \<le> pixelDiff a b"
  "red a = red b \<Longrightarrow> green a = green b \<Longrightarrow> blue a = blue b \<Longrightarrow> pixelDiff a b = 0"
  by (simp_all add: pixelDiff_def absDiff_abs abs_minus_commute)

lemma channel8_le: "uint (channel8 v) \<le> 65535"
proof -
  have "channel8 v = take_bit 16 (channel8 v)"
    by (rule bit_word_eqI) (auto simp: channel8_def Let_def bit_simps dest: bit_imp_le_length)
  then have "uint (channel8 v) = take_bit 16 (uint (channel8 v))" by (metis unsigned_take_bit_eq)
  also have "\<dots> < 2 ^ 16" by (rule take_bit_int_less_exp)
  finally show ?thesis by simp
qed

definition rgba_pixels :: "picture \<Rightarrow> bool" where
  "rgba_pixels p \<longleftrightarrow> (\<forall>x y. color8 (pixel p x y) = pixel p x y)"

lemma pixelDiff_le:
  assumes "color8 a = a" and "color8 b = b"
  shows "pixelDiff a b \<le> 196605"
proof -
  have "absDiff (channel8 v) (channel8 w) \<le> 65535" for v w
    using channel8_le [of v] channel8_le [of w] unfolding absDiff_abs by (smt (verit) uint_ge_0)
  moreover have "red a = channel8 (red a)" "green a = channel8 (green a)" "blue a = channel8 (blue a)"
    "red b = channel8 (red b)" "green b = channel8 (green b)" "blue b = channel8 (blue b)"
    using assms unfolding color8_def by (metis color.select_convs)+
  ultimately have "absDiff (red a) (red b) \<le> 65535" "absDiff (green a) (green b) \<le> 65535" "absDiff (blue a) (blue b) \<le> 65535"
    by metis+
  then show ?thesis by (simp add: pixelDiff_def)
qed

lemma sum_list_le:
  "0 \<le> (c::int) \<Longrightarrow> (\<And>x. x \<in> set xs \<Longrightarrow> f x \<le> c) \<Longrightarrow> (\<Sum>x\<leftarrow>xs. f x) \<le> int (length xs) * c"
  by (induction xs) (auto simp: algebra_simps, smt (verit))

lemma sum_list_ge0: "(\<And>x. x \<in> set xs \<Longrightarrow> 0 \<le> f x) \<Longrightarrow> (0::int) \<le> (\<Sum>x\<leftarrow>xs. f x)"
  by (induction xs) auto

lemma seam_nonneg: "0 \<le> seam_right p g r c" "0 \<le> seam_below p g r c"
  by (auto simp: seam_right_def seam_below_def Let_def pixelDiff_props intro!: sum_list_ge0)

lemma score_nonneg: "0 \<le> scoreRenderedSliderImage p g"
  unfolding scoreRenderedSliderImage_def by (intro add_nonneg_nonneg sum_list_ge0 seam_nonneg)

lemma div_add_le: "0 < (g::int) \<Longrightarrow> (a + b) div g \<le> a div g + b div g + 1"
proof -
  assume g: "0 < g"
  have m: "a = a div g * g + a mod g" "b = b div g * g + b mod g" by simp_all
  have "(a + b) div g * g \<le> a + b" using g le_div_iff [of g "(a + b) div g" "a + b"] by simp
  also have "\<dots> < (a div g + b div g + 2) * g"
    using m pos_mod_bound [OF g, of a] pos_mod_bound [OF g, of b] unfolding distrib_right by linarith
  finally show ?thesis using g by simp
qed

lemma tile_extent:
  assumes "0 < g" and "0 \<le> Dx b" and "0 \<le> Dy b"
  shows "Dx (sliderTileRect b g d) \<le> Dx b div g + 1" "Dy (sliderTileRect b g d) \<le> Dy b div g + 1"
proof -
  have "(k + 1) * n div g \<le> k * n div g + n div g + 1" for k n
    using div_add_le [OF assms(1), of "k * n" n] by (simp add: distrib_right)
  from this [of "d mod g" "Dx b"] this [of "d div g" "Dy b"]
  show "Dx (sliderTileRect b g d) \<le> Dx b div g + 1" "Dy (sliderTileRect b g d) \<le> Dy b div g + 1"
    using assms by (simp_all add: tile_rect Dx_def Dy_def)
qed

lemma seam_le:
  assumes "0 < g" and "0 \<le> Dx (bounds p)" and "0 \<le> Dy (bounds p)" and "rgba_pixels p"
  shows "seam_right p g r c \<le> (Dy (bounds p) div g + 1) * 196605" "seam_below p g r c \<le> (Dx (bounds p) div g + 1) * 196605"
proof -
  have s: "(\<Sum>o'\<leftarrow>[0..h - 1]. pixelDiff (pixel p (f o') (f' o')) (pixel p (h' o') (h'' o'))) \<le> (n div g + 1) * 196605"
    if "h \<le> n div g + 1" "0 \<le> n" for h n f f' h' h''
  proof -
    have "(\<Sum>o'\<leftarrow>[0..h - 1]. pixelDiff (pixel p (f o') (f' o')) (pixel p (h' o') (h'' o'))) \<le> int (length [0..h - 1]) * 196605"
      using assms(4) by (intro sum_list_le pixelDiff_le) (auto simp: rgba_pixels_def)
    also have "\<dots> \<le> (n div g + 1) * 196605"
      using that assms(1) by (intro mult_right_mono) (auto simp: pos_imp_zdiv_nonneg_iff)
    finally show ?thesis .
  qed
  show "seam_right p g r c \<le> (Dy (bounds p) div g + 1) * 196605" "seam_below p g r c \<le> (Dx (bounds p) div g + 1) * 196605"
    unfolding seam_right_def seam_below_def Let_def minInt_min
    by (intro s min.coboundedI1 tile_extent assms)+
qed

text \<open>
  For every JPEG picture and every grid of at most 2^20 tiles a side (2^40 numbers in the mapping)
  the score stays below 2^63: the int64 sum of the code does not wrap.
\<close>

lemma score_in_int64:
  assumes g: "0 < g" "g \<le> 2 ^ 20" and d: "0 \<le> Dx (bounds p)" "Dx (bounds p) \<le> 65535" "0 \<le> Dy (bounds p)" "Dy (bounds p) \<le> 65535"
    and p: "rgba_pixels p"
  shows "scoreRenderedSliderImage p g < 2 ^ 63"
proof -
  have n: "g * (n div g + 1) \<le> 2 ^ 21" if "0 \<le> n" "n \<le> 65535" for n :: int
    using that g by (simp add: distrib_left) (smt (verit) mult.commute div_mult_mod_eq pos_mod_sign)
  have part: "(\<Sum>i\<leftarrow>[0..a - 1]. \<Sum>j\<leftarrow>[0..b - 1]. f i j) \<le> 2 ^ 20 * (2 ^ 21 * 196605)"
    if f: "\<And>i j. f i j \<le> (n div g + 1) * 196605" and ab: "0 \<le> a" "a \<le> g" "0 \<le> b" "b \<le> g" and nn: "0 \<le> n" "n \<le> 65535" for f a b n
  proof -
    have q: "0 \<le> n div g + 1" using nn g by (simp add: pos_imp_zdiv_nonneg_iff add_nonneg_nonneg)
    have inner: "(\<Sum>j\<leftarrow>[0..b - 1]. f i j) \<le> 2 ^ 21 * 196605" for i
    proof -
      have "(\<Sum>j\<leftarrow>[0..b - 1]. f i j) \<le> int (length [0..b - 1]) * ((n div g + 1) * 196605)"
        using q f by (intro sum_list_le) auto
      also have "\<dots> \<le> g * ((n div g + 1) * 196605)" using ab q by (intro mult_right_mono) auto
      also have "\<dots> = (g * (n div g + 1)) * 196605" by simp
      also have "\<dots> \<le> 2 ^ 21 * 196605" using n [OF nn] by (intro mult_right_mono) auto
      finally show ?thesis .
    qed
    have "(\<Sum>i\<leftarrow>[0..a - 1]. \<Sum>j\<leftarrow>[0..b - 1]. f i j) \<le> int (length [0..a - 1]) * (2 ^ 21 * 196605)"
      using inner by (intro sum_list_le) auto
    also have "\<dots> \<le> 2 ^ 20 * (2 ^ 21 * 196605)" using ab g by (intro mult_right_mono) auto
    finally show ?thesis .
  qed
  have "(\<Sum>row\<leftarrow>[0..g - 1]. \<Sum>col\<leftarrow>[0..(g - 1) - 1]. seam_right p g row col) \<le> 2 ^ 20 * (2 ^ 21 * 196605)"
    using g d by (intro part [of _ "Dy (bounds p)"] seam_le(1) [OF g(1) d(1,3) p]) auto
  moreover have "(\<Sum>row\<leftarrow>[0..(g - 1) - 1]. \<Sum>col\<leftarrow>[0..g - 1]. seam_below p g row col) \<le> 2 ^ 20 * (2 ^ 21 * 196605)"
    using g d by (intro part [of _ "Dx (bounds p)"] seam_le(2) [OF g(1) d(1,3) p]) auto
  ultimately show ?thesis by (simp add: scoreRenderedSliderImage_def)
qed
section \<open>Ranking\<close>

lemma make_candidates_Inr:
  "make_candidates img g swaps idxs = Inr cs \<longleftrightarrow> list_all2 (\<lambda>i c. make_candidate img g swaps i = Inr c) idxs cs"
  by (induction idxs arbitrary: cs) (auto simp: rbind_Inr_iff list_all2_Cons1)

lemma make_candidate_fields:
  "make_candidate img g swaps i = Inr c \<Longrightarrow> Index c = i \<and> ActiveSteps c = buildSliderActiveSteps swaps i"
  by (auto simp: make_candidate_def rbind_Inr_iff Let_def)

lemma make_candidates_Index:
  assumes "make_candidates img g swaps idxs = Inr cs"
  shows "map Index cs = idxs" "\<forall>c \<in> set cs. make_candidate img g swaps (Index c) = Inr c"
proof -
  have l: "list_all2 (\<lambda>i c. make_candidate img g swaps i = Inr c) idxs cs"
    using assms by (simp add: make_candidates_Inr)
  then show "map Index cs = idxs"
    by (induction rule: list_all2_induct) (auto dest: make_candidate_fields)
  from l show "\<forall>c \<in> set cs. make_candidate img g swaps (Index c) = Inr c"
    by (induction rule: list_all2_induct) (auto dest: make_candidate_fields)
qed

lemma rank_Inr:
  assumes "rankSliderCandidates img g swaps = Inr cs"
  shows "sorted (map candidate_key cs)" "mset (map Index cs) = mset [1..int (length swaps div 2)]"
    "\<forall>c \<in> set cs. make_candidate img g swaps (Index c) = Inr c" "cs \<noteq> []"
proof -
  obtain xs where xs: "make_candidates img g swaps [1..int (length swaps div 2)] = Inr xs"
    and cs: "cs = sort_key candidate_key xs" and ne: "length swaps div 2 \<noteq> 0"
    using assms by (auto simp: rankSliderCandidates_def rbind_Inr_iff Let_def split: if_splits)
  show "sorted (map candidate_key cs)" by (simp add: cs)
  show m: "mset (map Index cs) = mset [1..int (length swaps div 2)]"
    unfolding cs mset_map mset_sort unfolding mset_map [symmetric] make_candidates_Index(1) [OF xs] ..
  show "\<forall>c \<in> set cs. make_candidate img g swaps (Index c) = Inr c"
    using make_candidates_Index(2) [OF xs] by (simp add: cs)
  show "cs \<noteq> []" using make_candidates_Index(1) [OF xs] ne by (auto simp: cs dest: arg_cong [of _ _ length])
qed

lemma buildSliderActiveSteps_take:
  assumes "0 \<le> k"
  shows "buildSliderActiveSteps swaps k = take (nat (2 * k)) swaps"
  using assms by (cases "2 * k \<le> int (length swaps)") (auto simp: buildSliderActiveSteps_def Let_def mult.commute)

lemma steps_ok_take: "steps_ok n s \<Longrightarrow> even j \<Longrightarrow> steps_ok n (take j s)"
  unfolding steps_ok_def using set_take_subset [of j s] by (auto simp: min_def)

lemma make_candidate_Inr:
  assumes "0 < g" and "g * g \<le> makeslice_limit" and "g \<le> Dx (bounds img)" and "g \<le> Dy (bounds img)"
    and "steps_ok (g * g) swaps" and "0 \<le> k"
  shows "\<exists>r. renderSliderCandidate img g (mapping_of (g * g) (take (nat (2 * k)) swaps)) = Inr r \<and>
    make_candidate img g swaps k = Inr \<lparr>Index = k, ActiveSteps = take (nat (2 * k)) swaps, CScore = scoreRenderedSliderImage r g\<rparr>"
proof -
  let ?s = "take (nat (2 * k)) swaps"
  have s: "steps_ok (g * g) ?s" using assms(5,6) by (intro steps_ok_take) (auto simp: even_nat_iff)
  have m: "buildSliderTileMapping g ?s = Inr (mapping_of (g * g) ?s)"
    using s by (simp add: buildSliderTileMapping_Inr [OF assms(1,2)])
  have "int (length (mapping_of (g * g) ?s)) = g * g" using assms(1) by (simp add: mapping_of_def)
  from render_eq [OF assms(1) grid_small [OF assms(1,2)] assms(3,4) this]
  obtain r where "renderSliderCandidate img g (mapping_of (g * g) ?s) = Inr r" by blast
  then show ?thesis
    using m by (simp add: make_candidate_def buildSliderActiveSteps_take assms(6) scoreSliderCandidate_def)
qed

lemma make_candidates_total:
  "(\<And>i. i \<in> set idxs \<Longrightarrow> \<exists>c. make_candidate img g swaps i = Inr c) \<Longrightarrow> \<exists>cs. make_candidates img g swaps idxs = Inr cs"
  by (induction idxs) (auto, force simp: rbind_def)

lemma rank_total:
  assumes "0 < g" and "g * g \<le> makeslice_limit" and "g \<le> Dx (bounds img)" and "g \<le> Dy (bounds img)"
    and "steps_ok (g * g) swaps" and "swaps \<noteq> []"
  shows "\<exists>cs. rankSliderCandidates img g swaps = Inr cs"
proof -
  have "\<exists>cs. make_candidates img g swaps [1..int (length swaps div 2)] = Inr cs"
  proof (rule make_candidates_total)
    fix i assume "i \<in> set [1..int (length swaps div 2)]"
    then have "0 \<le> i" by simp
    from make_candidate_Inr [OF assms(1-5) this] show "\<exists>c. make_candidate img g swaps i = Inr c" by blast
  qed
  moreover have "length swaps div 2 \<noteq> 0"
    using assms(5,6) by (cases swaps; cases "tl swaps") (auto simp: steps_ok_def)
  ultimately show ?thesis by (auto simp: rankSliderCandidates_def Let_def)
qed



section \<open>Properties\<close>

text \<open>
  After any part of the swaps the tiles are a permutation: for a grid of g by g tiles that
  fits the address space, buildSliderTileMapping succeeds exactly when the steps come in pairs
  of tile numbers, and then every tile occurs once.  Otherwise it returns an error, and a grid too large is a panic
  of make, with any steps that come in pairs.
\<close>

theorem slider_mapping_permutation:
  assumes "0 < g" and "g < 2 ^ 31"
  shows "case buildSliderTileMapping g s of
      Inr m \<Rightarrow> steps_ok (g * g) s \<and> g * g \<le> makeslice_limit \<and> mset m = mset [0..g * g - 1]
    | Inl (Panic_makeslice n) \<Rightarrow> n = g * g \<and> makeslice_limit < g * g \<and> even (length s)
    | Inl e \<Rightarrow> \<not> steps_ok (g * g) s"
proof -
  have s: "swap_steps (g * g) s m = Inl (Panic_makeslice n) \<Longrightarrow> False" for m n
    by (induction "g * g" s m rule: swap_steps.induct) (auto split: if_splits)
  show ?thesis
  proof (cases "buildSliderTileMapping g s")
    case (Inl e)
    then have "makeslice_limit < g * g \<and> even (length s) \<and> e = Panic_makeslice (g * g) \<or>
        \<not> steps_ok (g * g) s \<and> (\<forall>n. e \<noteq> Panic_makeslice n)"
      using assms s swap_steps_Inr [of "g * g" s "[0..g * g - 1]"]
      by (auto simp: buildSliderTileMapping_eq steps_ok_def split: if_splits)
    then show ?thesis using Inl by (auto split: slider_error.split)
  next
    case (Inr m)
    then have "steps_ok (g * g) s" "g * g \<le> makeslice_limit" "m = mapping_of (g * g) s"
      using assms by (auto simp: buildSliderTileMapping_eq swap_steps_Inr mapping_of_def split: if_splits)
    then show ?thesis using Inr mapping_of_props(2) [of "g * g" s] by simp
  qed
qed

theorem slider_mapping_permutation_witness:
  "case buildSliderTileMapping 2 [0, 3, 1, 2] of
      Inr m \<Rightarrow> steps_ok (2 * 2) [0, 3, 1, 2] \<and> 2 * 2 \<le> makeslice_limit \<and> mset m = mset [0..2 * 2 - 1]
    | Inl (Panic_makeslice n) \<Rightarrow> n = 2 * 2 \<and> makeslice_limit < 2 * 2 \<and> even (length [0, 3, 1, 2 :: int])
    | Inl e \<Rightarrow> \<not> steps_ok (2 * 2) [0, 3, 1, 2]"
  by (rule slider_mapping_permutation) simp_all


text \<open>A picture of two by two pixels, scrambled by one swap.\<close>

definition test_pixel :: "int \<Rightarrow> int \<Rightarrow> color" where
  "test_pixel x y = \<lparr>red = of_int (256 * (x + 2 * y)), green = 0, blue = 0, alpha = 0\<rparr>"

definition test_orig :: picture where
  "test_orig = \<lparr>bounds = Rect 0 0 2 2, pixel = (\<lambda>x y. if in_rect (Rect 0 0 2 2) x y then color8 (test_pixel x y)
     else \<lparr>red = 0, green = 0, blue = 0, alpha = 0\<rparr>)\<rparr>"

definition test_shown :: picture where
  "test_shown = (case renderSliderCandidate test_orig 2 [1, 0, 2, 3] of Inr p \<Rightarrow> p | Inl _ \<Rightarrow> test_orig)"

lemma test_orig_facts:
  "is_rgba test_orig" "Dx (bounds test_orig) = 2" "Dy (bounds test_orig) = 2"
  "renderSliderCandidate test_orig 2 [1, 0, 2, 3] = Inr test_shown"
proof -
  show "is_rgba test_orig" unfolding is_rgba_def
    by (rule exI [of _ "\<lparr>bounds = Rect 0 0 2 2, pixel = test_pixel\<rparr>"]) (simp add: test_orig_def cong: if_cong)
  show d: "Dx (bounds test_orig) = 2" "Dy (bounds test_orig) = 2" by (simp_all add: test_orig_def Rect_def Dx_def Dy_def)
  then show "renderSliderCandidate test_orig 2 [1, 0, 2, 3] = Inr test_shown"
    by (simp add: test_shown_def render_eq)
qed


text \<open>
  The ranking is complete and ordered: it holds each of the candidates 1 to n once, each with
  its own steps and the score of its own rendering, by increasing score and, where scores are equal, by
  increasing number.  So its order is determined, and the first has the lowest score.
\<close>

theorem slider_ranking:
  assumes "rankSliderCandidates img g swaps = Inr cs"
  shows "sorted_wrt (\<lambda>a b. CScore a < CScore b \<or> CScore a = CScore b \<and> Index a < Index b) cs \<and>
    mset (map Index cs) = mset [1..int (length swaps div 2)] \<and>
    (\<forall>c \<in> set cs. ActiveSteps c = take (nat (2 * Index c)) swaps \<and>
      rbind (buildSliderTileMapping g (ActiveSteps c)) (scoreSliderCandidate img g) = Inr (CScore c))"
proof (intro conjI ballI)
  note R = rank_Inr [OF assms]
  have d: "distinct (map Index cs)" using mset_eq_imp_distinct_iff [OF R(2)] by simp
  have "sorted_wrt (\<lambda>a b. candidate_key a \<le> candidate_key b \<and> Index a \<noteq> Index b) cs"
    using R(1) d unfolding sorted_map distinct_map by (induction cs) (auto simp: inj_on_def)
  then show "sorted_wrt (\<lambda>a b. CScore a < CScore b \<or> CScore a = CScore b \<and> Index a < Index b) cs"
    by (rule sorted_wrt_mono_rel [rotated]) (auto simp: candidate_key_def less_eq_rank_key_def split: if_splits)
  show "mset (map Index cs) = mset [1..int (length swaps div 2)]" by (rule R(2))
  fix c assume c: "c \<in> set cs"
  then have "Index c \<in> set (map Index cs)" by simp
  then have "Index c \<in> set [1..int (length swaps div 2)]" using mset_eq_setD [OF R(2)] by metis
  moreover have mk: "make_candidate img g swaps (Index c) = Inr c" using R(3) c by blast
  ultimately show s: "ActiveSteps c = take (nat (2 * Index c)) swaps"
    using make_candidate_fields [OF mk] by (simp add: buildSliderActiveSteps_take)
  show "rbind (buildSliderTileMapping g (ActiveSteps c)) (scoreSliderCandidate img g) = Inr (CScore c)"
    using mk make_candidate_fields [OF mk] by (auto simp: make_candidate_def Let_def rbind_Inr_iff)
      (metis sliderCandidate.select_convs(3))
qed

theorem slider_ranking_witness:
  "\<exists>cs. rankSliderCandidates test_orig 2 [0, 1, 2, 3] = Inr cs \<and>
    sorted_wrt (\<lambda>a b. CScore a < CScore b \<or> CScore a = CScore b \<and> Index a < Index b) cs \<and>
    mset (map Index cs) = mset [1..int (length [0, 1, 2, 3 :: int] div 2)] \<and>
    (\<forall>c \<in> set cs. ActiveSteps c = take (nat (2 * Index c)) [0, 1, 2, 3] \<and>
      rbind (buildSliderTileMapping 2 (ActiveSteps c)) (scoreSliderCandidate test_orig 2) = Inr (CScore c))"
proof -
  obtain cs where cs: "rankSliderCandidates test_orig 2 [0, 1, 2, 3] = Inr cs"
    using rank_total [of 2 test_orig "[0, 1, 2, 3]"] by (auto simp: test_orig_facts makeslice_limit_def steps_ok_def)
  from slider_ranking [OF this] cs show ?thesis by blast
qed

section \<open>Attempts\<close>

text \<open>A check that also writes down the candidates it was asked for and its answers.\<close>

definition recording :: "(sliderCandidate \<Rightarrow> 'w \<Rightarrow> ('e, captchaCheckResult) result \<times> 'w) \<Rightarrow> sliderCandidate \<Rightarrow>
    'w \<times> (sliderCandidate \<times> ('e, captchaCheckResult) result) list \<Rightarrow>
    ('e, captchaCheckResult) result \<times> 'w \<times> (sliderCandidate \<times> ('e, captchaCheckResult) result) list" where
  "recording check c = (\<lambda>(w, l). case check c w of (a, w') \<Rightarrow> (a, w', l @ [(c, a)]))"

definition continuing :: "('e, captchaCheckResult) result \<Rightarrow> bool" where
  "continuing a \<longleftrightarrow> (case a of Inl _ \<Rightarrow> False | Inr r \<Rightarrow> Status r \<noteq> ''OK'' \<and> Status r \<noteq> ''ERROR_LIMIT'')"

text \<open>What the outcome of the attempts says about the last answer.\<close>

fun outcome_of :: "('e, captchaCheckResult) result \<Rightarrow> ('e try_error, string) result" where
  "outcome_of (Inl e) = Inl (Check_failed e)"
| "outcome_of (Inr r) =
     (if Status r = ''OK'' then if SuccessToken r = [] then Inl Success_token_missing else Inr (SuccessToken r)
      else if Status r = ''ERROR_LIMIT'' then Inl (Check_status (Status r)) else Inl Guesses_exhausted)"

lemma try_loop_recording:
  "case try_loop (recording check) cs (w, l) of (r, (w', tried)) \<Rightarrow>
    \<exists>new. tried = l @ new \<and> prefix (map fst new) cs \<and> list_all (\<lambda>a. continuing (snd a)) (butlast new) \<and>
      (if new = [] then cs = [] \<and> r = Inl Guesses_exhausted else r = outcome_of (snd (last new))) \<and>
      (new \<noteq> [] \<and> \<not> continuing (snd (last new)) \<or> map fst new = cs)"
proof (induction cs arbitrary: w l)
  case (Cons c cs)
  obtain a w' where a: "check c w = (a, w')" by fastforce
  show ?case
  proof (cases "continuing a")
    case False
    then have "try_loop (recording check) (c # cs) (w, l) = (outcome_of a, w', l @ [(c, a)])"
      by (cases a) (auto simp: recording_def a continuing_def)
    then show ?thesis using False by (auto simp: a)
  next
    case True
    then have e: "try_loop (recording check) (c # cs) (w, l) = try_loop (recording check) cs (w', l @ [(c, a)])"
      by (cases a) (auto simp: recording_def a continuing_def)
    obtain r w'' tried where r: "try_loop (recording check) cs (w', l @ [(c, a)]) = (r, w'', tried)" by (cases "try_loop (recording check) cs (w', l @ [(c, a)])") auto
    have g: "outcome_of a = Inl Guesses_exhausted" using True by (cases a) (auto simp: continuing_def)
    from Cons.IH [where w = w' and l = "l @ [(c, a)]"] r obtain new where new: "tried = l @ (c, a) # new" "prefix (map fst new) cs"
      "list_all (\<lambda>a. continuing (snd a)) (butlast new)" "if new = [] then cs = [] \<and> r = Inl Guesses_exhausted else r = outcome_of (snd (last new))"
      "new \<noteq> [] \<and> \<not> continuing (snd (last new)) \<or> map fst new = cs" by auto
    show ?thesis unfolding e r using new True g by (auto intro!: exI [of _ "(c, a) # new"])
  qed
qed simp

text \<open>
  C16.  The server is asked about the candidates in rank order, about each at most once, and never
  more often than the attempts it allows; the first answer that is an error, OK or ERROR_LIMIT ends
  the attempts and decides the result, a token is returned only when it is not empty and that
  answer granted it, and without such an answer every allowed candidate has been tried.
\<close>

theorem slider_attempts:
  "case trySliderCaptchaCandidates cs n (recording check) (w, []) of (r, (w', tried)) \<Rightarrow>
     prefix (map fst tried) cs \<and> int (length tried) \<le> max 0 n \<and> list_all (\<lambda>a. continuing (snd a)) (butlast tried) \<and>
     r = (if cs = [] then Inl No_ranked_candidates else if n \<le> 0 then Inl No_attempts
          else outcome_of (snd (last tried))) \<and>
     (tried = [] \<or> \<not> continuing (snd (last tried)) \<or> int (length tried) = min n (int (length cs))) \<and>
     (tried = [] \<longleftrightarrow> cs = [] \<or> n \<le> 0)"
proof (cases "cs = [] \<or> n \<le> 0")
  case True
  then show ?thesis by (auto simp: trySliderCaptchaCandidates_def minInt_min Let_def)
next
  case False
  let ?l = "min n (int (length cs))"
  obtain r w' tried where r: "try_loop (recording check) (take (nat ?l) cs) (w, []) = (r, w', tried)"
    by (cases "try_loop (recording check) (take (nat ?l) cs) (w, [])") auto
  have L: "cs \<noteq> []" "\<not> ?l \<le> 0" using False by (auto simp: min_le_iff_disj)
  with r have t: "trySliderCaptchaCandidates cs n (recording check) (w, []) = (r, w', tried)"
    by (simp add: trySliderCaptchaCandidates_def minInt_min Let_def)
  have P: "prefix (map fst tried) (take (nat ?l) cs)" "list_all (\<lambda>a. continuing (snd a)) (butlast tried)"
      "if tried = [] then take (nat ?l) cs = [] \<and> r = Inl Guesses_exhausted else r = outcome_of (snd (last tried))"
      "tried \<noteq> [] \<and> \<not> continuing (snd (last tried)) \<or> map fst tried = take (nat ?l) cs"
    using try_loop_recording [where check = check and cs = "take (nat ?l) cs" and w = w and l = "[]"] r by auto
  have ne: "tried \<noteq> []" using P(3) L by (auto split: if_splits)
  have l: "int (length tried) \<le> ?l" using prefix_length_le [OF P(1)] False by auto
  have p: "prefix (map fst tried) cs" using P(1) take_is_prefix prefix_order.trans by blast
  have R: "r = outcome_of (snd (last tried))" using P(3) ne by simp
  have n: "int (length tried) \<le> max 0 n" using l by linarith
  have e: "\<not> continuing (snd (last tried)) \<or> int (length tried) = ?l"
  proof (cases "map fst tried = take (nat ?l) cs")
    case True
    from arg_cong [OF this, of length] False show ?thesis by simp
  next
    case False
    with P(4) show ?thesis by simp
  qed
  show ?thesis unfolding t prod.case using p P(2) R n e ne False by simp
qed

text \<open>The first candidate is refused, the second granted, the third not tried.\<close>

definition test_check :: "sliderCandidate \<Rightarrow> nat \<Rightarrow> (unit, captchaCheckResult) result \<times> nat" where
  "test_check c n = (Inr \<lparr>Status = (if n = 0 then ''ERROR'' else ''OK''), SuccessToken = ''t'', check_type = []\<rparr>, n + 1)"

theorem slider_attempts_witness:
  "\<forall>a b c. \<exists>w' tried. trySliderCaptchaCandidates [a, b, c] 2 (recording test_check) (0, []) = (Inr ''t'', (w', tried)) \<and>
     prefix (map fst tried) [a, b, c] \<and> length tried \<le> 2"
proof (intro allI)
  fix a b c :: sliderCandidate
  obtain w' tried where t: "trySliderCaptchaCandidates [a, b, c] 2 (recording test_check) (0, []) = (Inr ''t'', (w', tried))"
    by (simp add: trySliderCaptchaCandidates_def minInt_def recording_def test_check_def eval_nat_numeral)
  from slider_attempts [of "[a, b, c]" 2 test_check 0] have p: "prefix (map fst tried) [a, b, c] \<and> int (length tried) \<le> max 0 2"
    unfolding t prod.case by (elim conjE) (intro conjI)
  then have "length tried \<le> 2" by linarith
  then show "\<exists>w' tried. trySliderCaptchaCandidates [a, b, c] 2 (recording test_check) (0, []) = (Inr ''t'', (w', tried)) \<and>
      prefix (map fst tried) [a, b, c] \<and> length tried \<le> 2" using t p by blast
qed

end
