(* ===== verification/Go_Net.thy ===== *)
theory Go_Net
  imports TG_Prelude Complex_Main "HOL-Library.Char_ord" "HOL-Library.List_Lexorder"
begin

text \<open>
  What the HTTP clients of the program share: actions on the outside world that may fail, values
  of encoding/json as Go holds them in an interface, their printing, query strings (net/url),
  headers (net/http) and host:port pairs (package net).

  Reading JSON text is a parameter of the components: a function from a text to the value or none.
\<close>

section \<open>Actions on the world\<close>

type_synonym ('e, 'w, 'a) act = "'w \<Rightarrow> ('e, 'a) result \<times> 'w"

definition wret :: "'a \<Rightarrow> ('e, 'w, 'a) act" where
  "wret x = (\<lambda>w. (Inr x, w))"

definition wfail :: "'e \<Rightarrow> ('e, 'w, 'a) act" where
  "wfail e = (\<lambda>w. (Inl e, w))"

definition wbind :: "('e, 'w, 'a) act \<Rightarrow> ('a \<Rightarrow> ('e, 'w, 'b) act) \<Rightarrow> ('e, 'w, 'b) act" where
  "wbind m f = (\<lambda>w. case m w of (Inl e, w') \<Rightarrow> (Inl e, w') | (Inr x, w') \<Rightarrow> f x w')"

text \<open>An action whose outcome is looked at, error or not: \<open>x, err := m\<close>.\<close>

definition wtry :: "('e, 'w, 'a) act \<Rightarrow> ('f, 'w, ('e, 'a) result) act" where
  "wtry m = (\<lambda>w. case m w of (r, w') \<Rightarrow> (Inr r, w'))"

definition wlift :: "('e, 'a) result \<Rightarrow> ('e, 'w, 'a) act" where
  "wlift r = (\<lambda>w. (r, w))"

text \<open>\<open>fmt.Errorf("...: %w", err)\<close>: the error of an action, wrapped.\<close>

definition wwrap :: "('e \<Rightarrow> 'f) \<Rightarrow> ('e, 'w, 'a) act \<Rightarrow> ('f, 'w, 'a) act" where
  "wwrap f m = (\<lambda>w. case m w of (Inl e, w') \<Rightarrow> (Inl (f e), w') | (Inr x, w') \<Rightarrow> (Inr x, w'))"

lemma wbind_eq:
  "wbind m f w = (case m w of (Inl e, w') \<Rightarrow> (Inl e, w') | (Inr x, w') \<Rightarrow> f x w')"
  by (simp add: wbind_def)

lemma wbind_Inr_iff:
  "wbind m f w = (Inr y, w'') \<longleftrightarrow> (\<exists>x w'. m w = (Inr x, w') \<and> f x w' = (Inr y, w''))"
  by (auto simp: wbind_def split: prod.splits sum.splits)

lemma wtry_iff: "wtry m w = (s, w') \<longleftrightarrow> (\<exists>r. m w = (r, w') \<and> s = Inr r)"
  by (auto simp: wtry_def split: prod.splits)

lemma wwrap_Inr_iff: "wwrap f m w = (Inr y, w') \<longleftrightarrow> m w = (Inr y, w')"
  by (auto simp: wwrap_def split: prod.splits sum.splits)

lemma wret_iff: "wret x w = (r, w') \<longleftrightarrow> r = Inr x \<and> w' = w"
  by (auto simp: wret_def)

lemma wfail_iff: "wfail e w = (r, w') \<longleftrightarrow> r = Inl e \<and> w' = w"
  by (auto simp: wfail_def)

lemma wlift_iff: "wlift x w = (r, w') \<longleftrightarrow> r = x \<and> w' = w"
  by (auto simp: wlift_def)

lemmas act_iff = wbind_Inr_iff wtry_iff wwrap_Inr_iff wret_iff wfail_iff wlift_iff

text \<open>The same operation in a world that also keeps what was sent and what came back.\<close>

definition logged :: "('q \<Rightarrow> ('e, 'w, 'a) act) \<Rightarrow> 'q \<Rightarrow> ('e, 'w \<times> ('q \<times> ('e, 'a) result) list, 'a) act" where
  "logged op q = (\<lambda>(w, l). case op q w of (r, w') \<Rightarrow> (r, (w', l @ [(q, r)])))"

lemma logged_iff: "logged op q (w, l) = (r, wl') \<longleftrightarrow> (\<exists>w'. op q w = (r, w') \<and> wl' = (w', l @ [(q, r)]))"
  by (auto simp: logged_def split: prod.splits)

section \<open>Values of encoding/json\<close>

text \<open>
  \<open>JInt\<close> is a Go int the program puts into a value itself; reading JSON text only gives float64
  numbers.  The entries of an object stand in the order in which a range over the map meets them.
\<close>

datatype json =
    JNull
  | JBool bool
  | JNumber rat
  | JInt int
  | JString string
  | JArr "json list"
  | JObj "(string \<times> json) list"

text \<open>Type assertions, and indexing a map: an absent key gives nil.\<close>

fun as_obj :: "json \<Rightarrow> (string \<times> json) list option" where
  "as_obj (JObj m) = Some m"
| "as_obj _ = None"

fun as_arr :: "json \<Rightarrow> json list option" where
  "as_arr (JArr xs) = Some xs"
| "as_arr _ = None"

fun as_str :: "json \<Rightarrow> string option" where
  "as_str (JString s) = Some s"
| "as_str _ = None"

fun as_num :: "json \<Rightarrow> rat option" where
  "as_num (JNumber x) = Some x"
| "as_num _ = None"

definition str_or_empty :: "json \<Rightarrow> string" where
  "str_or_empty j = (case as_str j of Some s \<Rightarrow> s | None \<Rightarrow> [])"

definition field :: "(string \<times> json) list \<Rightarrow> string \<Rightarrow> json" where
  "field m k = (case map_of m k of Some v \<Rightarrow> v | None \<Rightarrow> JNull)"

lemma str_or_empty_simps [simp]: "str_or_empty (JString s) = s" "str_or_empty JNull = []"
  by (simp_all add: str_or_empty_def)

section \<open>Printing JSON (json.Marshal)\<close>

definition hex4 :: "nat \<Rightarrow> string" where
  "hex4 n = [hex_digit (n div 4096 mod 16), hex_digit (n div 256 mod 16),
     hex_digit (n div 16 mod 16), hex_digit (n mod 16)]"

definition bs :: char where "bs = CHR 0x5C"

text \<open>
  One character of a string; \<open>html\<close> is the encoder's EscapeHTML.  The string is taken to be valid
  UTF-8; U+2028 and U+2029 are always escaped.
\<close>

definition json_char :: "bool \<Rightarrow> char \<Rightarrow> string" where
  "json_char html c = (let n = of_char c :: nat in
     if n = 34 \<or> n = 92 then [bs, c]
     else if n = 8 then [bs, CHR ''b''] else if n = 12 then [bs, CHR ''f'']
     else if n = 10 then [bs, CHR ''n''] else if n = 13 then [bs, CHR ''r'']
     else if n = 9 then [bs, CHR ''t'']
     else if n < 32 \<or> html \<and> (n = 60 \<or> n = 62 \<or> n = 38) then bs # CHR ''u'' # hex4 n
     else [c])"

fun json_chars :: "bool \<Rightarrow> string \<Rightarrow> string" where
  "json_chars html (a # b # c # s) =
     (if a = CHR 0xE2 \<and> b = CHR 0x80 \<and> (c = CHR 0xA8 \<or> c = CHR 0xA9)
      then bs # CHR ''u'' # hex4 (if c = CHR 0xA8 then 8232 else 8233) @ json_chars html s
      else json_char html a @ json_chars html (b # c # s))"
| "json_chars html (a # s) = json_char html a @ json_chars html s"
| "json_chars html [] = []"

definition json_string :: "bool \<Rightarrow> string \<Rightarrow> string" where
  "json_string html s = CHR 0x22 # json_chars html s @ [CHR 0x22]"

text \<open>Maps are printed in the order of their keys; \<open>num\<close> prints a float64.\<close>

fun json_text :: "(rat \<Rightarrow> string) \<Rightarrow> bool \<Rightarrow> json \<Rightarrow> string" where
  "json_text num html JNull = ''null''"
| "json_text num html (JBool b) = (if b then ''true'' else ''false'')"
| "json_text num html (JNumber x) = num x"
| "json_text num html (JInt i) = int_dec i"
| "json_text num html (JString s) = json_string html s"
| "json_text num html (JArr xs) = ''['' @ str_join '','' (map (json_text num html) xs) @ '']''"
| "json_text num html (JObj m) =
     ''{'' @ str_join '','' (map (\<lambda>(k, t). json_string html k @ '':'' @ t)
        (sort_key fst (map (\<lambda>(k, v). (k, json_text num html v)) m))) @ ''}''"

section \<open>Base64 (encoding/base64, StdEncoding)\<close>

definition b64_char :: "nat \<Rightarrow> char" where
  "b64_char n = (if n < 26 then char_of (65 + n) else if n < 52 then char_of (71 + n)
     else if n < 62 then char_of (n - 4) else if n = 62 then CHR ''+'' else CHR ''/'')"

fun b64_encode :: "string \<Rightarrow> string" where
  "b64_encode [] = []"
| "b64_encode [a] = (let n = of_char a * 65536 in
     [b64_char (n div 262144), b64_char (n div 4096 mod 64), CHR ''='', CHR ''=''])"
| "b64_encode [a, b] = (let n = of_char a * 65536 + of_char b * 256 in
     [b64_char (n div 262144), b64_char (n div 4096 mod 64), b64_char (n div 64 mod 64), CHR ''=''])"
| "b64_encode (a # b # c # s) = (let n = of_char a * 65536 + of_char b * 256 + of_char c in
     b64_char (n div 262144) # b64_char (n div 4096 mod 64) # b64_char (n div 64 mod 64) #
     b64_char (n mod 64) # b64_encode s)"

section \<open>Query strings (net/url)\<close>

definition unreserved :: "char \<Rightarrow> bool" where
  "unreserved c = (let n = of_char c :: nat in
     48 \<le> n \<and> n \<le> 57 \<or> 65 \<le> n \<and> n \<le> 90 \<or> 97 \<le> n \<and> n \<le> 122 \<or> n \<in> {45, 46, 95, 126})"

definition upper_hex :: "nat \<Rightarrow> char" where
  "upper_hex d = (if d < 10 then char_of (48 + d) else char_of (55 + d))"

definition query_escape_char :: "char \<Rightarrow> string" where
  "query_escape_char c = (let n = of_char c :: nat in
     if unreserved c then [c] else if n = 32 then ''+''
     else [CHR 0x25, upper_hex (n div 16), upper_hex (n mod 16)])"

definition QueryEscape :: "string \<Rightarrow> string" where
  "QueryEscape s = concat (map query_escape_char s)"

text \<open>\<open>url.Values\<close> with one value per key, as Set leaves it; Encode sorts by key.\<close>

type_synonym form = "(string \<times> string) list"

definition val_set :: "string \<Rightarrow> string \<Rightarrow> form \<Rightarrow> form" where
  "val_set k v vs = (k, v) # filter (\<lambda>(k', _). k' \<noteq> k) vs"

definition val_encode :: "form \<Rightarrow> string" where
  "val_encode vs = str_join ''&'' (map (\<lambda>(k, v). QueryEscape k @ ''='' @ QueryEscape v) (sort_key fst vs))"

text \<open>Reading a query string back, as the server does: \<open>url.ParseQuery\<close>.\<close>

fun query_unescape :: "string \<Rightarrow> string option" where
  "query_unescape [] = Some []"
| "query_unescape (c # s) =
     (if c = CHR 0x25 then
        (case s of a # b # s' \<Rightarrow>
           (case (hex_val a, hex_val b) of
              (Some x, Some y) \<Rightarrow> map_option ((#) (char_of (16 * x + y))) (query_unescape s')
            | _ \<Rightarrow> None)
         | _ \<Rightarrow> None)
      else map_option ((#) (if c = CHR ''+'' then CHR '' '' else c)) (query_unescape s))"

text \<open>The first value of a key in a query string, and all values of it.\<close>

definition cut_at :: "char \<Rightarrow> string \<Rightarrow> string \<times> string" where
  "cut_at c s = (takeWhile (\<lambda>x. x \<noteq> c) s, drop 1 (dropWhile (\<lambda>x. x \<noteq> c) s))"

definition query_pair :: "string \<Rightarrow> (string \<times> string) option" where
  "query_pair p = (if p = [] \<or> CHR '';'' \<in> set p then None
     else case cut_at CHR ''='' p of (k, v) \<Rightarrow>
       (case (query_unescape k, query_unescape v) of (Some k', Some v') \<Rightarrow> Some (k', v') | _ \<Rightarrow> None))"

definition parse_query :: "string \<Rightarrow> (string \<times> string) list" where
  "parse_query s = List.map_filter query_pair (str_split CHR ''&'' s)"

definition query_get :: "string \<Rightarrow> string \<Rightarrow> string" where
  "query_get q k = (case map_of (parse_query q) k of Some v \<Rightarrow> v | None \<Rightarrow> [])"

section \<open>Headers (net/http)\<close>

text \<open>\<open>CanonicalHeaderKey\<close> of a key made of token characters, and \<open>Header.Set\<close>.\<close>

definition to_upper_char :: "char \<Rightarrow> char" where
  "to_upper_char c = (if 97 \<le> (of_char c :: nat) \<and> of_char c \<le> (122 :: nat)
     then char_of (of_char c - 32 :: nat) else c)"

fun canonical_key :: "bool \<Rightarrow> string \<Rightarrow> string" where
  "canonical_key up [] = []"
| "canonical_key up (c # s) =
     (if up then to_upper_char c else to_lower_char c) # canonical_key (c = CHR ''-'') s"

type_synonym headers = "(string \<times> string) list"

definition header_set :: "string \<Rightarrow> string \<Rightarrow> headers \<Rightarrow> headers" where
  "header_set k v hs = (case canonical_key True k of k' \<Rightarrow>
     if k' \<in> fst ` set hs then map (\<lambda>(j, x). (j, if j = k' then v else x)) hs else hs @ [(k', v)])"

section \<open>Addresses (package net)\<close>

text \<open>A decimal number from 0 to 255 without leading zeros.\<close>

definition is_octet :: "string \<Rightarrow> bool" where
  "is_octet s \<longleftrightarrow> s \<noteq> [] \<and> length s \<le> 3 \<and> list_all (\<lambda>c. 48 \<le> (of_char c :: nat) \<and> of_char c \<le> (57 :: nat)) s \<and>
     (length s > 1 \<longrightarrow> hd s \<noteq> CHR ''0'') \<and> dec_val s \<le> 255"

definition is_ipv4 :: "string \<Rightarrow> bool" where
  "is_ipv4 s = (case str_split CHR ''.'' s of ps \<Rightarrow> length ps = 4 \<and> list_all is_octet ps)"

definition is_hextet :: "string \<Rightarrow> bool" where
  "is_hextet s \<longleftrightarrow> s \<noteq> [] \<and> length s \<le> 4 \<and> list_all (\<lambda>c. hex_val c \<noteq> None) s"

text \<open>The number of 16-bit groups of a side of an IPv6 address; only the end may be an IPv4 address.\<close>

fun v6_groups :: "bool \<Rightarrow> string list \<Rightarrow> nat option" where
  "v6_groups tail [] = Some 0"
| "v6_groups tail [g] = (if is_hextet g then Some 1 else if tail \<and> is_ipv4 g then Some 2 else None)"
| "v6_groups tail (g # gs) = (if is_hextet g then map_option Suc (v6_groups tail gs) else None)"

text \<open>The text before and after the first \<open>::\<close>.\<close>

fun cut_ellipsis :: "string \<Rightarrow> (string \<times> string) option" where
  "cut_ellipsis (a # b # s) =
     (if a = CHR '':'' \<and> b = CHR '':'' then Some ([], s)
      else map_option (\<lambda>(p, q). (a # p, q)) (cut_ellipsis (b # s)))"
| "cut_ellipsis s = None"

definition v6_side :: "bool \<Rightarrow> string \<Rightarrow> nat option" where
  "v6_side tail s = (if s = [] then Some 0 else v6_groups tail (str_split CHR '':'' s))"

definition is_ipv6 :: "string \<Rightarrow> bool" where
  "is_ipv6 s = (case cut_ellipsis s of
       None \<Rightarrow> s \<noteq> [] \<and> v6_groups True (str_split CHR '':'' s) = Some 8
     | Some (p, q) \<Rightarrow> (case (v6_side False p, v6_side True q) of (Some m, Some n) \<Rightarrow> m + n \<le> 7 | _ \<Rightarrow> False))"

text \<open>Whether \<open>net.ParseIP\<close> reads an address.\<close>

definition is_ip :: "string \<Rightarrow> bool" where
  "is_ip s \<longleftrightarrow> is_ipv4 s \<or> is_ipv6 s"

text \<open>\<open>net.SplitHostPort\<close>: the last colon separates the port; a host with colons needs brackets.\<close>

definition cut_last :: "char \<Rightarrow> string \<Rightarrow> (string \<times> string) option" where
  "cut_last c s = (if c \<in> set s
     then Some (rev (drop 1 (dropWhile (\<lambda>x. x \<noteq> c) (rev s))), rev (takeWhile (\<lambda>x. x \<noteq> c) (rev s))) else None)"

definition brackets :: "char set" where "brackets = {CHR ''['', CHR '']''}"

definition SplitHostPort :: "string \<Rightarrow> (string \<times> string) option" where
  "SplitHostPort s = (case cut_last CHR '':'' s of
       None \<Rightarrow> None
     | Some (host, port) \<Rightarrow>
         if s \<noteq> [] \<and> hd s = CHR ''[''
         then if host \<noteq> [] \<and> last host = CHR '']'' \<and> set (butlast (tl host)) \<inter> brackets = {} \<and>
                 length host \<ge> 2 \<and> set port \<inter> brackets = {}
              then Some (butlast (tl host), port) else None
         else if CHR '':'' \<in> set host \<or> set s \<inter> brackets \<noteq> {} then None
         else Some (host, port))"

definition JoinHostPort :: "string \<Rightarrow> string \<Rightarrow> string" where
  "JoinHostPort host port = (if CHR '':'' \<in> set host then ''['' @ host @ '']:'' @ port else host @ '':'' @ port)"

lemma cut_last_append [simp]:
  assumes "c \<notin> set q"
  shows "cut_last c (p @ c # q) = Some (p, q)"
proof -
  have r: "rev (p @ c # q) = rev q @ c # rev p" by simp
  have "takeWhile (\<lambda>x. x \<noteq> c) (rev q @ c # rev p) = rev q" "dropWhile (\<lambda>x. x \<noteq> c) (rev q @ c # rev p) = c # rev p"
    using assms by (subst takeWhile_append2 dropWhile_append2; auto)+
  then show ?thesis unfolding cut_last_def r by simp
qed

lemma SplitHostPort_Join:
  assumes "set host \<inter> brackets = {}" and "set port \<inter> (brackets \<union> {CHR '':''}) = {}"
  shows "SplitHostPort (JoinHostPort host port) = Some (host, port)"
proof (cases "CHR '':'' \<in> set host")
  case True
  have "JoinHostPort host port = (CHR ''['' # host @ [CHR '']'']) @ CHR '':'' # port" using True by (simp add: JoinHostPort_def)
  then have "SplitHostPort (JoinHostPort host port) = SplitHostPort ((CHR ''['' # host @ [CHR '']'']) @ CHR '':'' # port)" by simp
  also have "\<dots> = Some (host, port)"
    using assms cut_last_append [of "CHR '':''" port "CHR ''['' # host @ [CHR '']'']"] by (auto simp: SplitHostPort_def)
  finally show ?thesis .
next
  case False
  then have j: "JoinHostPort host port = host @ CHR '':'' # port" by (simp add: JoinHostPort_def)
  have c: "cut_last CHR '':'' (host @ CHR '':'' # port) = Some (host, port)" using assms by (intro cut_last_append) auto
  have h: "hd (host @ CHR '':'' # port) \<noteq> CHR ''[''" using assms(1) by (cases host) (auto simp: brackets_def)
  have n: "set (host @ CHR '':'' # port) \<inter> brackets = {}" using assms by (auto simp: brackets_def)
  show ?thesis unfolding j SplitHostPort_def c using h n False by simp
qed

section \<open>Query strings read back\<close>

lemma upper_hex_val: "d < 16 \<Longrightarrow> hex_val (upper_hex d) = Some d"
  by (auto simp: hex_val_def upper_hex_def)

lemma char_of_split: "char_of (16 * (of_char c div 16) + of_char c mod 16 :: nat) = c"
  by simp

lemma unreserved_plain: "unreserved c \<Longrightarrow> c \<noteq> CHR 0x25 \<and> c \<noteq> CHR ''+'' \<and> c \<noteq> CHR ''&'' \<and> c \<noteq> CHR ''='' \<and> c \<noteq> CHR '';''"
  by (auto simp: unreserved_def Let_def)

lemma query_unescape_char: "query_unescape (query_escape_char c @ s) = map_option ((#) c) (query_unescape s)"
proof -
  have "(of_char c :: nat) < 256" by (rule nat_of_char_less_256)
  then have "(of_char c :: nat) div 16 < 16" by (simp add: less_mult_imp_div_less)
  moreover have "char_of (32::nat) = CHR '' ''" by code_simp
  then have "(of_char c :: nat) = 32 \<Longrightarrow> c = CHR '' ''" by (metis char_of_char)
  ultimately show ?thesis
    using unreserved_plain [of c] char_of_split [of c] by (auto simp: query_escape_char_def Let_def upper_hex_val)
qed

lemma query_unescape_escape: "query_unescape (QueryEscape s) = Some s"
proof -
  have "query_unescape (QueryEscape s @ []) = Some s"
    by (induction s) (simp_all add: QueryEscape_def query_unescape_char)
  then show ?thesis by simp
qed

lemma upper_hex_class: "d < 16 \<Longrightarrow> unreserved (upper_hex d)"
  by (auto simp: unreserved_def upper_hex_def Let_def)

lemma QueryEscape_class: "c \<in> set (QueryEscape s) \<Longrightarrow> unreserved c \<or> c = CHR 0x25 \<or> c = CHR ''+''"
proof -
  have "(of_char x :: nat) < 256" for x :: char by (rule nat_of_char_less_256)
  then have "(of_char x :: nat) div 16 < 16" for x :: char by (simp add: less_mult_imp_div_less)
  then show "c \<in> set (QueryEscape s) \<Longrightarrow> unreserved c \<or> c = CHR 0x25 \<or> c = CHR ''+''"
    by (auto simp: QueryEscape_def query_escape_char_def Let_def upper_hex_class split: if_splits)
qed

end
