(* ===== verification/Captcha_Session.thy ===== *)
theory Captcha_Session
  imports Go_Net Go_Float Slider_Puzzle Pow_Extract
begin

text \<open>
  The captcha session against the VK API (slider_captcha.go): the requests of captchaNotRobot, the
  parsing of their answers, and the protocol callCaptchaNotRobotWithSliderPOC runs through them.

  Parameters, in one record: the HTTP client (a request gives an error or the body), reading JSON
  text, printing a float64, and decoding a base64 JPEG.  Pauses, log lines and the debug files are
  left out.
\<close>

section \<open>The environment of a session\<close>

record Profile =
  UserAgent :: string
  SecChUa :: string
  SecChUaMobile :: string
  SecChUaPlatform :: string

record http_request =
  rq_verb :: string
  rq_url :: string
  rq_headers :: headers
  rq_body :: string

record ('he, 'w) captcha_env =
  env_http :: "http_request \<Rightarrow> ('he, 'w, string) act"
  env_json :: "string \<Rightarrow> json option"
  env_num :: "rat \<Rightarrow> string"
  env_image :: "string \<Rightarrow> picture option"

record captchaNotRobotSession =
  ses_token :: string
  ses_hash :: string
  ses_profile :: Profile
  ses_browserFp :: string
  ses_debugInfo :: string
  ses_adFp :: string

text \<open>A settings response; its map is a partial function (a nil map reads as an empty one).\<close>

record captchaSettingsResponse =
  ShowCaptchaType :: string
  SettingsByType :: "string \<rightharpoonup> string"

record sliderCaptchaContent =
  Image :: picture
  Size :: int
  Steps :: "int list"
  Attempts :: int

datatype 'he captcha_error =
    Http_failed 'he
  | Bad_json
  | Step_failed string "'he captcha_error"
  | Invalid_response string
  | Bad_status string string
  | Status_missing
  | Unsupported_format string
  | Field_missing string
  | Invalid_number
  | Steps_too_short
  | Invalid_size int
  | Invalid_swaps
  | Bad_image
  | Ranking_failed slider_error
  | Attempts_failed "'he captcha_error try_error"
  | Token_missing

section \<open>Requests\<close>

definition captchaDebugInfo :: string where
  "captchaDebugInfo = ''1d3e9babfd3a74f4588bf90cf5c30d3e8e89a0e2a4544da8de8bbf4d78a32f5c''"

definition sliderCaptchaType :: string where "sliderCaptchaType = ''slider''"

definition defaultSliderAttempts :: int where "defaultSliderAttempts = 4"

definition applyCaptchaHeadersHTTP :: "Profile \<Rightarrow> headers \<Rightarrow> headers" where
  "applyCaptchaHeadersHTTP p =
     header_set ''User-Agent'' (UserAgent p) \<circ>
     header_set ''Sec-Fetch-Site'' ''same-site'' \<circ>
     header_set ''Sec-Fetch-Mode'' ''cors'' \<circ>
     header_set ''Sec-Fetch-Dest'' ''empty'' \<circ>
     header_set ''sec-ch-ua-platform'' (SecChUaPlatform p) \<circ>
     header_set ''sec-ch-ua-mobile'' (SecChUaMobile p) \<circ>
     header_set ''sec-ch-ua'' (SecChUa p) \<circ>
     header_set ''Referer'' ''https://id.vk.ru/'' \<circ>
     header_set ''Origin'' ''https://id.vk.ru'' \<circ>
     header_set ''Content-Type'' ''application/x-www-form-urlencoded'' \<circ>
     header_set ''Accept-Language'' ''en-US,en;q=0.9'' \<circ>
     header_set ''Accept'' ''*/*''"

definition captcha_url :: "string \<Rightarrow> string" where
  "captcha_url m = ''https://api.vk.ru/method/'' @ m @ ''?v=5.131''"

definition baseValues :: "captchaNotRobotSession \<Rightarrow> form" where
  "baseValues s = val_set ''access_token'' [] (val_set ''adFp'' (ses_adFp s)
     (val_set ''domain'' ''vk.com'' (val_set ''session_token'' (ses_token s) [])))"

definition captcha_rq :: "captchaNotRobotSession \<Rightarrow> string \<Rightarrow> form \<Rightarrow> http_request" where
  "captcha_rq s m vs = \<lparr>rq_verb = ''POST'', rq_url = captcha_url m,
     rq_headers = applyCaptchaHeadersHTTP (ses_profile s) [], rq_body = val_encode vs\<rparr>"

text \<open>Unmarshalling into a map: an object, or null for the nil map.\<close>

definition json_map :: "json option \<Rightarrow> (string \<times> json) list option" where
  "json_map j = (case j of Some (JObj m) \<Rightarrow> Some m | Some JNull \<Rightarrow> Some [] | _ \<Rightarrow> None)"

definition request :: "('he, 'w) captcha_env \<Rightarrow> captchaNotRobotSession \<Rightarrow> string \<Rightarrow> form \<Rightarrow>
    ('he captcha_error, 'w, (string \<times> json) list) act" where
  "request env s m vs =
     wbind (wwrap Http_failed (env_http env (captcha_rq s m vs))) (\<lambda>body.
       case json_map (env_json env body) of None \<Rightarrow> wfail Bad_json | Some resp \<Rightarrow> wret resp)"

section \<open>Answers\<close>

text \<open>The object under "response".\<close>

definition response_obj :: "string \<Rightarrow> (string \<times> json) list \<Rightarrow> ('he captcha_error, (string \<times> json) list) result" where
  "response_obj what resp = (case as_obj (field resp ''response'') of
     None \<Rightarrow> Inl (Invalid_response what) | Some m \<Rightarrow> Inr m)"

definition normalizeCaptchaSettings :: "(rat \<Rightarrow> string) \<Rightarrow> json \<Rightarrow> string" where
  "normalizeCaptchaSettings num raw =
     (case raw of JNull \<Rightarrow> [] | JString s \<Rightarrow> s | v \<Rightarrow> json_text num True v)"

definition expand_map :: "(string \<times> json) list \<Rightarrow> json list" where
  "expand_map m = map (\<lambda>(k, v). JObj [(''type'', JString k), (''settings'', v)]) m"

definition expandCaptchaSettings :: "(string \<Rightarrow> json option) \<Rightarrow> json \<Rightarrow> json list option" where
  "expandCaptchaSettings unmarshal raw =
     (case raw of
        JNull \<Rightarrow> None
      | JArr xs \<Rightarrow> Some xs
      | JObj m \<Rightarrow> Some (expand_map m)
      | JString s \<Rightarrow>
          (let t = trim_space s in
           if t = [] then None
           else case unmarshal t of
               Some JNull \<Rightarrow> Some []
             | Some (JArr xs) \<Rightarrow> Some xs
             | Some (JObj m) \<Rightarrow> Some (expand_map m)
             | _ \<Rightarrow> None)
      | _ \<Rightarrow> None)"

definition add_setting :: "(rat \<Rightarrow> string) \<Rightarrow> json \<Rightarrow> (string \<rightharpoonup> string) \<Rightarrow> (string \<rightharpoonup> string)" where
  "add_setting num raw t =
     (case as_obj raw of None \<Rightarrow> t
      | Some item \<Rightarrow>
          (let captchaType = str_or_empty (field item ''type'') in
           if captchaType = [] then t
           else t(captchaType \<mapsto> normalizeCaptchaSettings num (field item ''settings''))))"

definition settings_of_obj :: "('he, 'w) captcha_env \<Rightarrow> (string \<times> json) list \<Rightarrow> captchaSettingsResponse" where
  "settings_of_obj env respObj =
     \<lparr>ShowCaptchaType = str_or_empty (field respObj ''show_captcha_type''),
      SettingsByType = (case expandCaptchaSettings (env_json env) (field respObj ''captcha_settings'') of
          None \<Rightarrow> Map.empty
        | Some items \<Rightarrow> fold (add_setting (env_num env)) items Map.empty)\<rparr>"

definition parseCaptchaSettingsResponse :: "('he, 'w) captcha_env \<Rightarrow> (string \<times> json) list \<Rightarrow>
    ('he captcha_error, captchaSettingsResponse) result" where
  "parseCaptchaSettingsResponse env resp =
     rbind (response_obj ''settings'' resp) (\<lambda>respObj. Inr (settings_of_obj env respObj))"

definition cloneCaptchaSettings :: "captchaSettingsResponse option \<Rightarrow> captchaSettingsResponse option" where
  "cloneCaptchaSettings src = src"

definition mergeCaptchaSettings :: "captchaSettingsResponse option \<Rightarrow> captchaSettingsResponse option \<Rightarrow>
    captchaSettingsResponse option" where
  "mergeCaptchaSettings primary fallback =
     (case primary of None \<Rightarrow> cloneCaptchaSettings fallback
      | Some p \<Rightarrow> (case fallback of None \<Rightarrow> Some p
         | Some f \<Rightarrow> Some \<lparr>ShowCaptchaType = (if ShowCaptchaType p = [] then ShowCaptchaType f else ShowCaptchaType p),
              SettingsByType = SettingsByType f ++ SettingsByType p\<rparr>))"

definition parseCaptchaCheckResult :: "(string \<times> json) list \<Rightarrow> ('he captcha_error, captchaCheckResult) result" where
  "parseCaptchaCheckResult resp =
     rbind (response_obj ''check'' resp) (\<lambda>respObj.
       let result = \<lparr>Status = str_or_empty (field respObj ''status''),
             SuccessToken = str_or_empty (field respObj ''success_token''),
             check_type = str_or_empty (field respObj ''show_captcha_type'')\<rparr>
       in if Status result = [] then Inl Status_missing else Inr result)"

text \<open>\<open>int(x)\<close> of a float64 outside the range of int gives the least int on amd64.\<close>

definition float_int :: "rat \<Rightarrow> int" where
  "float_int x = (let i = f64_to_int x in if - (2 ^ 63) \<le> i \<and> i < 2 ^ 63 then i else - (2 ^ 63))"

definition parseIntValue :: "json \<Rightarrow> ('he captcha_error, int) result" where
  "parseIntValue raw =
     (case raw of
        JNumber x \<Rightarrow> Inr (float_int x)
      | JInt i \<Rightarrow> Inr i
      | JString s \<Rightarrow> (case parse_int 10 (trim_space s) of None \<Rightarrow> Inl Invalid_number | Some i \<Rightarrow> Inr i)
      | _ \<Rightarrow> Inl Invalid_number)"

fun parseIntSlice :: "json list \<Rightarrow> ('he captcha_error, int list) result" where
  "parseIntSlice [] = Inr []"
| "parseIntSlice (item # items) =
     rbind (parseIntValue item) (\<lambda>n. rbind (parseIntSlice items) (\<lambda>ns. Inr (n # ns)))"

definition parseSliderSteps :: "int list \<Rightarrow> ('he captcha_error, int \<times> int list \<times> int) result" where
  "parseSliderSteps steps =
     (if length steps < 3 then Inl Steps_too_short
      else let size = hd steps in
        if size \<le> 0 then Inl (Invalid_size size)
        else let remaining = tl steps;
                 is_odd = length remaining mod 2 \<noteq> 0;
                 attempts = (if is_odd then last remaining else defaultSliderAttempts);
                 remaining = (if is_odd then butlast remaining else remaining);
                 attempts = (if attempts \<le> 0 then defaultSliderAttempts else attempts)
             in if remaining = [] \<or> length remaining mod 2 \<noteq> 0 then Inl Invalid_swaps
                else Inr (size, remaining, attempts))"

definition decodeSliderImage :: "('he, 'w) captcha_env \<Rightarrow> string \<Rightarrow> ('he captcha_error, picture) result" where
  "decodeSliderImage env raw = (case env_image env raw of None \<Rightarrow> Inl Bad_image | Some p \<Rightarrow> Inr p)"

definition slider_content_of :: "('he, 'w) captcha_env \<Rightarrow> (string \<times> json) list \<Rightarrow>
    ('he captcha_error, sliderCaptchaContent) result" where
  "slider_content_of env respObj =
     (let status = str_or_empty (field respObj ''status'') in
      if status \<noteq> ''OK'' then Inl (Bad_status ''getContent'' status)
      else let extension = to_lower (str_or_empty (field respObj ''extension'')) in
      if extension \<noteq> ''jpeg'' \<and> extension \<noteq> ''jpg'' then Inl (Unsupported_format extension)
      else let rawImage = str_or_empty (field respObj ''image'') in
      if rawImage = [] then Inl (Field_missing ''image'')
      else case as_arr (field respObj ''steps'') of
        None \<Rightarrow> Inl (Field_missing ''steps'')
      | Some rawSteps \<Rightarrow>
          rbind (parseIntSlice rawSteps) (\<lambda>steps.
          rbind (parseSliderSteps steps) (\<lambda>(size, swaps, attempts).
          rbind (decodeSliderImage env rawImage) (\<lambda>img.
            Inr \<lparr>Image = img, Size = size, Steps = swaps, Attempts = attempts\<rparr>))))"

definition parseSliderCaptchaContentResponse :: "('he, 'w) captcha_env \<Rightarrow> (string \<times> json) list \<Rightarrow>
    ('he captcha_error, sliderCaptchaContent) result" where
  "parseSliderCaptchaContentResponse env resp =
     rbind (response_obj ''content'' resp) (slider_content_of env)"

text \<open>The first key of a slider item, in the new or the old field.\<close>

definition slider_item_key :: "json \<Rightarrow> string option" where
  "slider_item_key raw =
     (case as_obj raw of None \<Rightarrow> None
      | Some item \<Rightarrow>
          if str_or_empty (field item ''type'') \<noteq> sliderCaptchaType then None
          else if str_or_empty (field item ''settings_key'') \<noteq> [] then Some (str_or_empty (field item ''settings_key''))
          else if str_or_empty (field item ''settings'') \<noteq> [] then Some (str_or_empty (field item ''settings''))
          else None)"

definition extractSliderKey :: "json \<Rightarrow> string" where
  "extractSliderKey raw =
     (case as_arr raw of None \<Rightarrow> []
      | Some items \<Rightarrow> (case List.map_filter slider_item_key items of [] \<Rightarrow> [] | k # _ \<Rightarrow> k))"

section \<open>The steps of a session\<close>

definition requestSettings :: "('he, 'w) captcha_env \<Rightarrow> captchaNotRobotSession \<Rightarrow>
    ('he captcha_error, 'w, captchaSettingsResponse) act" where
  "requestSettings env s =
     wbind (wwrap (Step_failed ''settings'') (request env s ''captchaNotRobot.settings'' (baseValues s))) (\<lambda>resp.
       wlift (parseCaptchaSettingsResponse env resp))"

definition requestInitSession :: "('he, 'w) captcha_env \<Rightarrow> captchaNotRobotSession \<Rightarrow>
    ('he captcha_error, 'w, string \<times> string) act" where
  "requestInitSession env s =
     wbind (wwrap (Step_failed ''initSession'')
       (request env s ''captchaNotRobot.initSession'' (val_set ''lang'' ''3'' (baseValues s)))) (\<lambda>resp.
     wbind (wlift (response_obj ''initSession'' resp)) (\<lambda>respObj.
       let showType = str_or_empty (field respObj ''show_captcha_type'');
           sliderKey = extractSliderKey (field respObj ''content_settings'');
           sliderKey = (if sliderKey = [] then extractSliderKey (field respObj ''captcha_settings'') else sliderKey)
       in wret (sliderKey, showType)))"

definition buildCaptchaDeviceJSON :: "Profile \<Rightarrow> string" where
  "buildCaptchaDeviceJSON p =
     (let q = CHR 0x22; f = (\<lambda>k v. q # k @ q # CHR '':'' # v) in
      ''{'' @ str_join '',''
        [f ''screenWidth'' ''1920'', f ''screenHeight'' ''1080'', f ''screenAvailWidth'' ''1920'',
         f ''screenAvailHeight'' ''1040'', f ''innerWidth'' ''1920'', f ''innerHeight'' ''969'',
         f ''devicePixelRatio'' ''1'', f ''language'' (q # ''en-US'' @ [q]),
         f ''languages'' (''['' @ q # ''en-US'' @ q # '']''), f ''webdriver'' ''false'',
         f ''hardwareConcurrency'' ''8'', f ''deviceMemory'' ''8'',
         f ''connectionEffectiveType'' (q # ''4g'' @ [q]),
         f ''notificationsPermission'' (q # ''default'' @ [q]),
         f ''userAgent'' (q # UserAgent p @ [q]), f ''platform'' (q # ''Win32'' @ [q])] @ ''}'')"

definition requestComponentDone :: "('he, 'w) captcha_env \<Rightarrow> captchaNotRobotSession \<Rightarrow>
    ('he captcha_error, 'w, unit) act" where
  "requestComponentDone env s =
     wbind (wwrap (Step_failed ''componentDone'') (request env s ''captchaNotRobot.componentDone''
       (val_set ''device'' (buildCaptchaDeviceJSON (ses_profile s))
         (val_set ''browser_fp'' (ses_browserFp s) (baseValues s))))) (\<lambda>resp.
       case as_obj (field resp ''response'') of
         None \<Rightarrow> wret ()
       | Some respObj \<Rightarrow>
           (let status = str_or_empty (field respObj ''status'') in
            if status \<noteq> [] \<and> status \<noteq> ''OK'' then wfail (Bad_status ''componentDone'' status) else wret ()))"

definition requestCheck :: "('he, 'w) captcha_env \<Rightarrow> captchaNotRobotSession \<Rightarrow> string \<Rightarrow> string \<Rightarrow>
    ('he captcha_error, 'w, captchaCheckResult) act" where
  "requestCheck env s cursor answer =
     wbind (wwrap (Step_failed ''check'') (request env s ''captchaNotRobot.check''
       (val_set ''debug_info'' (if ses_debugInfo s = [] then captchaDebugInfo else ses_debugInfo s)
       (val_set ''answer'' answer (val_set ''hash'' (ses_hash s)
       (val_set ''browser_fp'' (ses_browserFp s) (val_set ''taps'' ''[]''
       (val_set ''cursor'' cursor (val_set ''motion'' ''[]'' (val_set ''gyroscope'' ''[]''
       (val_set ''accelerometer'' ''[]'' (baseValues s)))))))))))) (\<lambda>resp.
       wlift (parseCaptchaCheckResult resp))"

definition requestCheckboxCheck :: "('he, 'w) captcha_env \<Rightarrow> captchaNotRobotSession \<Rightarrow>
    ('he captcha_error, 'w, captchaCheckResult) act" where
  "requestCheckboxCheck env s = requestCheck env s ''[]'' (b64_encode ''{}'')"

definition requestSliderContent :: "('he, 'w) captcha_env \<Rightarrow> captchaNotRobotSession \<Rightarrow> string \<Rightarrow>
    ('he captcha_error, 'w, sliderCaptchaContent) act" where
  "requestSliderContent env s sliderSettings =
     wbind (wwrap (Step_failed ''getContent'') (request env s ''captchaNotRobot.getContent''
       (if sliderSettings \<noteq> [] then val_set ''captcha_settings'' sliderSettings (baseValues s) else baseValues s))) (\<lambda>resp.
       wlift (parseSliderCaptchaContentResponse env resp))"

definition encodeSliderAnswer :: "(rat \<Rightarrow> string) \<Rightarrow> int list \<Rightarrow> string" where
  "encodeSliderAnswer num activeSteps =
     b64_encode (json_text num True (JObj [(''value'', JArr (map JInt activeSteps))]))"

text \<open>The cursor of a guess: 24 points on an eased curve; every float64 operation rounds.\<close>

definition cursor_point :: "int \<Rightarrow> nat \<Rightarrow> int \<times> int" where
  "cursor_point endX step =
     (let startX = 140; startY = 430;
          p = f64 (of_nat step / 23);
          ease = f64 (f64 (p * p) * f64 (3 - f64 (2 * p)));
          x = startX + f64_to_int (f64 (f64 (of_int (endX - startX)) * ease));
          y = startY + int (step * 7 mod 5) - 2 + f64_to_int (f64 (f64 (80 * p) * f64 (1 - p)))
      in (x, y))"

definition buildSliderCursor :: "(rat \<Rightarrow> string) \<Rightarrow> int \<Rightarrow> int \<Rightarrow> string" where
  "buildSliderCursor num candidateIndex candidateCount =
     (if candidateCount \<le> 0 then ''[]''
      else let endX = 140 + 620 * candidateIndex div candidateCount
        in json_text num True (JArr (map (\<lambda>step. case cursor_point endX step of (x, y) \<Rightarrow>
             JObj [(''x'', JInt x), (''y'', JInt y)]) [0..<24])))"

definition requestSliderCheck :: "('he, 'w) captcha_env \<Rightarrow> captchaNotRobotSession \<Rightarrow> int list \<Rightarrow> int \<Rightarrow> int \<Rightarrow>
    ('he captcha_error, 'w, captchaCheckResult) act" where
  "requestSliderCheck env s activeSteps candidateIndex candidateCount =
     requestCheck env s (buildSliderCursor (env_num env) candidateIndex candidateCount)
       (encodeSliderAnswer (env_num env) activeSteps)"

definition requestEndSession :: "('he, 'w) captcha_env \<Rightarrow> captchaNotRobotSession \<Rightarrow> ('he captcha_error, 'w, unit) act" where
  "requestEndSession env s =
     wbind (wtry (request env s ''captchaNotRobot.endSession'' (baseValues s)) ::
         ('he captcha_error, 'w, ('he captcha_error, (string \<times> json) list) result) act) (\<lambda>_. wret ())"

text \<open>A token that a check granted ends the session.\<close>

definition finish :: "('he, 'w) captcha_env \<Rightarrow> captchaNotRobotSession \<Rightarrow> string \<Rightarrow> ('he captcha_error, 'w, string) act" where
  "finish env s token =
     (if token = [] then wfail Token_missing
      else wbind (requestEndSession env s) (\<lambda>_. wret token))"

text \<open>When the slider's content cannot be had: one more check as a checkbox.\<close>

definition checkbox_fallback :: "('he, 'w) captcha_env \<Rightarrow> captchaNotRobotSession \<Rightarrow> string \<Rightarrow> 'he captcha_error \<Rightarrow>
    ('he captcha_error, 'w, string) act" where
  "checkbox_fallback env s status e =
     wbind (wtry (requestCheckboxCheck env s)) (\<lambda>r.
       case r of
         Inl _ \<Rightarrow> wfail (Step_failed status e)
       | Inr finalCheck \<Rightarrow>
           if Status finalCheck = ''OK'' then finish env s (SuccessToken finalCheck)
           else wfail (Step_failed status e))"

definition solve_slider :: "('he, 'w) captcha_env \<Rightarrow> captchaNotRobotSession \<Rightarrow> sliderCaptchaContent \<Rightarrow>
    ('he captcha_error, 'w, string) act" where
  "solve_slider env s content =
     wbind (wlift (case rankSliderCandidates (Image content) (Size content) (Steps content) of
         Inl e \<Rightarrow> Inl (Ranking_failed e) | Inr cs \<Rightarrow> Inr cs)) (\<lambda>candidates.
     wbind (wwrap Attempts_failed (trySliderCaptchaCandidates candidates (Attempts content)
         (\<lambda>c. requestSliderCheck env s (ActiveSteps c) (Index c) (int (length candidates))))) (\<lambda>token.
     wbind (requestEndSession env s) (\<lambda>_. wret token)))"

definition slider_settings :: "string \<Rightarrow> captchaSettingsResponse option \<Rightarrow> string" where
  "slider_settings key settings =
     (if key \<noteq> [] then key
      else case settings of None \<Rightarrow> []
        | Some st \<Rightarrow> (case SettingsByType st sliderCaptchaType of None \<Rightarrow> [] | Some v \<Rightarrow> v))"

definition callCaptchaNotRobotWithSliderPOC :: "('he, 'w) captcha_env \<Rightarrow> captchaNotRobotSession \<Rightarrow>
    captchaSettingsResponse option \<Rightarrow> ('he captcha_error, 'w, string) act" where
  "callCaptchaNotRobotWithSliderPOC env s initialSettings =
     wbind (requestInitSession env s) (\<lambda>(sliderKey, _).
     wbind (requestSettings env s) (\<lambda>settingsResp.
     let settings = mergeCaptchaSettings (Some settingsResp) initialSettings in
     wbind (requestComponentDone env s) (\<lambda>_.
     wbind (requestCheckboxCheck env s) (\<lambda>initialCheck.
       if Status initialCheck = ''OK'' then finish env s (SuccessToken initialCheck)
       else wbind (wtry (requestSliderContent env s (slider_settings sliderKey settings))) (\<lambda>r.
         case r of
           Inl e \<Rightarrow> checkbox_fallback env s (Status initialCheck) e
         | Inr content \<Rightarrow> solve_slider env s content)))))"

section \<open>What a session sends\<close>

definition logging :: "('he, 'w) captcha_env \<Rightarrow> ('he, 'w \<times> (http_request \<times> ('he, string) result) list) captcha_env" where
  "logging env = \<lparr>env_http = logged (env_http env), env_json = env_json env, env_num = env_num env, env_image = env_image env\<rparr>"

lemma logging_simps [simp]:
  "env_http (logging env) = logged (env_http env)" "env_json (logging env) = env_json env"
  "env_num (logging env) = env_num env" "env_image (logging env) = env_image env"
  by (simp_all add: logging_def)

text \<open>One entry of the log, by the method it called.\<close>

definition sent :: "string \<Rightarrow> http_request \<times> ('he, string) result \<Rightarrow> bool" where
  "sent m e \<longleftrightarrow> rq_url (fst e) = captcha_url (''captchaNotRobot.'' @ m)"

text \<open>An answer to a check that grants a token.\<close>

definition granted :: "('he, 'w) captcha_env \<Rightarrow> string \<Rightarrow> http_request \<times> ('he, string) result \<Rightarrow> bool" where
  "granted env tok e \<longleftrightarrow> sent ''check'' e \<and> tok \<noteq> [] \<and> (\<exists>body resp c.
     snd e = Inr body \<and> json_map (env_json env body) = Some resp \<and>
     parseCaptchaCheckResult resp = (Inr c :: ('he captcha_error, captchaCheckResult) result) \<and>
     Status c = ''OK'' \<and> SuccessToken c = tok)"

lemma request_log:
  assumes "request (logging env) s m vs wl = (r, wl')"
  shows "\<exists>w' e. wl' = (w', snd wl @ [e]) \<and> rq_url (fst e) = captcha_url m \<and>
    (\<forall>resp. r = Inr resp \<longrightarrow> (\<exists>body. snd e = Inr body \<and> json_map (env_json env body) = Some resp))"
  using assms by (cases wl) (auto simp: request_def wbind_def wwrap_def logged_def captcha_rq_def wfail_def wret_def
    split: prod.splits sum.splits option.splits)

text \<open>A step that sends one request: the log grows by it.\<close>

definition one_request :: "string \<Rightarrow> ('e, 'w \<times> (http_request \<times> ('he, string) result) list, 'a) act \<Rightarrow> bool" where
  "one_request m act \<longleftrightarrow> (\<forall>w l r wl'. act (w, l) = (r, wl') \<longrightarrow> (\<exists>w' e. wl' = (w', l @ [e]) \<and> sent m e))"

lemma one_requestD: "one_request m act \<Longrightarrow> act (w, l) = (r, wl') \<Longrightarrow> \<exists>w' e. wl' = (w', l @ [e]) \<and> sent m e"
  unfolding one_request_def by blast

lemma one_request_bind:
  assumes "one_request m act" and "\<And>x w. snd (f x w) = w"
  shows "one_request m (wbind act f)"
  unfolding one_request_def
proof (intro allI impI)
  fix w l r wl' assume "wbind act f (w, l) = (r, wl')"
  then obtain x wl where "act (w, l) = (x, wl)" "wl' = wl"
    by (auto simp: wbind_def split: prod.splits sum.splits) (metis assms(2) snd_conv)
  then show "\<exists>w' e. wl' = (w', l @ [e]) \<and> sent m e" using one_requestD [OF assms(1)] by blast
qed

lemma one_request_wrap: "one_request m act \<Longrightarrow> one_request m (wwrap g act)"
  unfolding one_request_def wwrap_def by (fastforce split: prod.splits sum.splits)

lemma one_request_try: "one_request m act \<Longrightarrow> one_request m (wtry act)"
  unfolding one_request_def wtry_def by (fastforce split: prod.splits)

lemma one_request_request: "one_request m (request (logging env) s (''captchaNotRobot.'' @ m) vs)"
  unfolding one_request_def sent_def by (metis request_log snd_conv)

lemma snd_acts [simp]: "snd (wret x w) = w" "snd (wfail e w) = w" "snd (wlift r w) = w"
  by (simp_all add: wret_def wfail_def wlift_def)

lemma one_request_steps:
  "one_request ''initSession'' (requestInitSession (logging env) s)"
  "one_request ''settings'' (requestSettings (logging env) s)"
  "one_request ''componentDone'' (requestComponentDone (logging env) s)"
  "one_request ''check'' (requestCheck (logging env) s cursor answer)"
  "one_request ''getContent'' (requestSliderContent (logging env) s key)"
  "one_request ''endSession'' (requestEndSession (logging env) s)"
proof -
  note r = one_request_request [where m = "''initSession''", simplified] one_request_request [where m = "''settings''", simplified]
    one_request_request [where m = "''componentDone''", simplified] one_request_request [where m = "''check''", simplified]
    one_request_request [where m = "''getContent''", simplified] one_request_request [where m = "''endSession''", simplified]
  show "one_request ''initSession'' (requestInitSession (logging env) s)"
    unfolding requestInitSession_def by (rule one_request_bind, rule one_request_wrap, rule r) (auto simp: wbind_def wlift_def wret_def Let_def split: sum.split)
  show "one_request ''settings'' (requestSettings (logging env) s)"
    unfolding requestSettings_def by (rule one_request_bind, rule one_request_wrap, rule r) simp
  show "one_request ''componentDone'' (requestComponentDone (logging env) s)"
    unfolding requestComponentDone_def by (rule one_request_bind, rule one_request_wrap, rule r) (simp add: Let_def split: option.split)
  show "one_request ''check'' (requestCheck (logging env) s cursor answer)"
    unfolding requestCheck_def by (rule one_request_bind, rule one_request_wrap, rule r) simp
  show "one_request ''getContent'' (requestSliderContent (logging env) s key)"
    unfolding requestSliderContent_def by (rule one_request_bind, rule one_request_wrap, rule r) simp
  show "one_request ''endSession'' (requestEndSession (logging env) s)"
    unfolding requestEndSession_def by (rule one_request_bind, rule one_request_try, rule r) simp
qed

lemma check_granted:
  assumes "requestCheck (logging env) s cursor answer (w, l) = (Inr c, wl')" and "Status c = ''OK''" and "SuccessToken c \<noteq> []"
  shows "\<exists>w' e. wl' = (w', l @ [e]) \<and> granted env (SuccessToken c) e"
proof -
  obtain resp where q: "request (logging env) s ''captchaNotRobot.check'' (val_set ''debug_info'' (if ses_debugInfo s = [] then captchaDebugInfo else ses_debugInfo s)
       (val_set ''answer'' answer (val_set ''hash'' (ses_hash s)
       (val_set ''browser_fp'' (ses_browserFp s) (val_set ''taps'' ''[]''
       (val_set ''cursor'' cursor (val_set ''motion'' ''[]'' (val_set ''gyroscope'' ''[]''
       (val_set ''accelerometer'' ''[]'' (baseValues s)))))))))) (w, l) = (Inr resp, wl')"
    and c: "parseCaptchaCheckResult resp = (Inr c :: ('a captcha_error, captchaCheckResult) result)"
    using assms(1) unfolding requestCheck_def wbind_Inr_iff wwrap_Inr_iff wlift_iff by metis
  from request_log [OF q] c assms(2,3) show ?thesis
    by (auto simp: granted_def sent_def)
qed

lemma finish_log:
  assumes "finish (logging env) s tok (w, l) = (Inr t, wl')"
  shows "t = tok \<and> tok \<noteq> [] \<and> (\<exists>w' e. wl' = (w', l @ [e]) \<and> sent ''endSession'' e)"
proof -
  have ne: "tok \<noteq> []" and "wbind (requestEndSession (logging env) s) (\<lambda>_. wret tok) (w, l) = (Inr t, wl')"
    using assms by (auto simp: finish_def wfail_iff split: if_splits)
  then obtain u where u: "requestEndSession (logging env) s (w, l) = (Inr u, wl')" and t: "t = tok"
    unfolding wbind_Inr_iff wret_iff by blast
  from one_requestD [OF one_request_steps(6) u] ne t show ?thesis by simp
qed

text \<open>The guesses of the slider: n checks, the last of which grants the token.\<close>

lemma try_loop_log:
  assumes "try_loop (\<lambda>c. requestSliderCheck (logging env) s (f c) (g c) n) cs (w, l) = (Inr tok, wl')"
  shows "\<exists>w' es e. wl' = (w', l @ es @ [e]) \<and> list_all (sent ''check'') es \<and> length es < length cs \<and> granted env tok e"
  using assms
proof (induction cs arbitrary: w l)
  case (Cons c cs)
  obtain a wl1 where a: "requestSliderCheck (logging env) s (f c) (g c) n (w, l) = (a, wl1)" by (metis surj_pair)
  obtain r where r: "a = Inr r" using Cons.prems a by (cases a) auto
  from one_requestD [OF one_request_steps(4) a [unfolded requestSliderCheck_def]]
  obtain w1 e where e: "wl1 = (w1, l @ [e])" "sent ''check'' e" by (elim exE conjE)
  show ?case
  proof (cases "Status r = ''OK''")
    case True
    then have "SuccessToken r \<noteq> [] \<and> tok = SuccessToken r \<and> wl' = wl1"
      using Cons.prems a r by (auto split: if_splits)
    then show ?thesis
      using check_granted [of env s _ _ w l r wl1] a r True unfolding requestSliderCheck_def
      by (intro exI [of _ w1] exI [of _ "[]"]) (fastforce simp: e)
  next
    case False
    then have "try_loop (\<lambda>c. requestSliderCheck (logging env) s (f c) (g c) n) cs (w1, l @ [e]) = (Inr tok, wl')"
      using Cons.prems a r e by (auto split: if_splits)
    from Cons.IH [OF this] obtain w' es e' where "wl' = (w', (l @ [e]) @ es @ [e'])" "list_all (sent ''check'') es"
      "length es < length cs" "granted env tok e'" by blast
    then show ?thesis using e(2) by (intro exI [of _ w'] exI [of _ "e # es"] exI [of _ e']) simp
  qed
qed simp

lemma attempts_log:
  assumes "trySliderCaptchaCandidates cs n (\<lambda>c. requestSliderCheck (logging env) s (f c) (g c) k) (w, l) = (Inr tok, wl')"
  shows "\<exists>w' es e. wl' = (w', l @ es @ [e]) \<and> list_all (sent ''check'') es \<and> int (length es) < n \<and> granted env tok e"
proof -
  have "try_loop (\<lambda>c. requestSliderCheck (logging env) s (f c) (g c) k) (take (nat (minInt n (int (length cs)))) cs) (w, l) = (Inr tok, wl')"
    and "0 < minInt n (int (length cs))"
    using assms by (auto simp: trySliderCaptchaCandidates_def Let_def split: if_splits)
  from try_loop_log [OF this(1)] this(2) show ?thesis by (fastforce simp: minInt_min)
qed


lemma solve_slider_log:
  assumes "solve_slider (logging env) s content (w, l) = (Inr tok, wl')"
  shows "\<exists>w' es e z. wl' = (w', l @ es @ [e, z]) \<and> list_all (sent ''check'') es \<and> int (length es) < Attempts content \<and>
    granted env tok e \<and> sent ''endSession'' z"
proof -
  from assms obtain cs u wl1 where t: "trySliderCaptchaCandidates cs (Attempts content)
      (\<lambda>c. requestSliderCheck (logging env) s (ActiveSteps c) (Index c) (int (length cs))) (w, l) = (Inr tok, wl1)"
    and z: "requestEndSession (logging env) s wl1 = (Inr u, wl')"
    unfolding solve_slider_def wbind_Inr_iff wlift_iff wwrap_Inr_iff wret_iff by (elim exE conjE) simp
  from attempts_log [OF t] obtain w1 es e where wl1: "wl1 = (w1, l @ es @ [e])" and es: "list_all (sent ''check'') es"
    "int (length es) < Attempts content" "granted env tok e" by blast
  from one_requestD [OF one_request_steps(6) z [unfolded wl1]]
  obtain w2 ez where "wl' = (w2, (l @ es @ [e]) @ [ez])" "sent ''endSession'' ez" by (elim exE conjE)
  with es show ?thesis by (intro exI [of _ w2] exI [of _ es] exI [of _ e] exI [of _ ez]) simp
qed

lemma checked_finish:
  assumes "requestCheckboxCheck (logging env) s (w, l) = (Inr c, wl1)" and "Status c = ''OK''"
    and "finish (logging env) s (SuccessToken c) wl1 = (Inr tok, wl')"
  shows "\<exists>w' e z. wl' = (w', l @ [e, z]) \<and> granted env tok e \<and> sent ''endSession'' z"
proof -
  have ne: "tok = SuccessToken c" "tok \<noteq> []" using finish_log assms(3) by (metis surj_pair)+
  obtain w1 e where e: "wl1 = (w1, l @ [e])" "granted env tok e"
    using check_granted assms(1,2) ne unfolding requestCheckboxCheck_def by metis
  from finish_log [OF assms(3) [unfolded e(1)]]
  obtain w' z where "wl' = (w', (l @ [e]) @ [z])" "sent ''endSession'' z" by (elim exE conjE)
  with e(2) ne show ?thesis by (intro exI [of _ w'] exI [of _ e] exI [of _ z]) simp
qed

section \<open>Properties\<close>

text \<open>How a successful session went: nothing but the setup and one check, a failed request for the slider's
  content and a second check, or the slider's guesses.\<close>

definition session_end :: "('he, 'w) captcha_env \<Rightarrow> string \<Rightarrow> (http_request \<times> ('he, string) result) list \<Rightarrow> bool" where
  "session_end env tok es \<longleftrightarrow> (\<exists>e z. granted env tok e \<and> sent ''endSession'' z \<and>
     (es = [e, z] \<or> (\<exists>c g. sent ''check'' c \<and> sent ''getContent'' g \<and>
        (\<exists>guesses. list_all (sent ''check'') guesses \<and> es = c # g # guesses @ [e, z]))))"

lemma session_endI:
  assumes "granted env tok e" and "sent ''endSession'' z"
  shows "session_end env tok [e, z]"
    and "sent ''check'' c \<Longrightarrow> sent ''getContent'' g \<Longrightarrow> list_all (sent ''check'') guesses \<Longrightarrow> session_end env tok (c # g # guesses @ [e, z])"
  using assms unfolding session_end_def by blast+

text \<open>
  C14.  A session that returns a token went by the protocol: initSession, settings and componentDone once each, in this
  order, then checks (one, or one, the request for the slider's content and the guesses), and endSession last and only there;
  and the token is not empty and is the one that the last check before endSession granted with status OK.
\<close>

theorem captcha_session_protocol:
  assumes "callCaptchaNotRobotWithSliderPOC (logging env) s initial (w, []) = (Inr tok, (w', tr))"
  shows "\<exists>i st d es. tr = i # st # d # es \<and> sent ''initSession'' i \<and> sent ''settings'' st \<and>
    sent ''componentDone'' d \<and> session_end env tok es"
proof -
  obtain key ty wl1 set1 wl2 u wl3 c wl4 where 1: "requestInitSession (logging env) s (w, []) = (Inr (key, ty), wl1)"
    and 2: "requestSettings (logging env) s wl1 = (Inr set1, wl2)" and 3: "requestComponentDone (logging env) s wl2 = (Inr u, wl3)"
    and 4: "requestCheckboxCheck (logging env) s wl3 = (Inr c, wl4)"
    and 5: "(if Status c = ''OK'' then finish (logging env) s (SuccessToken c)
       else wbind (wtry (requestSliderContent (logging env) s (slider_settings key (mergeCaptchaSettings (Some set1) initial)))) (\<lambda>r.
         case r of Inl e \<Rightarrow> checkbox_fallback (logging env) s (Status c) e
         | Inr content \<Rightarrow> solve_slider (logging env) s content)) wl4 = (Inr tok, (w', tr))"
    using assms unfolding callCaptchaNotRobotWithSliderPOC_def wbind_Inr_iff Let_def split_paired_Ex prod.case by blast
  obtain w1 i where i: "wl1 = (w1, [i])" "sent ''initSession'' i" using one_requestD [OF one_request_steps(1) 1] by auto
  obtain w2 st where st: "wl2 = (w2, [i, st])" "sent ''settings'' st" using one_requestD [OF one_request_steps(2) 2 [unfolded i(1)]] by auto
  obtain w3 d where d: "wl3 = (w3, [i, st, d])" "sent ''componentDone'' d" using one_requestD [OF one_request_steps(3) 3 [unfolded st(1)]] by auto
  note 4 = 4 [unfolded d(1)]
  obtain w4 e where e: "wl4 = (w4, [i, st, d, e])" "sent ''check'' e"
    using one_requestD [OF one_request_steps(4) 4 [unfolded requestCheckboxCheck_def]] by auto
  have "\<exists>es. tr = i # st # d # es \<and> session_end env tok es"
  proof (cases "Status c = ''OK''")
    case True
    with 5 have "finish (logging env) s (SuccessToken c) wl4 = (Inr tok, (w', tr))" by simp
    from checked_finish [OF 4 True this] show ?thesis by (elim exE conjE) (simp add: session_endI)
  next
    case False
    obtain r wl5 where r: "requestSliderContent (logging env) s (slider_settings key (mergeCaptchaSettings (Some set1) initial)) (w4, [i, st, d, e]) = (r, wl5)"
      and rest: "(case r of Inl er \<Rightarrow> checkbox_fallback (logging env) s (Status c) er
         | Inr content \<Rightarrow> solve_slider (logging env) s content) wl5 = (Inr tok, (w', tr))"
      using 5 False unfolding e(1) by (auto simp: wbind_Inr_iff wtry_iff)
    obtain w5 g where g: "wl5 = (w5, [i, st, d, e, g])" "sent ''getContent'' g" using one_requestD [OF one_request_steps(5) r] by auto
    show ?thesis
    proof (cases r)
      case (Inl er)
      then have "checkbox_fallback (logging env) s (Status c) er (w5, [i, st, d, e, g]) = (Inr tok, (w', tr))" using rest g(1) by simp
      then obtain c' wl6 where c': "requestCheckboxCheck (logging env) s (w5, [i, st, d, e, g]) = (Inr c', wl6)" "Status c' = ''OK''"
          "finish (logging env) s (SuccessToken c') wl6 = (Inr tok, (w', tr))"
        unfolding checkbox_fallback_def wbind_Inr_iff wtry_iff wfail_iff
        by (elim exE conjE) (simp add: wfail_iff split: sum.splits if_splits)
      from checked_finish [OF c'] show ?thesis
        using session_endI(2) [OF _ _ e(2) g(2), of env tok _ _ "[]"] by (elim exE conjE) simp
    next
      case (Inr content)
      then have "solve_slider (logging env) s content (w5, [i, st, d, e, g]) = (Inr tok, (w', tr))" using rest g(1) by simp
      from solve_slider_log [OF this] show ?thesis
        using session_endI(2) [OF _ _ e(2) g(2), of env tok] by (elim exE conjE) simp
    qed
  qed
  then show ?thesis using i(2) st(2) d(2) by blast
qed


text \<open>An API that answers every request in the same way, with a granting check.\<close>

definition test_env :: "(unit, unit) captcha_env" where
  "test_env = \<lparr>env_http = (\<lambda>_ w. (Inr [], w)),
     env_json = (\<lambda>_. Some (JObj [(''response'', JObj [(''status'', JString ''OK''), (''success_token'', JString ''T'')])])),
     env_num = (\<lambda>_. []), env_image = (\<lambda>_. None)\<rparr>"

definition test_session :: captchaNotRobotSession where
  "test_session = \<lparr>ses_token = ''s'', ses_hash = ''h'', ses_profile = \<lparr>UserAgent = ''u'', SecChUa = [], SecChUaMobile = [], SecChUaPlatform = []\<rparr>,
     ses_browserFp = ''f'', ses_debugInfo = [], ses_adFp = ''a''\<rparr>"

lemma test_request: "request (logging test_env) s m vs wl =
  (Inr [(''response'', JObj [(''status'', JString ''OK''), (''success_token'', JString ''T'')])], (fst wl, snd wl @ [(captcha_rq s m vs, Inr [])]))"
  by (cases wl) (simp add: request_def wbind_def wwrap_def logged_def test_env_def json_map_def wret_def)

lemmas session_steps = requestInitSession_def requestSettings_def requestComponentDone_def requestCheckboxCheck_def
  requestCheck_def requestEndSession_def finish_def

theorem captcha_session_protocol_witness:
  "\<exists>w' tr. callCaptchaNotRobotWithSliderPOC (logging test_env) test_session None ((), []) = (Inr ''T'', (w', tr)) \<and>
    (\<exists>i st d es. tr = i # st # d # es \<and> sent ''initSession'' i \<and> sent ''settings'' st \<and>
      sent ''componentDone'' d \<and> session_end test_env ''T'' es)"
proof -
  obtain w' tr where r: "callCaptchaNotRobotWithSliderPOC (logging test_env) test_session None ((), []) = (Inr ''T'', (w', tr))"
    by (simp add: callCaptchaNotRobotWithSliderPOC_def session_steps wbind_def wwrap_def wlift_def wret_def wtry_def test_request
      response_obj_def field_def parseCaptchaSettingsResponse_def parseCaptchaCheckResult_def Let_def)
  from captcha_session_protocol [OF r] r show ?thesis by blast
qed

section \<open>Settings\<close>

lemma fold_settings:
  assumes "distinct (map fst m)"
  shows "fold (add_setting num) (expand_map m) t k =
    (case map_of m k of Some v \<Rightarrow> if k = [] then t k else Some (normalizeCaptchaSettings num v) | None \<Rightarrow> t k)"
  using assms
proof (induction m arbitrary: t)
  case (Cons p m)
  obtain j v where p: "p = (j, v)" by fastforce
  have n: "map_of m j = None" using Cons.prems by (simp add: p map_of_eq_None_iff)
  have a: "add_setting num (JObj [(''type'', JString j), (''settings'', v)]) t = (if j = [] then t else t(j \<mapsto> normalizeCaptchaSettings num v))"
    by (simp add: add_setting_def field_def Let_def)
  show ?case using Cons n by (auto simp: p expand_map_def a split: option.splits)
qed (simp add: expand_map_def)

text \<open>
  The captcha settings mean the same in each of the forms VK sends: an object by type, a list of items, or either as
  JSON text.  Each type other than the empty one gets its settings, as the string or printed as JSON, in whatever order
  the map is walked; and mergeCaptchaSettings adds those of the page only for types that the API did not name.
\<close>

theorem captcha_settings_forms:
  assumes "distinct (map fst m)" and "trim_space t \<noteq> []" and "trim_space t' \<noteq> []"
    and "env_json env (trim_space t) = Some (JObj m)" and "env_json env (trim_space t') = Some (JArr (expand_map m))"
  shows "list_all (\<lambda>raw. SettingsByType (settings_of_obj env [(''captcha_settings'', raw)]) =
      (\<lambda>k. if k = [] then None else map_option (normalizeCaptchaSettings (env_num env)) (map_of m k)))
      [JObj m, JArr (expand_map m), JString t, JString t'] \<and>
    (\<exists>st. mergeCaptchaSettings (Some (settings_of_obj env [(''captcha_settings'', JObj m)])) (Some f) = Some st \<and>
      SettingsByType st = (\<lambda>k. if k = [] \<or> map_of m k = None then SettingsByType f k
        else map_option (normalizeCaptchaSettings (env_num env)) (map_of m k)))"
proof
  let ?n = "normalizeCaptchaSettings (env_num env)"
  have f: "fold (add_setting (env_num env)) (expand_map m) Map.empty = (\<lambda>k. if k = [] then None else map_option ?n (map_of m k))"
    by (rule ext) (simp add: fold_settings assms(1) split: option.split)
  have e: "expandCaptchaSettings (env_json env) (JObj m) = Some (expand_map m)"
    "expandCaptchaSettings (env_json env) (JArr (expand_map m)) = Some (expand_map m)"
    "expandCaptchaSettings (env_json env) (JString t) = Some (expand_map m)"
    "expandCaptchaSettings (env_json env) (JString t') = Some (expand_map m)"
    using assms(2-5) by (simp_all add: expandCaptchaSettings_def Let_def)
  have 1: "SettingsByType (settings_of_obj env [(''captcha_settings'', raw)]) = (\<lambda>k. if k = [] then None else map_option ?n (map_of m k))"
    if "expandCaptchaSettings (env_json env) raw = Some (expand_map m)" for raw
    using that by (simp add: settings_of_obj_def field_def f)
  show "list_all (\<lambda>raw. SettingsByType (settings_of_obj env [(''captcha_settings'', raw)]) =
      (\<lambda>k. if k = [] then None else map_option ?n (map_of m k))) [JObj m, JArr (expand_map m), JString t, JString t']"
    by (simp only: list.pred_inject e 1 simp_thms)
  show "\<exists>st. mergeCaptchaSettings (Some (settings_of_obj env [(''captcha_settings'', JObj m)])) (Some f) = Some st \<and>
      SettingsByType st = (\<lambda>k. if k = [] \<or> map_of m k = None then SettingsByType f k else map_option ?n (map_of m k))"
    by (simp add: mergeCaptchaSettings_def 1 [OF e(1)] map_add_def fun_eq_iff split: option.split)
qed

definition settings_env :: "(unit, unit) captcha_env" where
  "settings_env = test_env\<lparr>env_json := (\<lambda>s. Some (if s = ''o'' then JObj [(''slider'', JString ''k'')]
     else JArr (expand_map [(''slider'', JString ''k'')])))\<rparr>"

theorem captcha_settings_forms_witness:
  "list_all (\<lambda>raw. SettingsByType (settings_of_obj settings_env [(''captcha_settings'', raw)]) =
      (\<lambda>k. if k = [] then None else map_option (normalizeCaptchaSettings (env_num settings_env)) (map_of [(''slider'', JString ''k'')] k)))
      [JObj [(''slider'', JString ''k'')], JArr (expand_map [(''slider'', JString ''k'')]), JString ''o'', JString ''a'']"
  by (rule conjunct1 [OF captcha_settings_forms [where m = "[(''slider'', JString ''k'')]" and t = "''o''" and t' = "''a''" and env = settings_env]])
    (simp_all add: settings_env_def trim_space_def is_space_def)

section \<open>The forms that are sent\<close>

lemma query_pair_escape: "query_pair (QueryEscape k @ ''='' @ QueryEscape v) = Some (k, v)"
proof -
  have c: "c \<noteq> CHR ''='' \<and> c \<noteq> CHR '';''" if "c \<in> set (QueryEscape s)" for c s
    using QueryEscape_class [OF that] unreserved_plain [of c] by auto
  have "takeWhile (\<lambda>x. x \<noteq> CHR ''='') (QueryEscape k @ CHR ''='' # QueryEscape v) = QueryEscape k"
    "dropWhile (\<lambda>x. x \<noteq> CHR ''='') (QueryEscape k @ CHR ''='' # QueryEscape v) = CHR ''='' # QueryEscape v"
    using c by (subst takeWhile_append2 dropWhile_append2; auto)+
  then have "cut_at CHR ''='' (QueryEscape k @ ''='' @ QueryEscape v) = (QueryEscape k, QueryEscape v)" by (simp add: cut_at_def)
  moreover have "CHR '';'' \<notin> set (QueryEscape k @ ''='' @ QueryEscape v)" using c by auto
  ultimately show ?thesis by (simp add: query_pair_def query_unescape_escape)
qed

lemma parse_query_encode: "parse_query (val_encode vs) = sort_key fst vs"
proof (cases "vs = []")
  case True
  then show ?thesis by (simp add: val_encode_def parse_query_def query_pair_def List.map_filter_def)
next
  case False
  have amp: "CHR ''&'' \<notin> set (QueryEscape s)" for s
    using QueryEscape_class [of "CHR ''&''" s] unreserved_plain [of "CHR ''&''"] by auto
  let ?p = "\<lambda>(k, v). QueryEscape k @ ''='' @ QueryEscape v"
  have ne: "map ?p (sort_key fst vs) \<noteq> []" using False by (metis length_map length_sort list.size(3) length_0_conv)
  have "\<forall>p \<in> set (map ?p (sort_key fst vs)). CHR ''&'' \<notin> set p" using amp by auto
  then have "str_split CHR ''&'' (str_join [CHR ''&''] (map ?p (sort_key fst vs))) = map ?p (sort_key fst vs)"
    by (rule str_split_join [OF ne])
  then have "str_split CHR ''&'' (val_encode vs) = map ?p (sort_key fst vs)" by (simp only: val_encode_def)
  moreover have "List.map_filter query_pair (map (\<lambda>(k, v). QueryEscape k @ ''='' @ QueryEscape v) ps) = ps" for ps
    by (induction ps) (auto simp: List.map_filter_simps query_pair_escape [simplified])
  ultimately show ?thesis by (simp add: parse_query_def)
qed

lemma map_of_filter_key: "map_of (filter (\<lambda>p. fst p = k) ps) k = map_of ps k"
  by (induction ps) auto

lemma map_of_sort_key: "map_of (sort_key fst ps) k = map_of ps k"
  by (metis map_of_filter_key sort_key_stable)

text \<open>
  What the session puts into a form arrives: whatever characters the values hold, the server reads each
  field of a captchaNotRobot request as the session set it, and an absent field as empty.
\<close>

theorem captcha_form_roundtrip:
  "query_get (rq_body (captcha_rq s m vs)) k = (case map_of vs k of Some v \<Rightarrow> v | None \<Rightarrow> [])"
  by (simp add: captcha_rq_def query_get_def parse_query_encode map_of_sort_key)


end
