(* ===== verification/Captcha_Solve.thy ===== *)
theory Captcha_Solve
  imports Captcha_Session
begin

text \<open>
  Solving a captcha (vk_captcha_api.go, captcha_bootstrap.go, and parseCaptchaSettingsFromHTML of
  slider_captcha.go): reading VK's captcha error, finding the proof-of-work input and its
  difficulty in the captcha page, the proof of work, the plain session without a slider, and
  solveVkCaptcha, which puts them together.

  The regular expressions are lists of pieces with a backtracking matcher, leftmost match first
  and repeats as long as they can be, which is what package regexp does for these patterns.

  Parameters beside those of the session: SHA-256 and MD5, the clock, random numbers, printing the
  telemetry, and the query part of a parsed URL.
\<close>

section \<open>Regular expressions\<close>

datatype piece =
    Lit string
  | Alt "string list"
  | Many nat "char \<Rightarrow> bool"
  | Cap "char \<Rightarrow> bool"
  | CapObject
  | Word_start

definition re_space :: "char \<Rightarrow> bool" where
  "re_space c \<longleftrightarrow> of_char c \<in> {9, 10, 12, 13, 32 :: nat}"

definition re_digit :: "char \<Rightarrow> bool" where
  "re_digit c \<longleftrightarrow> 48 \<le> (of_char c :: nat) \<and> of_char c \<le> (57 :: nat)"

definition re_word :: "char \<Rightarrow> bool" where
  "re_word c \<longleftrightarrow> re_digit c \<or> unreserved c \<and> of_char c \<notin> {45, 46, 126 :: nat}"

abbreviation ws0 :: piece where "ws0 \<equiv> Many 0 re_space"
abbreviation ws1 :: piece where "ws1 \<equiv> Many 1 re_space"

definition not_char :: "char \<Rightarrow> char \<Rightarrow> bool" where
  "not_char q c \<longleftrightarrow> c \<noteq> q"

text \<open>The lengths a repeated class may take, longest first; \<open>p\<close> is the character before.\<close>

definition run :: "nat \<Rightarrow> (char \<Rightarrow> bool) \<Rightarrow> string \<Rightarrow> nat list" where
  "run k P s = rev [k ..< Suc (length (takeWhile P s))]"

definition prev_char :: "char option \<Rightarrow> string \<Rightarrow> nat \<Rightarrow> char option" where
  "prev_char p s n = (if n = 0 then p else Some (s ! (n - 1)))"

fun re_match :: "piece list \<Rightarrow> char option \<Rightarrow> string \<Rightarrow> string list option" where
  "re_match [] p s = Some []"
| "re_match (Lit t # ps) p s =
     (if prefix t s then re_match ps (prev_char p s (length t)) (drop (length t) s) else None)"
| "re_match (Alt ts # ps) p s =
     first_some (\<lambda>t. if prefix t s then re_match ps (prev_char p s (length t)) (drop (length t) s) else None) ts"
| "re_match (Many k P # ps) p s =
     first_some (\<lambda>n. re_match ps (prev_char p s n) (drop n s)) (run k P s)"
| "re_match (Cap P # ps) p s =
     first_some (\<lambda>n. map_option ((#) (take n s)) (re_match ps (prev_char p s n) (drop n s))) (run 1 P s)"
| "re_match (CapObject # ps) p s =
     (if s \<noteq> [] \<and> hd s = CHR 0x7B
      then first_some (\<lambda>n. if s ! (n - 1) = CHR 0x7D
          then map_option ((#) (take n s)) (re_match ps (prev_char p s n) (drop n s)) else None) [2 ..< Suc (length s)]
      else None)"
| "re_match (Word_start # ps) p s =
     (if (case p of None \<Rightarrow> False | Some c \<Rightarrow> re_word c) \<noteq> (s \<noteq> [] \<and> re_word (hd s))
      then re_match ps p s else None)"

text \<open>\<open>FindStringSubmatch\<close>: the captures of the leftmost match.\<close>

fun re_find :: "piece list \<Rightarrow> char option \<Rightarrow> string \<Rightarrow> string list option" where
  "re_find ps p [] = re_match ps p []"
| "re_find ps p (c # s) =
     (case re_match ps p (c # s) of Some m \<Rightarrow> Some m | None \<Rightarrow> re_find ps (Some c) s)"

section \<open>The proof-of-work input and its difficulty\<close>

definition dq :: char where "dq = CHR 0x22"
definition sq :: char where "sq = CHR 0x27"
definition bq :: char where "bq = CHR 0x60"

definition quoted :: "char \<Rightarrow> piece list" where
  "quoted q = [Lit [q], Cap (not_char q), Lit [q]]"

definition powInputPatterns :: "piece list list" where
  "powInputPatterns =
    [[Lit ''const'', ws1, Lit ''powInput'', ws0, Lit ''='', ws0] @ quoted dq,
     [Alt [''let'', ''var''], ws1, Lit ''powInput'', ws0, Lit ''='', ws0] @ quoted dq,
     [Alt [''window'', ''self'', ''globalThis''], Lit ''.powInput'', ws0, Lit ''='', ws0] @ quoted dq,
     [Lit (dq # ''powInput'' @ [dq]), ws0, Lit '':'', ws0] @ quoted dq,
     [Lit (dq # ''pow_input'' @ [dq]), ws0, Lit '':'', ws0] @ quoted dq,
     [Lit ''const'', ws1, Lit ''powInput'', ws0, Lit ''='', ws0] @ quoted bq,
     [Lit ''const'', ws1, Lit ''powInput'', ws0, Lit ''='', ws0] @ quoted sq,
     [Lit ''getPowInput'', ws0, Lit ''('', ws0, Lit '')'', ws0, Lit ''{'', Many 0 (not_char CHR 0x7D), Lit ''return'', ws1] @ quoted dq,
     [Word_start, Lit ''powInput'', ws0, Lit '':'', ws0] @ quoted dq,
     [Lit ''}(''] @ quoted dq @ [Lit '','', Cap re_digit, Lit ('','' @ dq # ''pow_timeout'' @ [dq] @ '')'')],
     [Lit ''}(''] @ quoted sq @ [Lit '','', Cap re_digit, Lit ('','' @ sq # ''pow_timeout'' @ [sq])]]"

definition difficultyPatterns :: "piece list list" where
  "difficultyPatterns =
    [[Lit (''startsWith('' @ sq # ''0'' @ sq # ''.repeat(''), Cap re_digit, Lit ''))''],
     [Lit ''const'', ws1, Lit ''difficulty'', ws0, Lit ''='', ws0, Cap re_digit],
     [Alt [''let'', ''var''], ws1, Lit ''difficulty'', ws0, Lit ''='', ws0, Cap re_digit],
     [Lit (dq # ''difficulty'' @ [dq]), ws0, Lit '':'', ws0, Cap re_digit]]"

definition extractPowInput :: "string \<Rightarrow> string option" where
  "extractPowInput html =
     first_some (\<lambda>re. case re_find re None html of
         Some (x # _) \<Rightarrow> (if x \<noteq> [] then Some x else None)
       | _ \<Rightarrow> None) powInputPatterns"

definition extractDifficulty :: "string \<Rightarrow> int" where
  "extractDifficulty html =
     (case first_some (\<lambda>re. case re_find re None html of
         Some (x # _) \<Rightarrow> (case parse_int 10 x of Some n \<Rightarrow> (if n > 0 then Some n else None) | None \<Rightarrow> None)
       | _ \<Rightarrow> None) difficultyPatterns of
      Some n \<Rightarrow> n | None \<Rightarrow> 2)"

record captchaBootstrap =
  PowInput :: string
  Difficulty :: int
  Settings :: captchaSettingsResponse
  DebugInfo :: string

definition empty_settings :: captchaSettingsResponse where
  "empty_settings = \<lparr>ShowCaptchaType = [], SettingsByType = Map.empty\<rparr>"

text \<open>
  Unmarshalling into the struct of parseCaptchaSettingsFromHTML: "data" must be an object, absent
  or null, and "show_captcha_type" in it a string, absent or null.  Field names are looked up
  exactly; encoding/json also takes other spellings of the case.
\<close>

definition init_payload :: "json \<Rightarrow> (string \<times> json) option" where
  "init_payload j =
     (case j of
        JNull \<Rightarrow> Some ([], JNull)
      | JObj m \<Rightarrow>
          (case field m ''data'' of
             JNull \<Rightarrow> Some ([], JNull)
           | JObj d \<Rightarrow>
               (case field d ''show_captcha_type'' of
                  JNull \<Rightarrow> Some ([], field d ''captcha_settings'')
                | JString t \<Rightarrow> Some (t, field d ''captcha_settings'')
                | _ \<Rightarrow> None)
           | _ \<Rightarrow> None)
      | _ \<Rightarrow> None)"

definition window_init :: "piece list" where
  "window_init = [Lit ''window.init'', ws0, Lit ''='', ws0, CapObject, ws0, Lit '';'', ws0, Lit ''window.lang'']"

definition parseCaptchaSettingsFromHTML :: "('he, 'w) captcha_env \<Rightarrow> string \<Rightarrow> ('he captcha_error, captchaSettingsResponse) result" where
  "parseCaptchaSettingsFromHTML env html =
     (case re_find window_init None html of
        Some (x # _) \<Rightarrow>
          (case env_json env x of None \<Rightarrow> Inl Bad_json
           | Some j \<Rightarrow> (case init_payload j of None \<Rightarrow> Inl Bad_json
              | Some (ty, st) \<Rightarrow> parseCaptchaSettingsResponse env
                  [(''response'', JObj [(''show_captcha_type'', JString ty), (''captcha_settings'', st)])]))
      | _ \<Rightarrow> Inr empty_settings)"

definition parseCaptchaBootstrapHTMLExt :: "('he, 'w) captcha_env \<Rightarrow> string \<Rightarrow> captchaBootstrap option" where
  "parseCaptchaBootstrapHTMLExt env html =
     (let found = (case extractPowSeed html of
            Some seed \<Rightarrow> Some (ps_PowInput seed, ps_Difficulty seed)
          | None \<Rightarrow> (case extractPowInput html of
              Some x \<Rightarrow> Some (x, 0)
            | None \<Rightarrow> map_option (\<lambda>x. (x, 0)) (extractPowInput (htmlUnescapeForPow html))))
      in map_option (\<lambda>(powInput, difficulty).
           \<lparr>PowInput = powInput,
            Difficulty = (if difficulty = 0 then extractDifficulty html else difficulty),
            Settings = (case parseCaptchaSettingsFromHTML env html of Inl _ \<Rightarrow> empty_settings | Inr st \<Rightarrow> st),
            DebugInfo = []\<rparr>) found)"

section \<open>The captcha error of the VK API\<close>

record VkCaptchaError =
  ErrorCode :: int
  ErrorMsg :: string
  CaptchaSid :: string
  CaptchaImg :: string
  RedirectURI :: string
  IsSoundCaptchaAvailable :: bool
  SessionToken :: string
  CaptchaTs :: string
  CaptchaAttempt :: string

text \<open>The verb %.0f: to the nearest integer, ties to even, with the sign of a negative number kept.\<close>

definition fmt_0f :: "rat \<Rightarrow> string" where
  "fmt_0f x = (if x < 0 then CHR ''-'' # nat_dec (nat (round_even (- x))) else nat_dec (nat (round_even x)))"

text \<open>A field that may be a number or a string.\<close>

definition num_or_str :: "json \<Rightarrow> string" where
  "num_or_str j = (case j of JNumber x \<Rightarrow> fmt_0f x | JString s \<Rightarrow> s | _ \<Rightarrow> [])"

text \<open>\<open>url_query\<close> stands for the query of a parsed URL, or none when it does not parse.\<close>

definition ParseVkCaptchaError :: "(string \<Rightarrow> string option) \<Rightarrow> (string \<times> json) list \<Rightarrow> VkCaptchaError option" where
  "ParseVkCaptchaError url_query errData =
     (case as_num (field errData ''error_code'') of
        None \<Rightarrow> None
      | Some codeFloat \<Rightarrow>
          (let redirect = str_or_empty (field errData ''redirect_uri'');
               sid = num_or_str (field errData ''captcha_sid'');
               img = str_or_empty (field errData ''captcha_img'');
               query = (if redirect = [] then Some [] else url_query redirect)
           in case query of None \<Rightarrow> None
              | Some q \<Rightarrow>
                  (let token = (if redirect = [] then [] else query_get q ''session_token'') in
                   if redirect = [] \<and> token = [] \<and> img = [] \<and> sid = [] then None
                   else Some \<lparr>ErrorCode = float_int codeFloat, ErrorMsg = str_or_empty (field errData ''error_msg''),
                      CaptchaSid = sid, CaptchaImg = img, RedirectURI = redirect,
                      IsSoundCaptchaAvailable = (field errData ''is_sound_captcha_available'' = JBool True),
                      SessionToken = token, CaptchaTs = num_or_str (field errData ''captcha_ts''),
                      CaptchaAttempt = num_or_str (field errData ''captcha_attempt'')\<rparr>)))"

definition IsCaptchaError :: "VkCaptchaError \<Rightarrow> bool" where
  "IsCaptchaError e \<longleftrightarrow> ErrorCode e = 14 \<and> RedirectURI e \<noteq> [] \<and> SessionToken e \<noteq> []"

section \<open>The proof of work\<close>

datatype pow_result = Pow_panic | Pow_exhausted | Pow_found string nat

fun pow_loop :: "(string \<Rightarrow> bytes) \<Rightarrow> string \<Rightarrow> string \<Rightarrow> nat \<Rightarrow> nat \<Rightarrow> pow_result" where
  "pow_loop sha input target nonce 0 = Pow_exhausted"
| "pow_loop sha input target nonce (Suc left) =
     (let hexHash = hex_encode (sha (input @ nat_dec nonce)) in
      if prefix target hexHash then Pow_found hexHash nonce
      else pow_loop sha input target (Suc nonce) left)"

text \<open>
  \<open>strings.Repeat\<close> panics for a negative count, and for one beyond the address space (2^48
  bytes); below that the model's memory is unlimited.
\<close>

definition solvePoW :: "(string \<Rightarrow> bytes) \<Rightarrow> string \<Rightarrow> int \<Rightarrow> pow_result" where
  "solvePoW sha powInput diff =
     (if diff < 0 \<or> diff > 2 ^ 48 then Pow_panic
      else pow_loop sha powInput (replicate (nat diff) CHR ''0'') 1 10000000)"

section \<open>Telemetry\<close>

text \<open>A float literal stands for its decimal value; \<open>env_num\<close> prints it.\<close>

definition probe :: "json \<Rightarrow> rat \<Rightarrow> json" where
  "probe res d = JObj [(''ok'', JBool True), (''result'', res), (''duration_ms'', JNumber d)]"

definition buildCaptchaTelemetry :: "Profile \<Rightarrow> json" where
  "buildCaptchaTelemetry p = JObj
    [(''globals'', probe (JObj [(''doc'', JBool True), (''win'', JBool True), (''nav'',
       JBool True), (''webdriver'', JBool False), (''subtle'', JBool True), (''secure'',
       JBool True), (''gcs'', JBool True), (''raf'', JBool True), (''wasm'', JBool True),
       (''plugins_len'', JInt 5), (''languages_len'', JInt 1), (''hw'', JInt 8), (''mem'',
       JInt 8)]) (2 / 10)),
     (''ua'', probe (JObj [(''userAgent'', JString (UserAgent p)), (''userAgentData'',
       JObj [(''brands'', JArr [JObj [(''brand'', JString ''Chromium''), (''version'',
       JString ''146.0.0.0'')], JObj [(''brand'', JString ''Google Chrome''), (''version'',
       JString ''146.0.0.0'')], JObj [(''brand'', JString ''Not=A?Brand''), (''version'',
       JString ''24.0.0.0'')]]), (''platform'', JString ''Windows''), (''mobile'', JBool False),
       (''architecture'', JString ''x86'')])]) (3 / 10)),
     (''frame'', probe (JObj [(''frameElement'', JString ''set''), (''ancestorOriginsLen'',
       JInt 1), (''parentAccessible'', JBool False)]) (1 / 10)),
     (''match_media'', probe (JObj [(''prefersDark'', JBool False), (''prefersLight'',
       JBool True), (''reducedMotion'', JBool False), (''pointerFine'', JBool True)]) (1 / 10)),
     (''plugins'', probe (JObj [(''length'', JInt 5), (''names'', JArr [JString ''PDF Viewer'',
       JString ''Chrome PDF Viewer'', JString ''Chromium PDF Viewer'',
       JString ''Microsoft Edge PDF Viewer'', JString ''WebKit built-in PDF'']),
       (''descriptions'', JArr [JString ''Portable Document Format'',
       JString ''Portable Document Format'', JString ''Portable Document Format'',
       JString ''Portable Document Format'', JString ''Portable Document Format'']),
       (''mimeTypes'', JArr [JObj [(''type'', JString ''application/pdf''), (''suffixes'',
       JString ''pdf''), (''description'', JString ''Portable Document Format'')],
       JObj [(''type'', JString ''text/pdf''), (''suffixes'', JString ''pdf''),
       (''description'', JString ''Portable Document Format'')]]), (''isChrome'',
       JBool True)]) (2 / 10)),
     (''nav_tamper'', probe (JObj [(''tampered'', JBool False), (''el_ctor'',
       JString ''HTMLDivElement''), (''style_ctor'', JString ''CSSStyleDeclaration''),
       (''nav_ctor'', JString ''Navigator''), (''alert_native'', JBool True),
       (''to_string_native'', JBool True)]) (1 / 10)),
     (''referrer'', probe (JObj [(''referrer'', JString ''''), (''inIframe'', JBool True),
       (''domain'', JString ''id.vk.ru'')]) (1 / 10)),
     (''devtools'', probe (JObj [(''open'', JBool False), (''delay_ms'', JInt 0)]) (1 / 10)),
     (''css'', probe (JObj [(''expectedMissing'', JInt 0)]) (1 / 10)),
     (''native_integrity'', probe (JObj [(''protoMatch'', JBool True), (''xhrNative'',
       JBool True), (''xhrSendNative'', JBool True), (''addEventListenerNative'', JBool True),
       (''alertNative'', JBool True), (''toStringNative'', JBool True)]) (1 / 10)),
     (''cookie_test'', probe (JObj [(''write'', JBool True)]) (1 / 10)),
     (''ancestor_origins'', probe (JObj [(''ancestorOrigin'',
       JString ''https://id.vk.ru'')]) (1 / 10)),
     (''sandbox_behavior'', probe (JObj [(''originIsNull'', JBool False), (''localStorage'',
       JBool True), (''sessionStorage'', JBool True)]) (1 / 10)),
     (''max_touch_points'', probe (JObj [(''maxTouchPoints'', JInt 0)]) (1 / 10)),
     (''timezone_locale'', probe (JObj [(''timezone'', JString ''Europe/Moscow''),
       (''languages'', JArr [JString ''en-US'', JString ''ru'']), (''tz_offset'',
       JInt (-180))]) (1 / 10)),
     (''device_pixel_ratio'', probe (JObj [(''dpr'', JInt 1), (''orientation'',
       JString ''landscape-primary''), (''orientationAngle'', JInt 0)]) (1 / 10)),
     (''webgl'', probe (JObj [(''vendor'', JString ''Google Inc. (NVIDIA)''), (''renderer'',
       JString ''ANGLE (NVIDIA, NVIDIA GeForce GTX 1650 (0x00001F82) Direct3D11 vs_5_0 ps_5_0, D3D11)''),
       (''available'', JBool True), (''glsl_version'',
       JString ''WebGL GLSL ES 1.0 (OpenGL ES GLSL ES 1.0 Chromium)''), (''max_texture_size'',
       JInt 16384), (''extensions'', JArr [JString ''ANGLE_instanced_arrays'',
       JString ''EXT_blend_minmax'', JString ''EXT_color_buffer_half_float'',
       JString ''EXT_disjoint_timer_query'', JString ''EXT_float_blend'',
       JString ''EXT_texture_compression_bptc'', JString ''OES_element_index_uint'',
       JString ''OES_standard_derivatives'', JString ''OES_texture_float'',
       JString ''OES_texture_half_float'', JString ''WEBGL_debug_renderer_info'']),
       (''timedOut'', JBool False)]) (84 / 10)),
     (''chrome_runtime'', probe (JObj [(''present'', JBool True)]) (1 / 10)),
     (''audio_sig'', probe (JObj [(''hash'', JNumber (2580685760895704 / 10000000000000)),
       (''timedOut'', JBool False)]) (127 / 10)),
     (''reflow_timing'', probe (JObj [(''timings'', JArr [JNumber (156 / 1000),
       JNumber (201 / 1000), JNumber (178 / 1000)]), (''timedOut'', JBool False)]) (12 / 10)),
     (''dom_chain'', probe (JObj [(''hash'', JInt 482193042), (''iterations'',
       JInt 4)]) (9 / 10)),
     (''wasm'', probe (JObj [(''instantiated'', JBool True), (''result'', JInt 7),
       (''duration_ms'', JNumber (31 / 10)), (''loop_ms'', JNumber (4 / 10))]) (36 / 10)),
     (''subpixel_font'', probe (JObj [(''widths'', JArr [JInt 72, JInt 78, JInt 66]),
       (''timedOut'', JBool False)]) (8 / 10)),
     (''timing_baseline'', probe (JObj [(''cpu'', JArr [JNumber (104 / 1000),
       JNumber (101 / 1000), JNumber (105 / 1000)]), (''res'', JArr [JNumber (1047 / 1000),
       JNumber (1039 / 1000), JNumber (1042 / 1000), JNumber (1051 / 1000),
       JNumber (1044 / 1000)]), (''timedOut'', JBool False)]) (29 / 10)),
     (''canvas_fingerprint'', probe (JObj [(''hash'', JString ''a1f3c2e9d4b5''), (''timedOut'',
       JBool False)]) (18 / 10)),
     (''font_enumeration'', probe (JObj [(''available'', JArr [JString ''Arial'',
       JString ''Verdana'', JString ''Times New Roman'', JString ''Courier New'',
       JString ''Georgia'', JString ''Trebuchet MS'', JString ''Tahoma'', JString ''Segoe UI'',
       JString ''Consolas'', JString ''Roboto'']), (''timedOut'', JBool False)]) (11 / 10)),
     (''shadow_dom_check'', probe (JObj [(''customElements'', JBool True), (''shadowDom'',
       JBool True)]) (1 / 10)),
     (''ua_high_entropy'', probe (JObj [(''platform'', JString ''Windows''),
       (''platformVersion'', JString ''15.0.0''), (''architecture'', JString ''x86''),
       (''model'', JString ''''), (''uaFullVersion'', JString ''146.0.7410.0''),
       (''fullVersionList'', JArr [JObj [(''brand'', JString ''Chromium''), (''version'',
       JString ''146.0.7410.0'')], JObj [(''brand'', JString ''Google Chrome''), (''version'',
       JString ''146.0.7410.0'')], JObj [(''brand'', JString ''Not=A?Brand''), (''version'',
       JString ''24.0.0.0'')]]), (''bitness'', JString ''64''), (''formFactors'',
       JArr [JString ''Desktop'']), (''wow64'', JBool False)]) (14 / 10)),
     (''visibility_raf'', probe (JObj [(''visibilityState'', JString ''visible''), (''frames'',
       JInt 17), (''fps'', JInt 57), (''durationMs'', JNumber (300128 / 1000)), (''hiddenMs'',
       JInt 0)]) (3052 / 10))]"

text \<open>Sorted keys, compact, no HTML escaping: an Encoder with SetEscapeHTML(false), newline trimmed.\<close>

definition marshalStableJSON :: "(rat \<Rightarrow> string) \<Rightarrow> json \<Rightarrow> string" where
  "marshalStableJSON num v = json_text num False v"

definition stableTelemetryHash :: "(rat \<Rightarrow> string) \<Rightarrow> (string \<Rightarrow> bytes) \<Rightarrow> json \<Rightarrow> string" where
  "stableTelemetryHash num sha telemetry = hex_encode (sha (marshalStableJSON num telemetry))"

definition pow_payload :: "string \<Rightarrow> nat \<Rightarrow> int \<Rightarrow> json \<Rightarrow> string \<Rightarrow> json" where
  "pow_payload hexHash nonce durationMs telemetry tel_hash =
     JObj [(''hash'', JString hexHash), (''nonce'', JInt (int nonce)), (''error'', JString []),
       (''duration_ms'', JInt durationMs), (''telemetry'', telemetry), (''tel_hash'', JString tel_hash)]"

definition formatPoWResult :: "(rat \<Rightarrow> string) \<Rightarrow> (string \<Rightarrow> bytes) \<Rightarrow> int \<Rightarrow> string \<Rightarrow> nat \<Rightarrow> json \<Rightarrow> string" where
  "formatPoWResult num sha durationMs hexHash nonce telemetry =
     ''v2.'' @ b64_encode (marshalStableJSON num
       (pow_payload hexHash nonce durationMs telemetry (stableTelemetryHash num sha telemetry)))"

section \<open>The plain session and the solver\<close>

record ('he, 'w) solve_env =
  sv_env :: "('he, 'w) captcha_env"
  sv_sha :: "string \<Rightarrow> bytes"
  sv_md5 :: "string \<Rightarrow> bytes"
  sv_nano :: int
  sv_rand :: bytes
  sv_duration :: int
  sv_query :: "string \<Rightarrow> string option"

definition captchaDebugInfoHardcoded :: string where
  "captchaDebugInfoHardcoded = ''4045edac1cb2c18eff209dc09cd5e2e56475a13ed4615413a87618b3c6813f9a''"

definition generateBrowserFp :: "('he, 'w) solve_env \<Rightarrow> Profile \<Rightarrow> string" where
  "generateBrowserFp sv p = hex_encode (sv_md5 sv (UserAgent p @ SecChUa p @ ''1920x1080x24'' @ int_dec (sv_nano sv)))"

definition newCaptchaNotRobotSession :: "('he, 'w) solve_env \<Rightarrow> string \<Rightarrow> string \<Rightarrow> Profile \<Rightarrow> string \<Rightarrow> string \<Rightarrow>
    captchaNotRobotSession" where
  "newCaptchaNotRobotSession sv sessionToken hash p debugInfo adFp =
     \<lparr>ses_token = sessionToken, ses_hash = hash, ses_profile = p, ses_browserFp = generateBrowserFp sv p,
      ses_debugInfo = debugInfo, ses_adFp = adFp\<rparr>"

text \<open>One byte of the random id, as a character.\<close>

definition adfp_charset :: string where "adfp_charset = ''0123456789abcdefghijklmnopqrstuvwxyz''"

definition adfp_char :: "byte \<Rightarrow> char" where
  "adfp_char b = (let v = unat (b AND 63) in
     if v < 36 then adfp_charset ! v
     else if v < 62 then char_of (of_char (adfp_charset ! (v - 26)) - 32 :: nat)
     else if v = 62 then CHR ''_'' else CHR ''-'')"

definition generateAdFpId :: "bytes \<Rightarrow> string" where
  "generateAdFpId raw = map adfp_char raw"

definition applyBrowserProfileHTTP :: "Profile \<Rightarrow> headers \<Rightarrow> headers" where
  "applyBrowserProfileHTTP p =
     header_set ''Accept-Language'' ''en-US,en;q=0.9'' \<circ>
     header_set ''sec-ch-ua-platform'' (SecChUaPlatform p) \<circ>
     header_set ''sec-ch-ua-mobile'' (SecChUaMobile p) \<circ>
     header_set ''sec-ch-ua'' (SecChUa p) \<circ>
     header_set ''User-Agent'' (UserAgent p)"

definition adfp_payload :: "('he, 'w) solve_env \<Rightarrow> string \<Rightarrow> Profile \<Rightarrow> string" where
  "adfp_payload sv adFp p =
     (let q = (\<lambda>s. dq # s @ [dq]) in
      ''{'' @ q ''script'' @ '':{'' @ q ''v'' @ '':'' @ q ''v4.0.3'' @ '','' @ q ''b_id'' @ '':'' @ q ''152552442'' @
      ''},'' @ q ''navigator'' @ '':{'' @ q ''language'' @ '':'' @ q ''en-US (en-US)'' @ '','' @ q ''plugins_hash'' @ '':'' @
      q (hex_encode (sv_md5 sv (adFp @ ''plugins''))) @ '','' @ q ''properties_hash'' @ '':'' @
      q (hex_encode (sv_md5 sv (adFp @ ''props''))) @ '','' @ q ''userAgent'' @ '':'' @ q (UserAgent p) @
      ''},'' @ q ''screen'' @ '':{'' @ q ''availableScreenResolution'' @ '':'' @ q ''1920;1040'' @ '','' @
      q ''screenResolution'' @ '':'' @ q ''1920;1080'' @ ''},'' @ q ''sendReason'' @ '':1}'')"

definition registerAdFpFingerprint :: "('he, 'w) solve_env \<Rightarrow> string \<Rightarrow> Profile \<Rightarrow> ('f, 'w, unit) act" where
  "registerAdFpFingerprint sv adFp p =
     wbind (wtry (env_http (sv_env sv) \<lparr>rq_verb = ''POST'', rq_url = ''https://privacy-cs.mail.ru/fp/?id='' @ adFp,
       rq_headers = (header_set ''Sec-Fetch-Dest'' ''empty'' \<circ> header_set ''Sec-Fetch-Mode'' ''cors'' \<circ>
         header_set ''Sec-Fetch-Site'' ''cross-site'' \<circ> header_set ''Referer'' ''https://id.vk.ru/'' \<circ>
         header_set ''Origin'' ''https://id.vk.ru'' \<circ> header_set ''Accept'' ''*/*'' \<circ>
         header_set ''Content-Type'' ''application/json'' \<circ> applyBrowserProfileHTTP p) [],
       rq_body = adfp_payload sv adFp p\<rparr>)) (\<lambda>_. wret ())"

definition debug_info_re :: "piece list" where
  "debug_info_re = [Lit ''brlefapmjnpg:'', ws0] @ quoted dq"

definition fetchCaptchaBootstrap :: "('he, 'w) solve_env \<Rightarrow> string \<Rightarrow> Profile \<Rightarrow> ('he captcha_error, 'w, captchaBootstrap) act" where
  "fetchCaptchaBootstrap sv redirectURI p =
     (if sv_query sv redirectURI = None then wfail (Invalid_response ''redirect_uri'')
      else wbind (wwrap Http_failed (env_http (sv_env sv) \<lparr>rq_verb = ''GET'', rq_url = redirectURI,
          rq_headers = (header_set ''Accept'' ''text/html,application/xhtml+xml,application/xml;q=0.9,*/*;q=0.8'' \<circ>
            header_set ''Sec-Fetch-Dest'' ''document'' \<circ> header_set ''Sec-Fetch-Mode'' ''navigate'' \<circ>
            header_set ''Sec-Fetch-Site'' ''none'' \<circ> applyBrowserProfileHTTP p) [], rq_body = []\<rparr>)) (\<lambda>body.
        case parseCaptchaBootstrapHTMLExt (sv_env sv) body of
          None \<Rightarrow> wfail (Field_missing ''powInput'')
        | Some b \<Rightarrow> wret (case re_find debug_info_re None body of
              Some (x # _) \<Rightarrow> b\<lparr>DebugInfo := x\<rparr> | _ \<Rightarrow> b)))"

text \<open>The plain session writes its forms by hand.\<close>

definition plain_base :: "string \<Rightarrow> string \<Rightarrow> string" where
  "plain_base sessionToken adFp = ''session_token='' @ QueryEscape sessionToken @ ''&domain=vk.com&adFp='' @ QueryEscape adFp @ ''&access_token=''"

definition vkReq :: "('he, 'w) captcha_env \<Rightarrow> Profile \<Rightarrow> string \<Rightarrow> string \<Rightarrow> ('he captcha_error, 'w, (string \<times> json) list) act" where
  "vkReq env p m body =
     wbind (wwrap Http_failed (env_http env \<lparr>rq_verb = ''POST'', rq_url = captcha_url m,
       rq_headers = applyCaptchaHeadersHTTP p [], rq_body = body\<rparr>)) (\<lambda>b.
       case json_map (env_json env b) of None \<Rightarrow> wfail Bad_json | Some resp \<Rightarrow> wret resp)"

definition plain_check :: "string \<Rightarrow> string \<Rightarrow> string \<Rightarrow> string \<Rightarrow> string" where
  "plain_check base browserFp hash debugInfo =
     base @ ''&accelerometer='' @ QueryEscape ''[]'' @ ''&gyroscope='' @ QueryEscape ''[]'' @ ''&motion='' @ QueryEscape ''[]'' @
     ''&cursor='' @ QueryEscape ''[]'' @ ''&taps='' @ QueryEscape ''[]'' @ ''&browser_fp='' @ browserFp @ ''&hash='' @ hash @
     ''&answer='' @ b64_encode ''{}'' @ ''&debug_info='' @ (if debugInfo = [] then captchaDebugInfoHardcoded else debugInfo)"

definition plain_token :: "(string \<times> json) list \<Rightarrow> ('he captcha_error, string) result" where
  "plain_token resp =
     rbind (response_obj ''check'' resp) (\<lambda>respObj.
       if str_or_empty (field respObj ''status'') \<noteq> ''OK'' then Inl (Bad_status ''check'' (str_or_empty (field respObj ''status'')))
       else if str_or_empty (field respObj ''success_token'') = [] then Inl Token_missing
       else Inr (str_or_empty (field respObj ''success_token'')))"

definition callCaptchaNotRobot :: "('he, 'w) solve_env \<Rightarrow> string \<Rightarrow> string \<Rightarrow> string \<Rightarrow> string \<Rightarrow> Profile \<Rightarrow>
    ('he captcha_error, 'w, string) act" where
  "callCaptchaNotRobot sv sessionToken hash debugInfo adFp p =
     (let env = sv_env sv; base = plain_base sessionToken adFp; fp = generateBrowserFp sv p in
      wbind (wtry (vkReq env p ''captchaNotRobot.initSession'' (base @ ''&lang=3'')) ::
          ('he captcha_error, 'w, ('he captcha_error, (string \<times> json) list) result) act) (\<lambda>_.
      wbind (wwrap (Step_failed ''settings'') (vkReq env p ''captchaNotRobot.settings'' base)) (\<lambda>_.
      wbind (wwrap (Step_failed ''componentDone'') (vkReq env p ''captchaNotRobot.componentDone''
          (base @ ''&browser_fp='' @ fp @ ''&device='' @ QueryEscape (buildCaptchaDeviceJSON p)))) (\<lambda>_.
      wbind (wwrap (Step_failed ''check'') (vkReq env p ''captchaNotRobot.check'' (plain_check base fp hash debugInfo))) (\<lambda>resp.
      wbind (wlift (plain_token resp)) (\<lambda>token.
      wbind (wtry (vkReq env p ''captchaNotRobot.endSession'' base) ::
          ('he captcha_error, 'w, ('he captcha_error, (string \<times> json) list) result) act) (\<lambda>_.
        wret token)))))))"

datatype 'he solve_error =
    No_session_token
  | No_redirect_uri
  | Api_only_failed "'he captcha_error" "'he captcha_error"
  | Pow_failed
  | Solve_panic
  | Api_failed "'he captcha_error"

definition call_api :: "('he, 'w) solve_env \<Rightarrow> bool \<Rightarrow> string \<Rightarrow> string \<Rightarrow> captchaSettingsResponse \<Rightarrow> string \<Rightarrow> string \<Rightarrow> Profile \<Rightarrow>
    ('he captcha_error, 'w, string) act" where
  "call_api sv useSliderPOC sessionToken hash settings debugInfo adFp p =
     (if useSliderPOC
      then callCaptchaNotRobotWithSliderPOC (sv_env sv) (newCaptchaNotRobotSession sv sessionToken hash p debugInfo adFp) (Some settings)
      else callCaptchaNotRobot sv sessionToken hash debugInfo adFp p)"

definition solveVkCaptcha :: "('he, 'w) solve_env \<Rightarrow> VkCaptchaError \<Rightarrow> Profile \<Rightarrow> bool \<Rightarrow> ('he solve_error, 'w, string) act" where
  "solveVkCaptcha sv captchaErr p useSliderPOC =
     (if SessionToken captchaErr = [] then wfail No_session_token
      else if RedirectURI captchaErr = [] then wfail No_redirect_uri
      else let adFp = generateAdFpId (sv_rand sv) in
        wbind (registerAdFpFingerprint sv adFp p) (\<lambda>_.
        wbind (wtry (fetchCaptchaBootstrap sv (RedirectURI captchaErr) p)) (\<lambda>r.
          case r of
            Inl e \<Rightarrow> wwrap (Api_only_failed e)
              (call_api sv useSliderPOC (SessionToken captchaErr) [] empty_settings [] [] p)
          | Inr b \<Rightarrow>
              (case solvePoW (sv_sha sv) (PowInput b) (Difficulty b) of
                 Pow_panic \<Rightarrow> wfail Solve_panic
               | Pow_exhausted \<Rightarrow> wfail Pow_failed
               | Pow_found hexHash nonce \<Rightarrow>
                   (let hash = formatPoWResult (env_num (sv_env sv)) (sv_sha sv) (sv_duration sv) hexHash nonce (buildCaptchaTelemetry p) in
                    wwrap Api_failed (call_api sv useSliderPOC (SessionToken captchaErr) hash (Settings b) (DebugInfo b) adFp p))))))"

section \<open>Properties\<close>

definition pow_ok :: "(string \<Rightarrow> bytes) \<Rightarrow> string \<Rightarrow> int \<Rightarrow> nat \<Rightarrow> bool" where
  "pow_ok sha inp d n \<longleftrightarrow> prefix (replicate (nat d) CHR ''0'') (hex_encode (sha (inp @ nat_dec n)))"

lemma pow_loop_found:
  "pow_loop sha inp (replicate (nat d) CHR ''0'') n k = Pow_found h m \<longleftrightarrow>
    n \<le> m \<and> m < n + k \<and> pow_ok sha inp d m \<and> h = hex_encode (sha (inp @ nat_dec m)) \<and> (\<forall>i. n \<le> i \<and> i < m \<longrightarrow> \<not> pow_ok sha inp d i)"
proof (induction k arbitrary: n)
  case (Suc k)
  show ?case
  proof (cases "pow_ok sha inp d n")
    case True
    then have "pow_loop sha inp (replicate (nat d) CHR ''0'') n (Suc k) = Pow_found (hex_encode (sha (inp @ nat_dec n))) n"
      by (simp add: pow_ok_def)
    then show ?thesis using True by (auto simp del: pow_loop.simps) (metis le_antisym not_less_iff_gr_or_eq order_le_less)+
  next
    case False
    then have "pow_loop sha inp (replicate (nat d) CHR ''0'') n (Suc k) = pow_loop sha inp (replicate (nat d) CHR ''0'') (Suc n) k"
      by (simp add: pow_ok_def)
    moreover have "(\<forall>i. n \<le> i \<and> i < m \<longrightarrow> \<not> pow_ok sha inp d i) \<longleftrightarrow> (\<forall>i. Suc n \<le> i \<and> i < m \<longrightarrow> \<not> pow_ok sha inp d i)"
      using False by (metis Suc_leI le_SucE le_neq_implies_less less_imp_le_nat Suc_le_eq)
    moreover have "n \<le> m \<and> pow_ok sha inp d m \<longleftrightarrow> Suc n \<le> m \<and> pow_ok sha inp d m" using False by (metis Suc_leI Suc_leD le_neq_implies_less)
    ultimately show ?thesis using Suc.IH [of "Suc n"] by (simp del: pow_loop.simps) blast
  qed
qed simp

lemma pow_loop_exhausted:
  "pow_loop sha inp (replicate (nat d) CHR ''0'') n k = Pow_exhausted \<longleftrightarrow> (\<forall>m. n \<le> m \<and> m < n + k \<longrightarrow> \<not> pow_ok sha inp d m)"
proof (induction k arbitrary: n)
  case (Suc k)
  show ?case
  proof (cases "pow_ok sha inp d n")
    case True
    then show ?thesis by (auto simp: pow_ok_def)
  next
    case False
    then show ?thesis using Suc.IH [of "Suc n"]
      by (simp add: pow_ok_def) (metis Suc_leI Suc_le_lessD add_Suc_right le_SucI le_neq_implies_less order_le_less)
  qed
qed auto

lemma pow_loop_no_panic: "pow_loop sha inp t n k \<noteq> Pow_panic"
  by (induction k arbitrary: n) (auto simp: Let_def)

text \<open>
  C18.  The proof of work is found exactly when it exists: solvePoW returns the least nonce from 1 to ten million whose hash in hexadecimal
  begins with as many zeros as the difficulty says, with that hash; it gives up exactly when there is none; and it panics
  only for a difficulty that is negative or beyond the address space.
\<close>

theorem pow_search:
  "(solvePoW sha inp d = Pow_panic \<longleftrightarrow> d < 0 \<or> d > 2 ^ 48) \<and>
   (0 \<le> d \<and> d \<le> 2 ^ 48 \<longrightarrow>
     (\<forall>h n. solvePoW sha inp d = Pow_found h n \<longleftrightarrow> 1 \<le> n \<and> n \<le> 10000000 \<and> pow_ok sha inp d n \<and>
        h = hex_encode (sha (inp @ nat_dec n)) \<and> (\<forall>m. 1 \<le> m \<and> m < n \<longrightarrow> \<not> pow_ok sha inp d m)) \<and>
     (solvePoW sha inp d = Pow_exhausted \<longleftrightarrow> (\<forall>n. 1 \<le> n \<and> n \<le> 10000000 \<longrightarrow> \<not> pow_ok sha inp d n)))"
proof (cases "0 \<le> d \<and> d \<le> 2 ^ 48")
  case True
  then have e: "solvePoW sha inp d = pow_loop sha inp (replicate (nat d) CHR ''0'') 1 10000000" by (simp add: solvePoW_def)
  have r: "m < 1 + 10000000 \<longleftrightarrow> m \<le> 10000000" for m :: nat by auto
  show ?thesis unfolding e pow_loop_found pow_loop_exhausted r using True pow_loop_no_panic by auto
next
  case False
  then show ?thesis by (auto simp: solvePoW_def)
qed

text \<open>A hash that is all zeros: the first nonce is taken.\<close>

theorem pow_search_witness:
  "solvePoW (\<lambda>_. [0, 0]) ''seed'' 3 = Pow_found ''0000'' 1"
proof -
  have "hex_encode [0, 0] = ''0000''" by code_simp
  moreover have "prefix ''000'' ''0000''" by simp
  moreover have "replicate (nat 3) CHR ''0'' = ''000''" by code_simp
  ultimately show ?thesis using pow_search [of "\<lambda>_. [0, 0]" "''seed''" 3] by (auto simp: pow_ok_def)
qed

lemma first_some_pred: "first_some f xs = Some y \<Longrightarrow> (\<And>x z. f x = Some z \<Longrightarrow> P z) \<Longrightarrow> P y"
  using first_some_SomeD by metis

lemma extractPowInput_nonempty: "extractPowInput html = Some x \<Longrightarrow> x \<noteq> []"
  unfolding extractPowInput_def
  by (erule first_some_pred) (auto split: option.splits list.splits if_splits)

lemma extractDifficulty_pos: "0 < extractDifficulty html"
proof -
  have "0 < n" if "first_some (\<lambda>re. case re_find re None html of
         Some (x # _) \<Rightarrow> (case parse_int 10 x of Some n \<Rightarrow> (if n > 0 then Some n else None) | None \<Rightarrow> None)
       | _ \<Rightarrow> None) difficultyPatterns = Some n" for n
    using that by (rule first_some_pred) (auto split: option.splits list.splits if_splits)
  then show ?thesis unfolding extractDifficulty_def by (auto split: option.split)
qed


lemma seed_good: "extractPowSeed html = Some seed \<Longrightarrow> good_seed seed"
  unfolding extractPowSeed_def
  by (auto split: option.splits dest!: first_some_SomeD extractPowFromBodies_good)

text \<open>
  Whatever the page holds, a bootstrap is usable: the input of the proof of work is not empty, the
  difficulty is at least 1, and it exists as soon as one of the patterns or a seed call is on the page, plain or
  with the HTML entities replaced; a difficulty the seed call gives stays, at most 16.
\<close>

theorem bootstrap_usable:
  "(case parseCaptchaBootstrapHTMLExt env html of
      Some b \<Rightarrow> PowInput b \<noteq> [] \<and> 0 < Difficulty b \<and> DebugInfo b = [] \<and>
        (case extractPowSeed html of
           Some seed \<Rightarrow> PowInput b = ps_PowInput seed \<and> (ps_Difficulty seed = 0 \<or> Difficulty b = ps_Difficulty seed \<and> Difficulty b \<le> 16)
         | None \<Rightarrow> Difficulty b = extractDifficulty html)
    | None \<Rightarrow> extractPowSeed html = None \<and> extractPowInput html = None \<and> extractPowInput (htmlUnescapeForPow html) = None)"
proof (cases "extractPowSeed html")
  case (Some seed)
  from seed_good [OF this] have "ps_PowInput seed \<noteq> []" "0 \<le> ps_Difficulty seed" "ps_Difficulty seed \<le> 16"
    by (auto simp: good_seed_def powInputShape_def)
  then show ?thesis using Some extractDifficulty_pos [of html] by (simp add: parseCaptchaBootstrapHTMLExt_def)
next
  case None
  then show ?thesis using extractDifficulty_pos [of html] extractPowInput_nonempty [of html] extractPowInput_nonempty [of "htmlUnescapeForPow html"]
    by (cases "extractPowInput html"; cases "extractPowInput (htmlUnescapeForPow html)") (simp_all add: parseCaptchaBootstrapHTMLExt_def)
qed

section \<open>Base64 of text in a form written by hand\<close>

lemma str_split_app: "str_split c (a @ c # b) = str_split c a @ str_split c b"
proof (induction a)
  case (Cons x a)
  then show ?case using str_split_nonempty [of c a] by (auto simp del: str_split_nonempty split: list.splits)
qed simp

lemma parse_query_amp: "parse_query (a @ CHR ''&'' # b) = parse_query a @ parse_query b"
proof -
  have "List.map_filter f (xs @ ys) = List.map_filter f xs @ List.map_filter f ys" for f :: "string \<Rightarrow> (string \<times> string) option" and xs ys
    by (simp add: List.map_filter_def)
  then show ?thesis by (simp add: parse_query_def str_split_app)
qed

lemma QueryEscape_unreserved: "list_all unreserved s \<Longrightarrow> QueryEscape s = s"
  by (induction s) (auto simp: QueryEscape_def query_escape_char_def)

lemma parse_query_field:
  assumes "list_all unreserved k"
  shows "parse_query (k @ CHR ''='' # QueryEscape v) = [(k, v)]"
proof -
  have "CHR ''&'' \<notin> set (QueryEscape s)" for s
    using QueryEscape_class [of "CHR ''&''" s] unreserved_plain [of "CHR ''&''"] by auto
  then have "CHR ''&'' \<notin> set (QueryEscape k @ ''='' @ QueryEscape v)" by auto
  then have "parse_query (QueryEscape k @ ''='' @ QueryEscape v) = [(k, v)]"
    by (simp add: parse_query_def query_pair_escape [simplified] List.map_filter_simps del: append.assoc)
  then show ?thesis using QueryEscape_unreserved [OF assms] by simp
qed

text \<open>The base64 alphabet with its padding, in which only a plus changes in a query string.\<close>

definition b64_plain :: "char \<Rightarrow> bool" where
  "b64_plain c \<longleftrightarrow> unreserved c \<or> c \<in> {CHR ''/'', CHR ''=''}"

lemma query_unescape_plain: "list_all (\<lambda>c. c \<noteq> CHR 0x25 \<and> c \<noteq> CHR ''+'') s \<Longrightarrow> query_unescape s = Some s"
  by (induction s) auto

lemma parse_query_b64:
  assumes "list_all unreserved k" and "list_all b64_plain v"
  shows "parse_query (k @ CHR ''='' # v) = [(k, v)]"
proof -
  have k: "c \<noteq> CHR ''='' \<and> c \<noteq> CHR '';'' \<and> c \<noteq> CHR ''&'' \<and> c \<noteq> CHR 0x25 \<and> c \<noteq> CHR ''+''" if "c \<in> set k" for c
    using that assms(1) unreserved_plain [of c] by (auto simp: list_all_iff)
  have v: "c \<noteq> CHR '';'' \<and> c \<noteq> CHR ''&'' \<and> c \<noteq> CHR 0x25 \<and> c \<noteq> CHR ''+''" if "c \<in> set v" for c
    using that assms(2) unreserved_plain [of c] by (auto simp: list_all_iff b64_plain_def)
  have "takeWhile (\<lambda>x. x \<noteq> CHR ''='') (k @ CHR ''='' # v) = k" "dropWhile (\<lambda>x. x \<noteq> CHR ''='') (k @ CHR ''='' # v) = CHR ''='' # v"
    using k by (subst takeWhile_append2 dropWhile_append2; auto)+
  then have c: "cut_at CHR ''='' (k @ CHR ''='' # v) = (k, v)" by (simp add: cut_at_def)
  have u: "query_unescape k = Some k" "query_unescape v = Some v"
    using k v by (auto intro!: query_unescape_plain simp: list_all_iff)
  have n: "CHR '';'' \<notin> set (k @ CHR ''='' # v)" "CHR ''&'' \<notin> set (k @ CHR ''='' # v)" using k v by auto
  have "query_pair (k @ CHR ''='' # v) = Some (k, v)" using n(1) by (simp add: query_pair_def c u)
  then show ?thesis using n(2) by (simp add: parse_query_def List.map_filter_simps)
qed

lemma b64_char_plain: "n < 64 \<Longrightarrow> n \<noteq> 62 \<Longrightarrow> b64_plain (b64_char n)"
proof -
  assume n: "n < 64" "n \<noteq> 62"
  have "char_of (47::nat) = CHR ''/''" by code_simp
  moreover have "n = 63 \<Longrightarrow> b64_char n = CHR ''/''" by (simp add: b64_char_def)
  ultimately show ?thesis using n by (cases "n = 63") (auto simp: b64_plain_def b64_char_def unreserved_def Let_def)
qed

text \<open>ASCII text without the two characters whose third sextet is 62.\<close>

definition telemetry_text :: "string \<Rightarrow> bool" where
  "telemetry_text s \<longleftrightarrow> list_all (\<lambda>c. of_char c < (128::nat) \<and> of_char c \<noteq> (62::nat) \<and> of_char c \<noteq> (126::nat)) s"

lemma sextets:
  assumes "a < 128" and "b < 128" and "c < (128::nat)" and "c mod 64 \<noteq> 62"
  defines "n \<equiv> a * 65536 + b * 256 + c"
  shows "n div 262144 < 62" "n div 4096 mod 64 \<noteq> 62" "n div 64 mod 64 \<noteq> 62" "n mod 64 \<noteq> 62"
proof -
  show "n div 262144 < 62" using assms(1-3) by (simp add: n_def less_mult_imp_div_less)
  have "n = c + 64 * (a * 1024 + b * 4)" by (simp add: n_def)
  then have "n mod 64 = c mod 64" by (simp only: mod_mult_self2)
  then show "n mod 64 \<noteq> 62" using assms(4) by simp
  have "n div 4096 = b div 16 + 16 * a" using assms(1-3) by (simp add: n_def)
  then have "n div 4096 mod 16 = b div 16 mod 16" by (simp only: mod_mult_self2)
  moreover have "b div 16 < 8" using assms(2) by simp
  ultimately have "n div 4096 mod 16 < 8" by simp
  moreover have "n div 4096 mod 64 mod 16 = n div 4096 mod 16" by (rule mod_mod_cancel) simp
  ultimately show "n div 4096 mod 64 \<noteq> 62" by auto
  have "n div 64 = c div 64 + 4 * (a * 256 + b)" using assms(1-3) by (simp add: n_def)
  then have "n div 64 mod 4 = c div 64 mod 4" by (simp only: mod_mult_self2)
  moreover have "c div 64 < 2" using assms(3) by simp
  ultimately have "n div 64 mod 4 < 2" by simp
  moreover have "n div 64 mod 64 mod 4 = n div 64 mod 4" by (rule mod_mod_cancel) simp
  ultimately show "n div 64 mod 64 \<noteq> 62" by auto
qed

lemma mod62: "k < 128 \<Longrightarrow> k \<noteq> 62 \<Longrightarrow> k \<noteq> 126 \<Longrightarrow> k mod 64 \<noteq> (62::nat)"
  by (cases "k < 64") (auto simp: mod_if)

lemma b64_encode_plain: "telemetry_text s \<Longrightarrow> list_all b64_plain (b64_encode s)"
proof (induction s rule: b64_encode.induct)
  case (2 a)
  then have "of_char a < (128::nat)" by (simp add: telemetry_text_def)
  then show ?case using sextets [of "of_char a" 0 0] by (auto simp: Let_def intro!: b64_char_plain) (auto simp: b64_plain_def)
next
  case (3 a b)
  then have "of_char a < (128::nat)" "of_char b < (128::nat)" by (simp_all add: telemetry_text_def)
  then show ?case using sextets [of "of_char a" "of_char b" 0] by (auto simp: Let_def intro!: b64_char_plain) (auto simp: b64_plain_def)
next
  case (4 a b c s)
  then have k: "of_char a < (128::nat)" "of_char b < (128::nat)" "of_char c < (128::nat)" "of_char c \<noteq> (62::nat)" "of_char c \<noteq> (126::nat)"
    by (simp_all add: telemetry_text_def)
  from sextets [OF k(1-3) mod62 [OF k(3-5)]]
  have "b64_plain (b64_char ((of_char a * 65536 + of_char b * 256 + of_char c) div 262144))"
    "b64_plain (b64_char ((of_char a * 65536 + of_char b * 256 + of_char c) div 4096 mod 64))"
    "b64_plain (b64_char ((of_char a * 65536 + of_char b * 256 + of_char c) div 64 mod 64))"
    "b64_plain (b64_char ((of_char a * 65536 + of_char b * 256 + of_char c) mod 64))"
    by (auto intro!: b64_char_plain)
  moreover have "list_all b64_plain (b64_encode s)" using 4 by (simp add: telemetry_text_def)
  ultimately show ?case by (simp add: Let_def)
qed simp

lemma hash_arrives:
  assumes "list_all b64_plain hash" and "list_all unreserved fp"
  shows "query_get (plain_check (plain_base tok adFp) fp hash dbg) ''hash'' = hash"
proof -
  have fp: "QueryEscape fp = fp" using assms(2) by (rule QueryEscape_unreserved)
  let ?tail = "''answer='' @ b64_encode ''{}'' @ ''&debug_info='' @ (if dbg = [] then captchaDebugInfoHardcoded else dbg)"
  have e: "plain_check (plain_base tok adFp) fp hash dbg =
    (''session_token'' @ CHR ''='' # QueryEscape tok) @ CHR ''&'' # (''domain'' @ CHR ''='' # QueryEscape ''vk.com'') @ CHR ''&'' #
    (''adFp'' @ CHR ''='' # QueryEscape adFp) @ CHR ''&'' # (''access_token'' @ CHR ''='' # QueryEscape []) @ CHR ''&'' #
    (''accelerometer'' @ CHR ''='' # QueryEscape ''[]'') @ CHR ''&'' # (''gyroscope'' @ CHR ''='' # QueryEscape ''[]'') @ CHR ''&'' #
    (''motion'' @ CHR ''='' # QueryEscape ''[]'') @ CHR ''&'' # (''cursor'' @ CHR ''='' # QueryEscape ''[]'') @ CHR ''&'' #
    (''taps'' @ CHR ''='' # QueryEscape ''[]'') @ CHR ''&'' # (''browser_fp'' @ CHR ''='' # QueryEscape fp) @ CHR ''&'' #
    (''hash'' @ CHR ''='' # hash) @ CHR ''&'' # ?tail"
  proof -
    have "QueryEscape ''vk.com'' = ''vk.com''" "QueryEscape [] = []" by code_simp+
    then show ?thesis by (simp add: plain_check_def plain_base_def fp)
  qed
  have k: "list_all unreserved ''session_token''" "list_all unreserved ''domain''" "list_all unreserved ''adFp''" "list_all unreserved ''access_token''"
    "list_all unreserved ''accelerometer''" "list_all unreserved ''gyroscope''" "list_all unreserved ''motion''" "list_all unreserved ''cursor''"
    "list_all unreserved ''taps''" "list_all unreserved ''browser_fp''" "list_all unreserved ''hash''"
    by code_simp+
  show ?thesis unfolding query_get_def e parse_query_amp parse_query_field [OF k(1)] parse_query_field [OF k(2)] parse_query_field [OF k(3)]
    parse_query_field [OF k(4)] parse_query_field [OF k(5)] parse_query_field [OF k(6)] parse_query_field [OF k(7)] parse_query_field [OF k(8)]
    parse_query_field [OF k(9)] parse_query_field [OF k(10)] parse_query_b64 [OF k(11) assms(1)]
    by simp
qed

text \<open>
  The plain session puts the proof of work into its form without escaping, and it still arrives: base64 of a payload that is
  ASCII without > and ~ has no plus sign, the only character of the alphabet that a query string changes.  Every
  payload is such when the telemetry and the printed numbers are.
\<close>

theorem plain_hash_arrives:
  assumes "telemetry_text (marshalStableJSON num (pow_payload h n d tel (stableTelemetryHash num sha tel)))"
    and "list_all unreserved fp"
  shows "query_get (plain_check (plain_base tok adFp) fp (formatPoWResult num sha d h n tel) dbg) ''hash'' =
    formatPoWResult num sha d h n tel"
proof -
  have "list_all b64_plain ''v2.''" by code_simp
  then have "list_all b64_plain (formatPoWResult num sha d h n tel)"
    using b64_encode_plain [OF assms(1)] by (simp add: formatPoWResult_def)
  then show ?thesis using assms(2) by (rule hash_arrives)
qed

theorem plain_hash_arrives_witness:
  "query_get (plain_check (plain_base ''tok'' ''id'') ''f0'' (formatPoWResult (\<lambda>_. ''0'') (\<lambda>_. [7]) 90 ''00'' 1 JNull) []) ''hash'' =
    formatPoWResult (\<lambda>_. ''0'') (\<lambda>_. [7]) 90 ''00'' 1 JNull"
  by (rule plain_hash_arrives) code_simp+


end
