(* ===== verification/Vk_Auth.thy ===== *)
theory Vk_Auth
  imports Captcha_Solve
begin

text \<open>
  Fetching TURN credentials from VK (vk_auth.go): the chain of four tokens, the captcha attempts
  inside it, and FetchVkCreds.

  Parameters: the HTTP client of the chain, the environment of the captcha solver, the callback for
  solving by hand, the host manager's Resolve, the generated name and the random device id.  They
  share one world.  Pauses, log lines and the building of the HTTP client are left out.
\<close>

section \<open>Captcha attempts\<close>

datatype captchaSolveMode = captchaSolveModeAuto | captchaSolveModeSliderPOC | captchaSolveModeManual

definition captchaSolveModeForAttempt :: "nat \<Rightarrow> bool \<Rightarrow> bool \<Rightarrow> captchaSolveMode option" where
  "captchaSolveModeForAttempt attempt manualCaptcha enableSliderPOC =
     (if attempt = 0 then Some (if enableSliderPOC then captchaSolveModeSliderPOC else captchaSolveModeAuto)
      else if attempt = 1 then Some captchaSolveModeAuto
      else if attempt = 2 then Some (if enableSliderPOC then captchaSolveModeSliderPOC else captchaSolveModeAuto)
      else if attempt = 3 then Some captchaSolveModeAuto
      else if attempt = 4 \<and> manualCaptcha then Some captchaSolveModeManual
      else None)"

record VKCredentials =
  ClientID :: string
  ClientSecret :: string

definition vkCredentialsList :: "VKCredentials list" where
  "vkCredentialsList = [\<lparr>ClientID = ''6287487'', ClientSecret = ''QbYic1K3lEV5kTGiqlq2''\<rparr>]"

record ('he, 'w) vk_env =
  va_http :: "http_request \<Rightarrow> ('he, 'w, string) act"
  va_sv :: "('he, 'w) solve_env"
  va_manual :: "string \<Rightarrow> 'w \<Rightarrow> string \<times> 'w"
  va_resolve :: "string \<Rightarrow> 'w \<Rightarrow> string option \<times> 'w"
  va_name :: string
  va_uuid :: string

datatype 'he chain_error =
    Request_failed 'he
  | Reply_not_json
  | Api_error string
  | Bad_structure string
  | CAPTCHA_WAIT_REQUIRED
  | Crash
  | All_failed "'he chain_error"

abbreviation va_json :: "('he, 'w) vk_env \<Rightarrow> string \<Rightarrow> json option" where
  "va_json env \<equiv> env_json (sv_env (va_sv env))"

section \<open>One request of the chain\<close>

definition applyBrowserProfileFhttp :: "Profile \<Rightarrow> headers \<Rightarrow> headers" where
  "applyBrowserProfileFhttp p = header_set ''DNT'' ''1'' \<circ> applyBrowserProfileHTTP p"

definition chain_rq :: "Profile \<Rightarrow> string \<Rightarrow> string \<Rightarrow> http_request" where
  "chain_rq p body url = \<lparr>rq_verb = ''POST'', rq_url = url,
     rq_headers = (header_set ''Priority'' ''u=1, i'' \<circ> header_set ''Sec-Fetch-Dest'' ''empty'' \<circ>
       header_set ''Sec-Fetch-Mode'' ''cors'' \<circ> header_set ''Sec-Fetch-Site'' ''same-site'' \<circ>
       header_set ''Referer'' ''https://vk.ru/'' \<circ> header_set ''Origin'' ''https://vk.ru'' \<circ>
       header_set ''Accept'' ''*/*'' \<circ> header_set ''Content-Type'' ''application/x-www-form-urlencoded'' \<circ>
       applyBrowserProfileFhttp p) [],
     rq_body = body\<rparr>"

definition doRequest :: "('he, 'w) vk_env \<Rightarrow> Profile \<Rightarrow> string \<Rightarrow> string \<Rightarrow> ('he chain_error, 'w, (string \<times> json) list) act" where
  "doRequest env p body url =
     wbind (wwrap Request_failed (va_http env (chain_rq p body url))) (\<lambda>b.
       case json_map (va_json env b) of None \<Rightarrow> wfail Reply_not_json | Some resp \<Rightarrow> wret resp)"

text \<open>A string under a key that must be there.\<close>

definition need_str :: "string \<Rightarrow> (string \<times> json) list \<Rightarrow> string \<Rightarrow> ('he chain_error, string) result" where
  "need_str what m k =
     (case map_of m k of None \<Rightarrow> Inl (Bad_structure what)
      | Some v \<Rightarrow> (case as_str v of None \<Rightarrow> Inl (Bad_structure what) | Some s \<Rightarrow> Inr s))"

section \<open>Token 1\<close>

definition token1_url :: string where "token1_url = ''https://login.vk.ru/?act=get_anonym_token''"

definition token1_data :: "VKCredentials \<Rightarrow> string" where
  "token1_data c = ''client_id='' @ ClientID c @ ''&token_type=messages&client_secret='' @ ClientSecret c @
     ''&version=1&app_id='' @ ClientID c"

definition token1_of :: "(string \<times> json) list \<Rightarrow> ('he chain_error, string) result" where
  "token1_of resp =
     (case as_obj (field resp ''error'') of
        Some _ \<Rightarrow> Inl (Api_error ''token1'')
      | None \<Rightarrow>
          (case map_of resp ''data'' of None \<Rightarrow> Inl (Bad_structure ''data'')
           | Some d \<Rightarrow> (case as_obj d of None \<Rightarrow> Inl (Bad_structure ''data'')
              | Some m \<Rightarrow> need_str ''token1'' m ''access_token'')))"

definition preview_url :: "VKCredentials \<Rightarrow> string" where
  "preview_url c = ''https://api.vk.ru/method/calls.getCallPreview?v=5.275&client_id='' @ ClientID c"

definition preview_data :: "string \<Rightarrow> string \<Rightarrow> string" where
  "preview_data link token1 = ''vk_join_link=https://vk.ru/call/join/'' @ QueryEscape link @
     ''&fields=photo_200&access_token='' @ token1"

section \<open>Token 2 and its captchas\<close>

definition token2_url :: "VKCredentials \<Rightarrow> string" where
  "token2_url c = ''https://api.vk.ru/method/calls.getAnonymousToken?v=5.275&client_id='' @ ClientID c"

definition token2_data :: "string \<Rightarrow> string \<Rightarrow> string \<Rightarrow> string" where
  "token2_data link escapedName token1 =
     ''vk_join_link=https://vk.com/call/join/'' @ link @ ''&name='' @ escapedName @ ''&access_token='' @ token1"

definition captcha_data :: "string \<Rightarrow> string \<Rightarrow> string \<Rightarrow> VkCaptchaError \<Rightarrow> string \<Rightarrow> string" where
  "captcha_data link escapedName token1 e successToken =
     (let att = (if CaptchaAttempt e = ''0'' \<or> CaptchaAttempt e = [] then ''1'' else CaptchaAttempt e) in
      ''vk_join_link=https://vk.com/call/join/'' @ link @ ''&name='' @ escapedName @ ''&captcha_key=&captcha_sid='' @
      CaptchaSid e @ ''&is_sound_captcha=0&success_token='' @ QueryEscape successToken @ ''&captcha_ts='' @ CaptchaTs e @
      ''&captcha_attempt='' @ att @ ''&access_token='' @ token1)"

text \<open>
  Solving in one mode.  A panic in the solver, of strings.Repeat or of make for the slider's grid,
  is not recovered anywhere: it ends the process, which the model keeps as an outcome of its own.
\<close>

datatype solve_outcome = Solved string | Not_solved | Crashed

fun ranking_panic :: "'he captcha_error \<Rightarrow> bool" where
  "ranking_panic (Ranking_failed (Panic_makeslice _)) = True"
| "ranking_panic _ = False"

fun solve_panic :: "'he solve_error \<Rightarrow> bool" where
  "solve_panic Solve_panic = True"
| "solve_panic (Api_failed e) = ranking_panic e"
| "solve_panic (Api_only_failed _ e) = ranking_panic e"
| "solve_panic _ = False"

definition solve_in_mode :: "('he, 'w) vk_env \<Rightarrow> Profile \<Rightarrow> captchaSolveMode \<Rightarrow> VkCaptchaError \<Rightarrow> 'w \<Rightarrow> solve_outcome \<times> 'w" where
  "solve_in_mode env p mode e w =
     (case mode of
        captchaSolveModeManual \<Rightarrow>
          (case va_manual env (RedirectURI e) w of (tok, w') \<Rightarrow> (if tok = [] then Not_solved else Solved tok, w'))
      | _ \<Rightarrow>
          if SessionToken e \<noteq> [] \<and> RedirectURI e \<noteq> [] then
            (case solveVkCaptcha (va_sv env) e p (mode = captchaSolveModeSliderPOC) w of
               (Inl err, w') \<Rightarrow> (if solve_panic err then Crashed else Not_solved, w')
             | (Inr tok, w') \<Rightarrow> (Solved tok, w'))
          else (Not_solved, w))"

datatype token2_step = Token2 string | Again string

text \<open>The token in a reply without an error.\<close>

definition token2_of :: "(string \<times> json) list \<Rightarrow> ('he chain_error, string) result" where
  "token2_of resp =
     (case map_of resp ''response'' of None \<Rightarrow> Inl (Bad_structure ''response'')
      | Some r \<Rightarrow> (case as_obj r of None \<Rightarrow> Inl (Bad_structure ''response'')
         | Some m \<Rightarrow> need_str ''token2'' m ''token''))"

text \<open>One turn of the loop; the two flags are constants of the code.\<close>

definition token2_turn :: "('he, 'w) vk_env \<Rightarrow> Profile \<Rightarrow> VKCredentials \<Rightarrow> string \<Rightarrow> string \<Rightarrow> string \<Rightarrow> nat \<Rightarrow> string \<Rightarrow>
    ('he chain_error, 'w, token2_step) act" where
  "token2_turn env p c link escapedName token1 attempt body =
     wbind (doRequest env p body (token2_url c)) (\<lambda>resp.
       case as_obj (field resp ''error'') of
         None \<Rightarrow> wbind (wlift (token2_of resp)) (\<lambda>t. wret (Token2 t))
       | Some errObj \<Rightarrow>
           (case ParseVkCaptchaError (sv_query (va_sv env)) errObj of
              None \<Rightarrow> wfail (Api_error ''getAnonymousToken'')
            | Some e \<Rightarrow>
                if \<not> IsCaptchaError e then wfail (Api_error ''getAnonymousToken'')
                else (case captchaSolveModeForAttempt attempt True True of
                    None \<Rightarrow> wfail CAPTCHA_WAIT_REQUIRED
                  | Some mode \<Rightarrow>
                      (\<lambda>w. case solve_in_mode env p mode e w of
                         (Crashed, w') \<Rightarrow> (Inl Crash, w')
                       | (Not_solved, w') \<Rightarrow>
                           (case captchaSolveModeForAttempt (Suc attempt) True True of
                              Some _ \<Rightarrow> (Inr (Again body), w')
                            | None \<Rightarrow> (Inl CAPTCHA_WAIT_REQUIRED, w'))
                       | (Solved tok, w') \<Rightarrow> (Inr (Again (captcha_data link escapedName token1 e tok)), w')))))"

lemma mode_bound: "captchaSolveModeForAttempt attempt m s = Some mode \<Longrightarrow> attempt < 5"
  by (auto simp: captchaSolveModeForAttempt_def split: if_splits)

text \<open>The loop goes on only while there was a mode to try: attempt 5 is the last.\<close>

lemma token2_turn_again:
  "token2_turn env p c link nm t attempt body w = (Inr (Again d), w') \<Longrightarrow> attempt < 5"
  by (auto simp: token2_turn_def wbind_Inr_iff wlift_iff wret_iff wfail_iff dest: mode_bound split: option.splits if_splits)

function token2_loop :: "('he, 'w) vk_env \<Rightarrow> Profile \<Rightarrow> VKCredentials \<Rightarrow> string \<Rightarrow> string \<Rightarrow> string \<Rightarrow> nat \<Rightarrow> string \<Rightarrow>
    ('he chain_error, 'w, string) act" where
  "token2_loop env p c link escapedName token1 attempt body w =
     (case token2_turn env p c link escapedName token1 attempt body w of
        (Inl e, w') \<Rightarrow> (Inl e, w')
      | (Inr (Token2 t), w') \<Rightarrow> (Inr t, w')
      | (Inr (Again body'), w') \<Rightarrow> token2_loop env p c link escapedName token1 (Suc attempt) body' w')"
  by pat_completeness auto
termination
  by (relation "measure (\<lambda>(env, p, c, link, escapedName, token1, attempt, body, w). 6 - attempt)")
    (auto dest: token2_turn_again [OF sym] token2_turn_again)

declare token2_loop.simps [simp del]

section \<open>Tokens 3 and 4\<close>

definition okcdn_url :: string where "okcdn_url = ''https://calls.okcdn.ru/fb.do''"

definition session_json :: "string \<Rightarrow> string" where
  "session_json uuid = (let q = (\<lambda>s. dq # s @ [dq]) in
     ''{'' @ q ''version'' @ '':2,'' @ q ''device_id'' @ '':'' @ q uuid @ '','' @ q ''client_version'' @ '':1.1,'' @
     q ''client_type'' @ '':'' @ q ''SDK_JS'' @ ''}'')"

definition token3_data :: "string \<Rightarrow> string" where
  "token3_data uuid = ''session_data='' @ QueryEscape (session_json uuid) @
     ''&method=auth.anonymLogin&format=JSON&application_key=CGMMEJLGDIHBABABA''"

definition token4_data :: "string \<Rightarrow> string \<Rightarrow> string \<Rightarrow> string" where
  "token4_data link token2 token3 = ''joinLink='' @ QueryEscape link @ ''&isVideo=false&protocolVersion=5&capabilities=2F7F&anonymToken='' @
     token2 @ ''&method=vchat.joinConversationByLink&format=JSON&application_key=CGMMEJLGDIHBABABA&session_key='' @ token3"

definition ok_error :: "string \<Rightarrow> (string \<times> json) list \<Rightarrow> ('he chain_error, unit) result" where
  "ok_error what resp = (if str_or_empty (field resp ''error'') \<noteq> [] then Inl (Api_error what) else Inr ())"

section \<open>The TURN server\<close>

text \<open>The first URL, without its query and scheme.\<close>

definition turn_address :: "string \<Rightarrow> string" where
  "turn_address url = trim_prefix ''turns:'' (trim_prefix ''turn:'' (hd (str_split CHR ''?'' url)))"

text \<open>A host name in the address is resolved; without success the address stays.\<close>

definition resolve_turn :: "(string \<Rightarrow> 'w \<Rightarrow> string option \<times> 'w) \<Rightarrow> string \<Rightarrow> ('f, 'w, string) act" where
  "resolve_turn resolve address =
     (\<lambda>w. case SplitHostPort address of
        None \<Rightarrow> (Inr address, w)
      | Some (host, port) \<Rightarrow>
          if is_ip host then (Inr address, w)
          else (case resolve host w of
              (None, w') \<Rightarrow> (Inr address, w')
            | (Some ip, w') \<Rightarrow> (Inr (JoinHostPort ip port), w')))"

definition turn_server_of :: "(string \<times> json) list \<Rightarrow> ('he chain_error, (string \<times> json) list) result" where
  "turn_server_of resp =
     (case map_of resp ''turn_server'' of None \<Rightarrow> Inl (Bad_structure ''turn_server'')
      | Some v \<Rightarrow> (case as_obj v of None \<Rightarrow> Inl (Bad_structure ''turn_server'') | Some ts \<Rightarrow> Inr ts))"

definition turn_url_of :: "(string \<times> json) list \<Rightarrow> ('he chain_error, string) result" where
  "turn_url_of ts =
     (case map_of ts ''urls'' of None \<Rightarrow> Inl (Bad_structure ''urls'')
      | Some v \<Rightarrow> (case as_arr v of
            Some (u # _) \<Rightarrow> (case as_str u of None \<Rightarrow> Inl (Bad_structure ''urls'') | Some s \<Rightarrow> Inr s)
          | _ \<Rightarrow> Inl (Bad_structure ''urls'')))"

definition nonempty_str :: "string \<Rightarrow> (string \<times> json) list \<Rightarrow> ('he chain_error, string) result" where
  "nonempty_str k m = rbind (need_str k m k) (\<lambda>s. if s = [] then Inl (Bad_structure k) else Inr s)"

section \<open>The chain\<close>

definition getTokenChain :: "('he, 'w) vk_env \<Rightarrow> string \<Rightarrow> VKCredentials \<Rightarrow> Profile \<Rightarrow>
    ('he chain_error, 'w, string \<times> string \<times> string) act" where
  "getTokenChain env link c p =
     (let escapedName = QueryEscape (va_name env) in
      wbind (doRequest env p (token1_data c) token1_url) (\<lambda>resp.
      wbind (wlift (token1_of resp)) (\<lambda>token1.
      wbind (wtry (doRequest env p (preview_data link token1) (preview_url c)) ::
          ('he chain_error, 'w, ('he chain_error, (string \<times> json) list) result) act) (\<lambda>_.
      wbind (token2_loop env p c link escapedName token1 0 (token2_data link escapedName token1)) (\<lambda>token2.
      wbind (doRequest env p (token3_data (va_uuid env)) okcdn_url) (\<lambda>resp.
      wbind (wlift (rbind (ok_error ''token3'' resp) (\<lambda>_. need_str ''token3'' resp ''session_key''))) (\<lambda>token3.
      wbind (doRequest env p (token4_data link token2 token3) okcdn_url) (\<lambda>resp.
      wbind (wlift (rbind (ok_error ''token4'' resp) (\<lambda>_. turn_server_of resp))) (\<lambda>ts.
      wbind (wlift (turn_url_of ts)) (\<lambda>url.
      wbind (resolve_turn (va_resolve env) (turn_address url)) (\<lambda>address.
      wbind (wlift (nonempty_str ''username'' ts)) (\<lambda>username.
      wbind (wlift (nonempty_str ''credential'' ts)) (\<lambda>credential.
        wret (username, credential, address))))))))))))))"

definition vk_profile :: Profile where
  "vk_profile = \<lparr>UserAgent = ''Mozilla/5.0 (Windows NT 10.0; Win64; x64) AppleWebKit/537.36 (KHTML, like Gecko) Chrome/146.0.0.0 Safari/537.36'',
     SecChUa = concat [[dq], ''Not(A:Brand'', [dq], '';v='', [dq], ''99'', [dq], '', '', [dq], ''Google Chrome'', [dq], '';v='', [dq], ''146'', [dq],
       '', '', [dq], ''Chromium'', [dq], '';v='', [dq], ''146'', [dq]],
     SecChUaMobile = ''?0'', SecChUaPlatform = dq # ''Windows'' @ [dq]\<rparr>"

fun try_creds :: "('he, 'w) vk_env \<Rightarrow> string \<Rightarrow> VKCredentials list \<Rightarrow> 'he chain_error option \<Rightarrow>
    ('he chain_error, 'w, string \<times> string \<times> string) act" where
  "try_creds env link [] lastErr w = (Inl (case lastErr of None \<Rightarrow> Bad_structure [] | Some e \<Rightarrow> All_failed e), w)"
| "try_creds env link (c # cs) lastErr w =
     (case getTokenChain env link c vk_profile w of
        (Inr r, w') \<Rightarrow> (Inr r, w')
      | (Inl e, w') \<Rightarrow> if e = Crash then (Inl Crash, w') else try_creds env link cs (Some e) w')"

definition FetchVkCreds :: "('he, 'w) vk_env \<Rightarrow> string \<Rightarrow> ('he chain_error, 'w, string \<times> string \<times> string) act" where
  "FetchVkCreds env link = try_creds env link vkCredentialsList None"

section \<open>What an action leaves alone\<close>

text \<open>\<open>keeps obs act\<close>: the action does not change what \<open>obs\<close> sees of the world.\<close>

definition keeps :: "('w \<Rightarrow> 'o) \<Rightarrow> ('e, 'w, 'a) act \<Rightarrow> bool" where
  "keeps obs act \<longleftrightarrow> (\<forall>w. obs (snd (act w)) = obs w)"

named_theorems keep_intros

lemma keepsI: "(\<And>w. obs (snd (act w)) = obs w) \<Longrightarrow> keeps obs act"
  by (simp add: keeps_def)

lemma keeps_basic [keep_intros]:
  "keeps obs (wret x)" "keeps obs (wfail e)" "keeps obs (wlift r)"
  by (simp_all add: keeps_def wret_def wfail_def wlift_def)

lemma keeps_bind [keep_intros]: "keeps obs m \<Longrightarrow> (\<And>x. keeps obs (f x)) \<Longrightarrow> keeps obs (wbind m f)"
  unfolding keeps_def wbind_def by (auto split: prod.splits sum.splits) (metis snd_conv)+

lemma keeps_wrap [keep_intros]: "keeps obs m \<Longrightarrow> keeps obs (wwrap g m)" "keeps obs m \<Longrightarrow> keeps obs (wtry m)"
  unfolding keeps_def wwrap_def wtry_def by (auto split: prod.splits sum.splits) (metis snd_conv)+

lemma keeps_if [keep_intros]: "(b \<Longrightarrow> keeps obs m) \<Longrightarrow> (\<not> b \<Longrightarrow> keeps obs m') \<Longrightarrow> keeps obs (if b then m else m')"
  by simp

lemma keeps_case [keep_intros]:
  "keeps obs m \<Longrightarrow> (\<And>x. keeps obs (f x)) \<Longrightarrow> keeps obs (case z of None \<Rightarrow> m | Some x \<Rightarrow> f x)"
  "(\<And>x. keeps obs (f1 x)) \<Longrightarrow> (\<And>x. keeps obs (f2 x)) \<Longrightarrow> keeps obs (case z2 of Inl x \<Rightarrow> f1 x | Inr x \<Rightarrow> f2 x)"
  by (auto split: option.split sum.split)

lemma keeps_prod [keep_intros]: "(\<And>x y. keeps obs (f x y)) \<Longrightarrow> keeps obs (case z of (x, y) \<Rightarrow> f x y)"
  by (cases z) simp

lemma keeps_try_loop:
  "(\<And>c. keeps obs (check c)) \<Longrightarrow> keeps obs (try_loop check cs)"
proof (rule keepsI)
  fix w assume k: "\<And>c. keeps obs (check c)"
  show "obs (snd (try_loop check cs w)) = obs w"
  proof (induction cs arbitrary: w)
    case (Cons c cs)
    obtain a w' where a: "check c w = (a, w')" by fastforce
    then have "obs w' = obs w" using k unfolding keeps_def by (metis snd_conv)
    then show ?case using Cons a by (auto split: sum.split)
  qed simp
qed

lemma keeps_attempts [keep_intros]:
  "(\<And>c. keeps obs (check c)) \<Longrightarrow> keeps obs (trySliderCaptchaCandidates cs n check)"
  using keeps_try_loop [of obs check] unfolding keeps_def trySliderCaptchaCandidates_def by (auto simp: Let_def)

lemma keeps_request [keep_intros]: "(\<And>q. keeps obs (env_http env q)) \<Longrightarrow> keeps obs (request env s m vs)"
  unfolding request_def by (intro keep_intros)

lemma keeps_session [keep_intros]:
  assumes h: "\<And>q. keeps obs (env_http env q)"
  shows "keeps obs (callCaptchaNotRobotWithSliderPOC env s initial)"
proof -
  note r = keeps_request [OF h]
  show ?thesis
    unfolding callCaptchaNotRobotWithSliderPOC_def requestInitSession_def requestSettings_def requestComponentDone_def
      requestCheckboxCheck_def requestCheck_def requestSliderContent_def requestEndSession_def finish_def checkbox_fallback_def
      solve_slider_def requestSliderCheck_def Let_def
    by (intro keep_intros r)
qed

lemma keeps_plain [keep_intros]:
  assumes h: "\<And>q. keeps obs (env_http (sv_env sv) q)"
  shows "keeps obs (callCaptchaNotRobot sv tok hash dbg adFp p)"
  unfolding callCaptchaNotRobot_def vkReq_def Let_def by (intro keep_intros h)

lemma keeps_pow: "keeps obs m \<Longrightarrow> keeps obs m' \<Longrightarrow> (\<And>x y. keeps obs (f x y)) \<Longrightarrow>
    keeps obs (case r of Pow_panic \<Rightarrow> m | Pow_exhausted \<Rightarrow> m' | Pow_found x y \<Rightarrow> f x y)"
  by (cases r) auto

lemma keeps_solve:
  assumes h: "\<And>q. keeps obs (env_http (sv_env sv) q)"
  shows "keeps obs (solveVkCaptcha sv e p b)"
proof -
  have c: "keeps obs (call_api sv b t hash st dbg adFp p)" for t hash st dbg adFp
    unfolding call_api_def by (intro keep_intros h)
  show ?thesis
    unfolding solveVkCaptcha_def registerAdFpFingerprint_def fetchCaptchaBootstrap_def Let_def
    by (intro keep_intros keeps_pow h c)
qed


section \<open>The requests of the chain\<close>

text \<open>An observer of the chain's own requests: it sees their URLs, in order, and nothing else.\<close>

definition vk_observer :: "('he, 'w) vk_env \<Rightarrow> ('w \<Rightarrow> string list) \<Rightarrow> bool" where
  "vk_observer env obs \<longleftrightarrow>
     (\<forall>q w. obs (snd (va_http env q w)) = obs w @ [rq_url q]) \<and>
     (\<forall>q w. obs (snd (env_http (sv_env (va_sv env)) q w)) = obs w) \<and>
     (\<forall>u w. obs (snd (va_manual env u w)) = obs w) \<and> (\<forall>h w. obs (snd (va_resolve env h w)) = obs w)"

lemma doRequest_obs:
  assumes "vk_observer env obs" and "doRequest env p body url w = (r, w')"
  shows "obs w' = obs w @ [url]"
proof -
  obtain a w1 where a: "va_http env (chain_rq p body url) w = (a, w1)" by fastforce
  have "obs (snd (va_http env (chain_rq p body url) w)) = obs w @ [rq_url (chain_rq p body url)]"
    using assms(1) by (simp add: vk_observer_def)
  then have "obs w1 = obs w @ [url]" using a by (simp add: chain_rq_def)
  moreover have "w' = w1" using assms(2) a
    by (auto simp: doRequest_def wbind_def wwrap_def wret_def wfail_def split: sum.splits option.splits)
  ultimately show ?thesis by simp
qed

lemma solve_in_mode_obs: "vk_observer env obs \<Longrightarrow> solve_in_mode env p mode e w = (r, w') \<Longrightarrow> obs w' = obs w"
proof -
  assume o: "vk_observer env obs" and r: "solve_in_mode env p mode e w = (r, w')"
  have k: "obs (snd (solveVkCaptcha (va_sv env) e p b w)) = obs w" for b
    using keeps_solve [of obs "va_sv env" e p b] o by (simp add: keeps_def vk_observer_def)
  have m: "obs (snd (va_manual env u w)) = obs w" for u using o by (simp add: vk_observer_def)
  show ?thesis using r k m [of "RedirectURI e"]
    by (auto simp: solve_in_mode_def split: captchaSolveMode.splits prod.splits sum.splits if_splits) (metis snd_conv)+
qed

lemma token2_turn_obs:
  assumes "vk_observer env obs" and "token2_turn env p c link nm t attempt body w = (r, w')"
  shows "obs w' = obs w @ [token2_url c]"
proof -
  obtain r1 w1 where d: "doRequest env p body (token2_url c) w = (r1, w1)" by fastforce
  have "obs w' = obs w1"
    using assms(2) d solve_in_mode_obs [OF assms(1)]
    by (auto simp: token2_turn_def wbind_def wlift_def wret_def wfail_def split: sum.splits option.splits prod.splits if_splits solve_outcome.splits)
  then show ?thesis using doRequest_obs [OF assms(1) d] by simp
qed

lemma token2_loop_obs:
  "vk_observer env obs \<Longrightarrow> token2_loop env p c link nm t attempt body w = (r, w') \<Longrightarrow> attempt \<le> 5 \<Longrightarrow>
    \<exists>n. 1 \<le> n \<and> n \<le> 6 - attempt \<and> obs w' = obs w @ replicate n (token2_url c)"
proof (induction env p c link nm t attempt body w arbitrary: r w' rule: token2_loop.induct)
  case (1 env p c link nm t attempt body w)
  obtain s w1 where s: "token2_turn env p c link nm t attempt body w = (s, w1)" by fastforce
  have o: "obs w1 = obs w @ [token2_url c]" using token2_turn_obs [OF "1.prems"(1) s] .
  note loop = "1.prems"(2) [unfolded token2_loop.simps [of env p c link nm t attempt body w] s]
  have one: "\<exists>n. 1 \<le> n \<and> n \<le> 6 - attempt \<and> obs w1 = obs w @ replicate n (token2_url c)"
    using o "1.prems"(3) by (intro exI [of _ 1]) simp
  show ?case
  proof (cases s)
    case (Inl e)
    then show ?thesis using loop one by simp
  next
    case (Inr st)
    show ?thesis
    proof (cases st)
      case (Token2 tok)
      then show ?thesis using loop one Inr by simp
    next
      case (Again d)
      have lt: "attempt < 5" using token2_turn_again s Inr Again by metis
      have rec: "token2_loop env p c link nm t (Suc attempt) d w1 = (r, w')" using loop Inr Again by simp
      obtain n where n: "1 \<le> n" "n \<le> 6 - Suc attempt" "obs w' = obs w1 @ replicate n (token2_url c)"
        using "1.IH" [OF _ _ _ "1.prems"(1) rec] s lt Inr Again by auto
      show ?thesis using n o lt by (intro exI [of _ "Suc n"]) simp
    qed
  qed
qed

lemma resolve_turn_obs: "vk_observer env obs \<Longrightarrow> resolve_turn (va_resolve env) a w = (r, w') \<Longrightarrow> obs w' = obs w"
proof -
  assume o: "vk_observer env obs" and r: "resolve_turn (va_resolve env) a w = (r, w')"
  have m: "obs (snd (va_resolve env u w)) = obs w" for u using o by (simp add: vk_observer_def)
  show ?thesis using r m by (auto simp: resolve_turn_def split: option.splits prod.splits if_splits) (metis snd_conv)+
qed

lemma nonempty_str_Inr: "nonempty_str k m = Inr s \<Longrightarrow> s \<noteq> []"
  by (auto simp: nonempty_str_def rbind_Inr_iff split: if_splits)

lemma wbind_okE:
  assumes "wbind m f w = (Inr y, w'')" obtains x w' where "m w = (Inr x, w')" "f x w' = (Inr y, w'')"
  using assms unfolding wbind_Inr_iff by blast

lemma chain_success:
  assumes "vk_observer env obs" and "getTokenChain env link c p w = (Inr (user, pass, addr), w')"
  shows "user \<noteq> [] \<and> pass \<noteq> [] \<and> (\<exists>n. 1 \<le> n \<and> n \<le> 6 \<and>
    obs w' = obs w @ [token1_url, preview_url c] @ replicate n (token2_url c) @ [okcdn_url, okcdn_url])"
  using assms(2) unfolding getTokenChain_def Let_def
proof (elim wbind_okE, goal_cases)
  case (1 r1 w1 t1 v1 r2 w2 t2 w3 r4 w4 t3 v4 r5 w5 ts v5 url v6 addr' w6 u v7 cr v8)
  note o = doRequest_obs [OF assms(1)]
  from 1(3) obtain q where 2: "doRequest env p (preview_data link t1) (preview_url c) v1 = (q, w2)" by (auto simp: wtry_iff)
  obtain n where n: "1 \<le> n" "n \<le> 6 - 0" "obs w3 = obs w2 @ replicate n (token2_url c)"
    using token2_loop_obs [OF assms(1) 1(4)] by auto
  note sent = o [OF 1(1)] o [OF 2] n(3) o [OF 1(5)] o [OF 1(7)] resolve_turn_obs [OF assms(1) 1(10)]
  show ?case using sent n 1(2,6,8,9,11-13) by (auto simp: wlift_iff wret_iff dest: nonempty_str_Inr [OF sym])
qed

lemma fetch_one: "FetchVkCreds env link w = (Inr x, w') \<longleftrightarrow> getTokenChain env link (hd vkCredentialsList) vk_profile w = (Inr x, w')"
  by (auto simp: FetchVkCreds_def vkCredentialsList_def split: prod.splits sum.splits)

section \<open>Properties\<close>

text \<open>
  C7.  Credentials come from a complete chain: whenever FetchVkCreds succeeds, it has sent the requests for the four tokens
  in order, with the preview after the first and from one to six tries of the second, and nothing after the last; and
  the user name and the credential it returns are not empty.
\<close>

theorem vk_token_chain:
  assumes "vk_observer env obs" and "FetchVkCreds env link w = (Inr (user, pass, addr), w')"
  shows "user \<noteq> [] \<and> pass \<noteq> [] \<and> (\<exists>c n. c \<in> set vkCredentialsList \<and> 1 \<le> n \<and> n \<le> 6 \<and>
    obs w' = obs w @ [token1_url, preview_url c] @ replicate n (token2_url c) @ [okcdn_url, okcdn_url])"
  using chain_success [OF assms(1) assms(2) [unfolded fetch_one]] by (auto simp: vkCredentialsList_def)

text \<open>A world that is the list of the URLs asked for, and a server whose one answer holds all tokens.\<close>

definition chain_reply :: json where
  "chain_reply = JObj [(''data'', JObj [(''access_token'', JString ''1'')]), (''response'', JObj [(''token'', JString ''2'')]),
     (''session_key'', JString ''3''), (''turn_server'', JObj [(''urls'', JArr [JString ''turn:1.2.3.4:3478?transport=udp'']),
     (''username'', JString ''u''), (''credential'', JString ''p'')])]"

definition chain_test :: "(unit, string list) vk_env" where
  "chain_test = \<lparr>va_http = (\<lambda>q w. (Inr [], w @ [rq_url q])),
     va_sv = \<lparr>sv_env = \<lparr>env_http = (\<lambda>_ w. (Inl (), w)), env_json = (\<lambda>_. Some chain_reply), env_num = (\<lambda>_. []), env_image = (\<lambda>_. None)\<rparr>,
       sv_sha = (\<lambda>_. []), sv_md5 = (\<lambda>_. []), sv_nano = 0, sv_rand = [], sv_duration = 90, sv_query = Some\<rparr>,
     va_manual = (\<lambda>_ w. ([], w)), va_resolve = (\<lambda>_ w. (None, w)), va_name = ''Ann'', va_uuid = ''id''\<rparr>"

lemma chain_test_observer: "vk_observer chain_test (\<lambda>w. w)"
  by (simp add: vk_observer_def chain_test_def)

lemma chain_test_request: "doRequest chain_test p body url w =
  (Inr [(''data'', JObj [(''access_token'', JString ''1'')]), (''response'', JObj [(''token'', JString ''2'')]),
     (''session_key'', JString ''3''), (''turn_server'', JObj [(''urls'', JArr [JString ''turn:1.2.3.4:3478?transport=udp'']),
     (''username'', JString ''u''), (''credential'', JString ''p'')])], w @ [url])"
  by (simp add: doRequest_def wbind_def wwrap_def wret_def chain_test_def json_map_def chain_reply_def chain_rq_def)

lemma chain_test_address: "resolve_turn r (turn_address ''turn:1.2.3.4:3478?transport=udp'') w = (Inr ''1.2.3.4:3478'', w)"
proof -
  have "turn_address ''turn:1.2.3.4:3478?transport=udp'' = ''1.2.3.4:3478''" "SplitHostPort ''1.2.3.4:3478'' = Some (''1.2.3.4'', ''3478'')"
    "is_ip ''1.2.3.4''" by code_simp+
  then show ?thesis by (simp add: resolve_turn_def)
qed

lemma chain_test_fetch: "\<exists>w'. FetchVkCreds chain_test link w = (Inr (''u'', ''p'', ''1.2.3.4:3478''), w')"
  unfolding fetch_one
  by (simp add: getTokenChain_def wbind_def wlift_def wret_def wtry_def chain_test_request token1_of_def need_str_def field_def
    token2_loop.simps token2_turn_def token2_of_def ok_error_def turn_server_of_def turn_url_of_def nonempty_str_def chain_test_address)

theorem vk_token_chain_witness:
  "\<exists>w'. FetchVkCreds chain_test ''link'' [] = (Inr (''u'', ''p'', ''1.2.3.4:3478''), w') \<and>
    (\<exists>c n. c \<in> set vkCredentialsList \<and> 1 \<le> n \<and> n \<le> (6::nat) \<and>
      w' = [] @ [token1_url, preview_url c] @ replicate n (token2_url c) @ [okcdn_url, okcdn_url])"
proof -
  obtain w' where w: "FetchVkCreds chain_test ''link'' [] = (Inr (''u'', ''p'', ''1.2.3.4:3478''), w')" using chain_test_fetch by blast
  from vk_token_chain [OF chain_test_observer this] w show ?thesis by blast
qed

text \<open>A reply that asks for a captcha.\<close>

definition asks_captcha :: "('he, 'w) vk_env \<Rightarrow> (string \<times> json) list \<Rightarrow> VkCaptchaError \<Rightarrow> bool" where
  "asks_captcha env resp e \<longleftrightarrow> (\<exists>m. as_obj (field resp ''error'') = Some m \<and>
     ParseVkCaptchaError (sv_query (va_sv env)) m = Some e \<and> IsCaptchaError e)"

lemma captcha_loop:
  assumes "\<And>b w. \<exists>resp e w'. doRequest env p b (token2_url c) w = (Inr resp, w') \<and> asks_captcha env resp e"
    and "\<And>mode e w. fst (solve_in_mode env p mode e w) \<noteq> Crashed"
  shows "fst (token2_loop env p c link nm t attempt body w) = Inl CAPTCHA_WAIT_REQUIRED"
proof (induction "5 - attempt" arbitrary: attempt body w)
  case z: 0
  obtain resp e w1 where d: "doRequest env p body (token2_url c) w = (Inr resp, w1)" "asks_captcha env resp e" using assms(1) by blast
  have "captchaSolveModeForAttempt attempt True True = None" using z mode_bound [of attempt True True] by (cases "captchaSolveModeForAttempt attempt True True") auto
  then show ?case using d by (auto simp: token2_loop.simps [of env p c link nm t attempt] token2_turn_def wbind_def asks_captcha_def wfail_def)
next
  case (Suc k)
  obtain resp e w1 where d: "doRequest env p body (token2_url c) w = (Inr resp, w1)" "asks_captcha env resp e" using assms(1) by blast
  have "attempt < 5" using Suc by simp
  then obtain mode where m: "captchaSolveModeForAttempt attempt True True = Some mode" by (cases "captchaSolveModeForAttempt attempt True True") (auto simp: captchaSolveModeForAttempt_def split: if_splits)
  obtain r w2 where r: "solve_in_mode env p mode e w1 = (r, w2)" by fastforce
  have nc: "r \<noteq> Crashed" using assms(2) [of mode e w1] r by simp
  have IH: "fst (token2_loop env p c link nm t (Suc attempt) body' w2) = Inl CAPTCHA_WAIT_REQUIRED" for body'
    using Suc.hyps(1) [of "Suc attempt"] Suc.hyps(2) by simp
  have s: "token2_turn env p c link nm t attempt body w = (case r of Crashed \<Rightarrow> (Inl Crash, w2)
      | Not_solved \<Rightarrow> (case captchaSolveModeForAttempt (Suc attempt) True True of Some _ \<Rightarrow> (Inr (Again body), w2) | None \<Rightarrow> (Inl CAPTCHA_WAIT_REQUIRED, w2))
      | Solved tok \<Rightarrow> (Inr (Again (captcha_data link nm t e tok)), w2))"
    using d m r by (auto simp: token2_turn_def wbind_def asks_captcha_def)
  show ?case unfolding token2_loop.simps [of env p c link nm t attempt body w] s
    using nc IH by (cases r) (auto split: option.split)
qed

text \<open>
  When VK answers every request for the second token with a captcha, whether or not the captchas
  can be solved, the loop ends with CAPTCHA_WAIT_REQUIRED, the error the streams back off on, after at most six requests.
\<close>

theorem captcha_wait:
  assumes "\<forall>b w. \<exists>resp e w'. doRequest env p b (token2_url c) w = (Inr resp, w') \<and> asks_captcha env resp e"
    and "\<forall>mode e w. fst (solve_in_mode env p mode e w) \<noteq> Crashed" and "vk_observer env obs"
  shows "\<exists>w' n. token2_loop env p c link nm t 0 body w = (Inl CAPTCHA_WAIT_REQUIRED, w') \<and> n \<le> 6 \<and>
    obs w' = obs w @ replicate n (token2_url c)"
proof -
  have "fst (token2_loop env p c link nm t 0 body w) = Inl CAPTCHA_WAIT_REQUIRED" using assms(1,2) by (intro captcha_loop) auto
  then obtain w' where w: "token2_loop env p c link nm t 0 body w = (Inl CAPTCHA_WAIT_REQUIRED, w')" by (metis prod.collapse)
  from token2_loop_obs [OF assms(3) this] w show ?thesis by auto
qed

definition captcha_vk :: "(unit, string list) vk_env" where
  "captcha_vk = chain_test\<lparr>va_sv := (va_sv chain_test)\<lparr>sv_env := (sv_env (va_sv chain_test))\<lparr>env_json := (\<lambda>_. Some (JObj [(''error'', JObj
     [(''error_code'', JNumber 14), (''redirect_uri'', JString ''session_token=s'')])]))\<rparr>\<rparr>\<rparr>"

theorem captcha_wait_witness:
  "\<exists>w' n. token2_loop captcha_vk vk_profile (hd vkCredentialsList) ''l'' ''n'' ''t'' 0 ''b'' [] = (Inl CAPTCHA_WAIT_REQUIRED, w') \<and> n \<le> (6::nat) \<and>
    w' = [] @ replicate n (token2_url (hd vkCredentialsList))"
proof (rule captcha_wait [where obs = "\<lambda>w. w"])
  have q: "query_get ''session_token=s'' ''session_token'' = ''s''" by code_simp
  have d: "doRequest captcha_vk p b url w = (Inr [(''error'', JObj [(''error_code'', JNumber 14), (''redirect_uri'', JString ''session_token=s'')])], w @ [url])" for p b url w
    by (simp add: doRequest_def wbind_def wwrap_def wret_def captcha_vk_def chain_test_def json_map_def chain_rq_def)
  have f: "float_int 14 = 14" by (simp add: float_int_def f64_to_int_def)
  have "\<exists>e. asks_captcha captcha_vk [(''error'', JObj [(''error_code'', JNumber 14), (''redirect_uri'', JString ''session_token=s'')])] e"
    by (simp add: asks_captcha_def field_def ParseVkCaptchaError_def captcha_vk_def chain_test_def q IsCaptchaError_def f)
  then show "\<forall>b w. \<exists>resp e w'. doRequest captcha_vk vk_profile b (token2_url (hd vkCredentialsList)) w = (Inr resp, w') \<and> asks_captcha captcha_vk resp e"
    using d by blast
  show "vk_observer captcha_vk (\<lambda>w. w)" by (simp add: vk_observer_def captcha_vk_def chain_test_def)
  have h: "env_http (sv_env (va_sv captcha_vk)) = (\<lambda>_ w. (Inl (), w))" by (simp add: captcha_vk_def chain_test_def)
  show "\<forall>mode e w. fst (solve_in_mode captcha_vk vk_profile mode e w) \<noteq> Crashed"
    by (auto simp: solve_in_mode_def h captcha_vk_def chain_test_def solveVkCaptcha_def registerAdFpFingerprint_def fetchCaptchaBootstrap_def wbind_def wwrap_def wtry_def
      wfail_def wret_def call_api_def callCaptchaNotRobotWithSliderPOC_def requestInitSession_def request_def callCaptchaNotRobot_def vkReq_def Let_def
      split: captchaSolveMode.split)
qed

section \<open>The link in the forms\<close>

definition url_plain :: "char \<Rightarrow> bool" where
  "url_plain c \<longleftrightarrow> unreserved c \<or> c \<in> {CHR '':'', CHR ''/''}"

lemma query_unescape_app:
  "list_all url_plain p \<Longrightarrow> query_unescape (p @ s) = map_option ((@) p) (query_unescape s)"
proof (induction p)
  case Nil
  show ?case by (cases "query_unescape s") auto
next
  case (Cons c p)
  then have "c \<noteq> CHR 0x25 \<and> c \<noteq> CHR ''+''" using unreserved_plain [of c] by (auto simp: url_plain_def)
  then show ?case using Cons by (cases "query_unescape s") auto
qed

text \<open>A field whose value is plain text followed by escaped text.\<close>

lemma parse_query_url:
  assumes "list_all unreserved k" and "list_all url_plain p"
  shows "parse_query (k @ CHR ''='' # p @ QueryEscape v) = [(k, p @ v)]"
proof -
  have k: "c \<noteq> CHR ''='' \<and> c \<noteq> CHR '';'' \<and> c \<noteq> CHR ''&'' \<and> c \<noteq> CHR 0x25 \<and> c \<noteq> CHR ''+''" if "c \<in> set k" for c
    using that assms(1) unreserved_plain [of c] by (auto simp: list_all_iff)
  have p: "c \<noteq> CHR '';'' \<and> c \<noteq> CHR ''&''" if "c \<in> set p" for c
    using that assms(2) unreserved_plain [of c] by (auto simp: list_all_iff url_plain_def)
  have q: "c \<noteq> CHR '';'' \<and> c \<noteq> CHR ''&''" if "c \<in> set (QueryEscape v)" for c
    using QueryEscape_class [OF that] unreserved_plain [of c] by auto
  have "takeWhile (\<lambda>x. x \<noteq> CHR ''='') (k @ CHR ''='' # p @ QueryEscape v) = k"
    "dropWhile (\<lambda>x. x \<noteq> CHR ''='') (k @ CHR ''='' # p @ QueryEscape v) = CHR ''='' # p @ QueryEscape v"
    using k by (subst takeWhile_append2 dropWhile_append2; auto)+
  then have c: "cut_at CHR ''='' (k @ CHR ''='' # p @ QueryEscape v) = (k, p @ QueryEscape v)" by (simp add: cut_at_def)
  have u: "query_unescape k = Some k" using k by (auto intro!: query_unescape_plain simp: list_all_iff)
  have n: "CHR '';'' \<notin> set (k @ CHR ''='' # p @ QueryEscape v)" "CHR ''&'' \<notin> set (k @ CHR ''='' # p @ QueryEscape v)"
    using k p q by auto
  have "query_pair (k @ CHR ''='' # p @ QueryEscape v) = Some (k, p @ v)"
    using n(1) by (simp add: query_pair_def c u query_unescape_app [OF assms(2)] query_unescape_escape)
  then show ?thesis using n(2) by (simp add: parse_query_def List.map_filter_simps)
qed

lemma form_keys:
  "list_all unreserved ''vk_join_link''" "list_all unreserved ''name''" "list_all unreserved ''access_token''" "list_all unreserved ''fields''"
  "list_all unreserved ''photo_200''" "list_all url_plain ''https://vk.com/call/join/''" "list_all url_plain ''https://vk.ru/call/join/''"
  by code_simp+

lemma token2_form:
  "parse_query (token2_data l (QueryEscape nm) t) =
     parse_query (''vk_join_link=https://vk.com/call/join/'' @ l) @ parse_query (''name='' @ QueryEscape nm) @ parse_query (''access_token='' @ t)"
  using parse_query_amp [of "''vk_join_link=https://vk.com/call/join/'' @ l" "''name='' @ QueryEscape nm @ ''&access_token='' @ t"]
    parse_query_amp [of "''name='' @ QueryEscape nm" "''access_token='' @ t"]
  by (simp add: token2_data_def)

lemma link_field: "parse_query (''vk_join_link=https://vk.com/call/join/'' @ QueryEscape l) = [(''vk_join_link'', ''https://vk.com/call/join/'' @ l)]"
  using parse_query_url [OF form_keys(1,6), of l] by simp

lemma name_field: "parse_query (''name='' @ QueryEscape nm) = [(''name'', nm)]"
  using parse_query_field [OF form_keys(2), of nm] by simp

text \<open>
  The call that is joined: the preview names the link that was given, whatever its bytes, and so does the request for the second
  token when the link is of unreserved characters.  That request alone does not escape the link: a link that goes on
  with its own name field decides the name the server reads.
\<close>

theorem join_link:
  assumes "QueryEscape l = l"
  shows "(\<forall>l'. query_get (preview_data l' t) ''vk_join_link'' = ''https://vk.ru/call/join/'' @ l') \<and>
    query_get (token2_data l (QueryEscape nm) t) ''vk_join_link'' = ''https://vk.com/call/join/'' @ l \<and>
    query_get (token2_data l (QueryEscape nm) t) ''name'' = nm \<and>
    query_get (token2_data (l @ ''&name='' @ QueryEscape nm') (QueryEscape nm) t) ''name'' = nm'"
proof -
  have "query_get (preview_data l' t) ''vk_join_link'' = ''https://vk.ru/call/join/'' @ l'" for l'
    using parse_query_url [OF form_keys(1,7), of l']
      parse_query_amp [of "''vk_join_link=https://vk.ru/call/join/'' @ QueryEscape l'" "''fields=photo_200&access_token='' @ t"]
    by (simp add: preview_data_def query_get_def)
  moreover have k: "parse_query (''vk_join_link=https://vk.com/call/join/'' @ l) = [(''vk_join_link'', ''https://vk.com/call/join/'' @ l)]"
    using link_field [of l] assms by simp
  then have "query_get (token2_data l (QueryEscape nm) t) ''vk_join_link'' = ''https://vk.com/call/join/'' @ l \<and>
      query_get (token2_data l (QueryEscape nm) t) ''name'' = nm"
    by (simp only: query_get_def token2_form name_field) simp
  moreover have "parse_query (''vk_join_link=https://vk.com/call/join/'' @ l @ ''&name='' @ QueryEscape nm') = [(''vk_join_link'', ''https://vk.com/call/join/'' @ l), (''name'', nm')]"
    using parse_query_amp [of "''vk_join_link=https://vk.com/call/join/'' @ l" "''name='' @ QueryEscape nm'"] k name_field [of nm'] by simp
  then have "query_get (token2_data (l @ ''&name='' @ QueryEscape nm') (QueryEscape nm) t) ''name'' = nm'"
    by (simp only: query_get_def token2_form) simp
  ultimately show ?thesis by blast
qed

theorem join_link_witness:
  "query_get (token2_data ''abc'' (QueryEscape ''Ann'') ''t'') ''vk_join_link'' = ''https://vk.com/call/join/abc'' \<and>
   query_get (token2_data (''abc'' @ ''&name='' @ QueryEscape ''Eve'') (QueryEscape ''Ann'') ''t'') ''name'' = ''Eve''"
proof -
  have l: "QueryEscape ''abc'' = ''abc''" by code_simp
  show ?thesis using join_link [OF l, of "''t''" "''Ann''" "''Eve''"] by simp
qed

end
