(* ===== verification/Vk_Dial.thy ===== *)
theory Vk_Dial
  imports Vk_Hosts Go_Net
begin

text \<open>
  The dialler of the HTTP clients (getCustomDialContext of internal/core/vk_auth.go): it resolves a host through the host manager of
  Vk_Hosts and records the outcome there.  The connection itself is a parameter, like the probes of Vk_Hosts.
\<close>

section \<open>One connection\<close>

datatype dial_out = Dial_done bool | Dns_failed vk_error

definition dial_target :: "string \<Rightarrow> string \<times> string" where
  "dial_target addr = (case SplitHostPort addr of None \<Rightarrow> (addr, ''443'') | Some hp \<Rightarrow> hp)"

definition getCustomDialContext :: "'w dns_net \<Rightarrow> 'w prober \<Rightarrow> string \<Rightarrow> 'w \<times> vk_hosts \<Rightarrow> dial_out \<times> 'w \<times> vk_hosts" where
  "getCustomDialContext net dial addr ws =
     (case dial_target addr of (host, port) \<Rightarrow>
        if is_ip host then (case ws of (w, vh) \<Rightarrow> case dial addr w of (ok, _, w') \<Rightarrow> (Dial_done ok, w', vh))
        else (case vk_Resolve net host ws of
            (Inl e, w1, vh1) \<Rightarrow> (Dns_failed e, w1, vh1)
          | (Inr resolvedIP, w1, vh1) \<Rightarrow>
              (case dial (JoinHostPort resolvedIP port) w1 of (ok, rtt, w2) \<Rightarrow>
                 if \<not> ok then (Dial_done False, w2, RecordFailure host resolvedIP vh1)
                 else (Dial_done True, w2, RecordSuccess (net_now net w2) host resolvedIP rtt vh1))))"

text \<open>\<open>n\<close> connections, one after the other.\<close>

fun dial_times :: "'w dns_net \<Rightarrow> 'w prober \<Rightarrow> string \<Rightarrow> nat \<Rightarrow> 'w \<times> vk_hosts \<Rightarrow> 'w \<times> vk_hosts" where
  "dial_times net dial addr 0 ws = ws"
| "dial_times net dial addr (Suc n) ws = dial_times net dial addr n (snd (getCustomDialContext net dial addr ws))"

section \<open>Failover\<close>

text \<open>The first \<open>k\<close> addresses of a domain have only failed, the others have not been tried.\<close>

definition tried :: "nat \<Rightarrow> string \<Rightarrow> string list \<Rightarrow> vk_hosts \<Rightarrow> bool" where
  "tried k domain ips vh \<longleftrightarrow> \<not> dnsOK vh \<and> allIPs vh domain = ips \<and>
     (\<forall>i < length ips. case vk_metrics vh (metricKey domain (ips ! i)) of
        None \<Rightarrow> k \<le> i | Some m \<Rightarrow> i < k \<and> hm_TotalOK m = 0 \<and> hm_SuccessRate m = 0)"

lemma metricKey_inject: "metricKey d ip = metricKey d ip' \<longleftrightarrow> ip = ip'"
  by (simp add: metricKey_def)

lemma tried_score:
  assumes "tried k domain ips vh" and "i < length ips"
  shows "ip_score now vh domain (ips ! i) = (if i < k then 0 else unknown_score)"
proof -
  have "0 < f64 (1 / 10)" by (intro f64_pos) simp
  then show ?thesis using assms by (auto simp: tried_def ip_score_def Score_def split: option.splits)
qed

lemma tried_selects:
  assumes "tried k domain ips vh" and "ips \<noteq> []" and "[] \<notin> set ips" and "distinct ips" and "k \<le> length ips"
  shows "selectBestIP now vh domain = Inr (ips ! (if k < length ips then k else 0))"
proof -
  let ?f = "ip_score now vh domain"
  obtain b sc where f: "fold (select_step ?f) ips ([], - 1) = (b, sc)" by fastforce
  have all: "allIPs vh domain = ips" using assms(1) by (simp add: tried_def)
  have nn: "0 \<le> ?f x" if "x \<in> set ips" for x
    using that tried_score [OF assms(1)] unknown_score_pos by (auto simp: in_set_conv_nth)
  have "\<not> (\<forall>x \<in> set ips. ?f x \<le> - 1)" using nn [of "hd ips"] assms(2) by (metis hd_in_set linorder_not_le neg_less_0_iff_less order_less_le_trans zero_less_one)
  then obtain pre post where p: "ips = pre @ b # post" "\<forall>x \<in> set pre. ?f x < ?f b" "\<forall>x \<in> set post. ?f x \<le> ?f b"
    using select_fold [OF f] by blast
  let ?i = "length pre"
  have i: "?i < length ips" "ips ! ?i = b" using p(1) by simp_all
  have "?i = (if k < length ips then k else 0)"
  proof (cases "k < length ips")
    case True
    have "?f (ips ! k) = unknown_score" using tried_score [OF assms(1) True] by simp
    moreover have "?f (ips ! k) \<le> ?f b" using p(1) True i(1) nth_mem [OF True] p(2,3) by (metis Un_iff less_eq_rat_def list.set_intros(1) set_ConsD set_append)
    ultimately have "\<not> ?i < k" using tried_score [OF assms(1) i(1), of now] i(2) unknown_score_pos by auto
    moreover have "\<not> k < ?i"
    proof
      assume "k < ?i"
      then have "ips ! k \<in> set pre" using p(1) by (metis nth_append nth_mem)
      then show False using p(2) \<open>?f (ips ! k) = unknown_score\<close> tried_score [OF assms(1) i(1), of now] i(2) \<open>k < ?i\<close> by force
    qed
    ultimately show ?thesis using True by simp
  next
    case False
    have "pre = []"
    proof (rule ccontr)
      assume "pre \<noteq> []"
      then have "?f (hd pre) < ?f b" using p(2) by simp
      moreover have "?f b = 0" using tried_score [OF assms(1) i(1), of now] i False by simp
      moreover have "0 \<le> ?f (hd pre)" using nn p(1) \<open>pre \<noteq> []\<close> by (metis Un_iff hd_in_set set_append)
      ultimately show False by simp
    qed
    then show ?thesis using False by simp
  qed
  moreover have "b \<noteq> []" using assms(3) p(1) by auto
  ultimately show ?thesis unfolding selectBestIP_def Let_def all using f assms(2) i(2) by simp
qed

lemma tried_failure:
  assumes "tried k domain ips vh" and "distinct ips" and "k \<le> length ips" and "ips \<noteq> []"
  shows "tried (min (Suc k) (length ips)) domain ips (RecordFailure domain (ips ! (if k < length ips then k else 0)) vh)"
proof -
  let ?j = "if k < length ips then k else 0"
  have j: "?j < length ips" using assms(4) by simp
  have r: "success_rate 0 t = 0" for t by (simp add: success_rate_def)
  have "(case vk_metrics (RecordFailure domain (ips ! ?j) vh) (metricKey domain (ips ! i)) of
      None \<Rightarrow> min (Suc k) (length ips) \<le> i | Some m \<Rightarrow> i < min (Suc k) (length ips) \<and> hm_TotalOK m = 0 \<and> hm_SuccessRate m = 0)" if i: "i < length ips" for i
  proof (cases "i = ?j")
    case True
    have "case vk_metrics vh (metricKey domain (ips ! i)) of None \<Rightarrow> k \<le> i | Some m \<Rightarrow> i < k \<and> hm_TotalOK m = 0 \<and> hm_SuccessRate m = 0"
      using assms(1) i by (simp add: tried_def)
    then show ?thesis using True i assms(3)
      by (auto simp: RecordFailure_def update_metric_def metric_failure_def new_metric_def r Let_def split: option.splits if_splits)
  next
    case False
    then have "ips ! i \<noteq> ips ! ?j" using assms(2) i j by (simp add: nth_eq_iff_index_eq)
    moreover have "case vk_metrics vh (metricKey domain (ips ! i)) of None \<Rightarrow> k \<le> i | Some m \<Rightarrow> i < k \<and> hm_TotalOK m = 0 \<and> hm_SuccessRate m = 0"
      using assms(1) i by (simp add: tried_def)
    ultimately show ?thesis using False i
      by (auto simp: RecordFailure_def update_metric_def metricKey_inject Let_def split: option.splits if_splits)
  qed
  then show ?thesis using assms(1) by (simp add: tried_def RecordFailure_def update_metric_def allIPs_def dynamic_of_def Let_def)
qed


lemma dial_step:
  assumes "SplitHostPort addr = Some (host, port)" and "\<not> is_ip host" and "tried k host ips vh" and "ips \<noteq> []" and "[] \<notin> set ips" and "distinct ips" and "k \<le> length ips"
    and "dial (JoinHostPort (ips ! (if k < length ips then k else 0)) port) w = (ok, rtt, w')"
  shows "fst (getCustomDialContext net dial addr (w, vh)) = Dial_done ok \<and>
    (\<not> ok \<longrightarrow> (\<exists>vh'. snd (getCustomDialContext net dial addr (w, vh)) = (w', vh') \<and> tried (min (Suc k) (length ips)) host ips vh'))"
proof -
  have "\<not> dnsOK vh" using assms(3) by (simp add: tried_def)
  then have "vk_Resolve net host (w, vh) = (Inr (ips ! (if k < length ips then k else 0)), w, vh)"
    using tried_selects [OF assms(3-7)] by (simp add: vk_Resolve_def)
  then show ?thesis using assms(1,2,8) tried_failure [OF assms(3,6,7,4)] by (simp add: getCustomDialContext_def dial_target_def)
qed

lemma dial_failures:
  assumes "SplitHostPort addr = Some (host, port)" and "\<not> is_ip host" and "tried k host ips vh" and "ips \<noteq> []" and "[] \<notin> set ips" and "distinct ips" and "k \<le> length ips"
    and "\<And>a w. \<exists>rtt w'. dial a w = (works a, rtt, w') \<and> tr w' = tr w @ [a]"
    and "\<And>i. i < length ips \<Longrightarrow> i < k + n \<Longrightarrow> \<not> works (JoinHostPort (ips ! i) port)"
  shows "\<exists>w' vh'. dial_times net dial addr n (w, vh) = (w', vh') \<and> tried (min (k + n) (length ips)) host ips vh' \<and>
    tr w' = tr w @ map (\<lambda>ip. JoinHostPort ip port) (take n (drop k ips) @ replicate (n - (length ips - k)) (hd ips))"
  using assms(3,7,9)
proof (induction n arbitrary: k w vh)
  case 0
  then show ?case by simp
next
  case (Suc n)
  let ?j = "if k < length ips then k else 0"
  have "\<not> works (JoinHostPort (ips ! ?j) port)" using Suc.prems(3) [of ?j] assms(4) by (cases "k < length ips") auto
  then obtain rtt w1 where d: "dial (JoinHostPort (ips ! ?j) port) w = (False, rtt, w1)" "tr w1 = tr w @ [JoinHostPort (ips ! ?j) port]"
    using assms(8) [of "JoinHostPort (ips ! ?j) port" w] by auto
  obtain vh1 where s: "snd (getCustomDialContext net dial addr (w, vh)) = (w1, vh1)" "tried (min (Suc k) (length ips)) host ips vh1"
    using dial_step [where k = k and ips = ips and port = port and dial = dial, OF assms(1,2) Suc.prems(1) assms(4-6) Suc.prems(2) d(1)] by blast
  have "\<exists>w' vh'. dial_times net dial addr n (w1, vh1) = (w', vh') \<and> tried (min (min (Suc k) (length ips) + n) (length ips)) host ips vh' \<and>
      tr w' = tr w1 @ map (\<lambda>ip. JoinHostPort ip port) (take n (drop (min (Suc k) (length ips)) ips) @ replicate (n - (length ips - min (Suc k) (length ips))) (hd ips))"
    using Suc.prems(3) by (intro Suc.IH s(2)) auto
  then obtain w' vh' where f: "dial_times net dial addr n (w1, vh1) = (w', vh')" "tried (min (k + Suc n) (length ips)) host ips vh'"
    "tr w' = tr w1 @ map (\<lambda>ip. JoinHostPort ip port) (take n (drop (min (Suc k) (length ips)) ips) @ replicate (n - (length ips - min (Suc k) (length ips))) (hd ips))"
    by (auto simp: min_def split: if_splits)
  have "take (Suc n) (drop k ips) @ replicate (Suc n - (length ips - k)) (hd ips) =
      ips ! ?j # take n (drop (min (Suc k) (length ips)) ips) @ replicate (n - (length ips - min (Suc k) (length ips))) (hd ips)"
  proof (cases "k < length ips")
    case True
    then have "drop k ips = ips ! k # drop (Suc k) ips" by (simp add: Cons_nth_drop_Suc)
    then show ?thesis using True by (simp add: min_def)
  next
    case False
    then show ?thesis using Suc.prems(2) assms(4) by (simp add: hd_conv_nth)
  qed
  then show ?case using f s(1) d(2) by simp
qed

lemma tried_start:
  assumes "\<not> dnsOK vh" and "allIPs vh host = ips" and "\<And>ip. ip \<in> set ips \<Longrightarrow> vk_metrics vh (metricKey host ip) = None"
  shows "tried 0 host ips vh"
  using assms by (simp add: tried_def)

text \<open>
  C25.  Failover between the addresses of a host: with DNS down and addresses that have not been tried yet, successive connections try
  them in turn, each once, so that if any of them works, one of the first connections, at most as many as there are addresses,
  succeeds; but when all have failed, every further connection tries only the first address again.
\<close>

theorem dial_failover:
  assumes "SplitHostPort addr = Some (host, port)" and "\<not> is_ip host" and "\<not> dnsOK vh" and "allIPs vh host = ips" and "ips \<noteq> []" and "[] \<notin> set ips"
    and "\<forall>ip \<in> set ips. vk_metrics vh (metricKey host ip) = None"
    and "\<forall>a w. \<exists>rtt w'. dial a w = (works a, rtt, w') \<and> tr w' = tr w @ [a]"
  shows "((\<exists>ip \<in> set ips. works (JoinHostPort ip port)) \<longrightarrow>
      (\<exists>n < length ips. fst (getCustomDialContext net dial addr (dial_times net dial addr n (w, vh))) = Dial_done True)) \<and>
    ((\<forall>ip \<in> set ips. \<not> works (JoinHostPort ip port)) \<longrightarrow>
      (\<forall>n. tr (fst (dial_times net dial addr n (w, vh))) =
        tr w @ map (\<lambda>ip. JoinHostPort ip port) (take n ips @ replicate (n - length ips) (hd ips))))"
proof -
  have t: "tried 0 host ips vh" using tried_start [OF assms(3,4)] assms(7) by blast
  have d: "distinct ips" using assms(4) distinct_allIPs by metis
  have w: "\<exists>rtt w'. dial a w = (works a, rtt, w') \<and> tr w' = tr w @ [a]" for a w using assms(8) by blast
  note f = dial_failures [where works = works and tr = tr, OF assms(1,2) t assms(5,6) d _ w]
  have "\<exists>n < length ips. fst (getCustomDialContext net dial addr (dial_times net dial addr n (w, vh))) = Dial_done True"
    if "\<exists>ip \<in> set ips. works (JoinHostPort ip port)"
  proof -
    define n where "n = (LEAST i. i < length ips \<and> works (JoinHostPort (ips ! i) port))"
    have "\<exists>i. i < length ips \<and> works (JoinHostPort (ips ! i) port)" using that by (auto simp: in_set_conv_nth)
    then have n: "n < length ips" "works (JoinHostPort (ips ! n) port)" unfolding n_def by (metis (mono_tags, lifting) LeastI_ex)+
    have "\<not> works (JoinHostPort (ips ! i) port)" if "i < n" for i using not_less_Least [OF that [unfolded n_def]] n(1) that by simp
    then obtain w1 vh1 where s: "dial_times net dial addr n (w, vh) = (w1, vh1)" "tried n host ips vh1"
      using f [of n net w] n(1) by (auto simp: min_def)
    obtain rtt w2 where "dial (JoinHostPort (ips ! (if n < length ips then n else 0)) port) w1 = (True, rtt, w2)"
      using w [of "JoinHostPort (ips ! n) port" w1] n by auto
    then have "fst (getCustomDialContext net dial addr (w1, vh1)) = Dial_done True"
      using dial_step [OF assms(1,2) s(2) assms(5,6) d, of dial w1 True rtt w2 net] n(1) by simp
    then show ?thesis using s(1) n(1) by auto
  qed
  moreover have "tr (fst (dial_times net dial addr n (w, vh))) = tr w @ map (\<lambda>ip. JoinHostPort ip port) (take n ips @ replicate (n - length ips) (hd ips))"
    if "\<forall>ip \<in> set ips. \<not> works (JoinHostPort ip port)" for n
    using f [of n net w] that by auto
  ultimately show ?thesis by blast
qed

definition dial_test :: "(string list) prober" where
  "dial_test a w = (a = ''3.3.3.3:443'', 1, w @ [a])"

definition dial_vh :: vk_hosts where
  "dial_vh = init_vk\<lparr>dnsOK := False, vk_dynamic := [''x.ru'' \<mapsto> [''1.1.1.1'', ''2.2.2.2'', ''3.3.3.3'']]\<rparr>"

theorem dial_failover_witness:
  "\<forall>net. \<exists>n < 3. fst (getCustomDialContext net dial_test ''x.ru:443'' (dial_times net dial_test ''x.ru:443'' n ([], dial_vh))) = Dial_done True"
proof
  fix net :: "(string list) dns_net"
  let ?ips = "[''1.1.1.1'', ''2.2.2.2'', ''3.3.3.3'']"
  have s: "SplitHostPort ''x.ru:443'' = Some (''x.ru'', ''443'')" "\<not> is_ip ''x.ru''" by code_simp+
  have a: "allIPs dial_vh ''x.ru'' = ?ips" by (simp add: dial_vh_def init_vk_def allIPs_def dynamic_of_def vkHostsBaseline_def add_new_def)
  have v: "\<not> dnsOK dial_vh" "\<forall>ip \<in> set ?ips. vk_metrics dial_vh (metricKey ''x.ru'' ip) = None" by (simp_all add: dial_vh_def init_vk_def)
  have d: "\<forall>a w. \<exists>rtt w'. dial_test a w = ((\<lambda>a. a = ''3.3.3.3:443'') a, rtt, w') \<and> id w' = id w @ [a]" by (simp add: dial_test_def)
  have "JoinHostPort ''3.3.3.3'' ''443'' = ''3.3.3.3:443''" by code_simp
  then have "\<exists>ip \<in> set ?ips. JoinHostPort ip ''443'' = ''3.3.3.3:443''" by (intro bexI [of _ "''3.3.3.3''"]) simp_all
  then show "\<exists>n < 3. fst (getCustomDialContext net dial_test ''x.ru:443'' (dial_times net dial_test ''x.ru:443'' n ([], dial_vh))) = Dial_done True"
    using conjunct1 [OF dial_failover [where tr = id and works = "\<lambda>a. a = ''3.3.3.3:443''" and net = net and w = "[]", OF s v(1) a _ _ v(2) d]] by (simp add: numeral_3_eq_3)
qed

end
