(* ===== verification/Wb.thy ===== *)
theory Wb
  imports Vk_Auth
begin

text \<open>
  Fetching TURN credentials from WB (wb.go): the protobuf reader, the search for ICE servers in a
  LiveKit message, the four HTTP requests and the WebSocket.

  Parameters: the HTTP client, encoding/json's parser, hostCache.Resolve, the WebSocket and the
  clock; they share one world.  An int is 64 bits wide.  A slice of a message is its offset and its
  bytes, because the code compares the addresses of two slices.
\<close>

section \<open>The protobuf reader\<close>

text \<open>\<open>wbPbVar\<close>: at most ten bytes; what does not end is 0.\<close>

function var_loop :: "bytes \<Rightarrow> nat \<Rightarrow> nat \<Rightarrow> 64 word \<Rightarrow> 64 word \<times> nat" where
  "var_loop d i s v =
     (if i < length d \<and> s < 64 then
        (let b = d ! i; v' = v OR push_bit s (ucast (b AND 0x7f)) in
         if b < 0x80 then (v', Suc i) else var_loop d (Suc i) (s + 7) v')
      else (0, i))"
  by pat_completeness auto
termination by (relation "measure (\<lambda>(d, i, s, v). length d - i)") auto

declare var_loop.simps [simp del]

definition wbPbVar :: "bytes \<Rightarrow> nat \<Rightarrow> 64 word \<times> nat" where
  "wbPbVar d i = var_loop d i 0 0"

text \<open>
  One field, as the loops of wbPbAll and wbPbICE read it: the end of the message, a field that is
  skipped, or a block with its number, start and end.
\<close>

datatype pb_item = Pb_end | Pb_skip nat | Pb_block "64 word" nat nat

definition pb_step :: "bytes \<Rightarrow> nat \<Rightarrow> pb_item" where
  "pb_step d i =
     (case wbPbVar d i of (t, n) \<Rightarrow>
        if n = i then Pb_end
        else if t AND 7 = 0 then Pb_skip (snd (wbPbVar d n))
        else if t AND 7 = 2 then
          (case wbPbVar d n of (l, j) \<Rightarrow>
             let e = word_of_nat j + l :: 64 word in
             if sint e > int (length d) \<or> sint e < int j then Pb_end
             else Pb_block (drop_bit 3 t) j (nat (sint e)))
        else if t AND 7 = 1 then Pb_skip (n + 8)
        else if t AND 7 = 5 then Pb_skip (n + 4)
        else Pb_end)"

definition slice_of :: "nat \<Rightarrow> nat \<Rightarrow> bytes \<Rightarrow> bytes" where
  "slice_of a e d = take (e - a) (drop a d)"

lemma var_loop_ge: "i \<le> snd (var_loop d i s v)"
proof (induction d i s v rule: var_loop.induct)
  case (1 d i s v)
  then show ?case by (auto simp: var_loop.simps [of d i s v] Let_def intro: Suc_leD)
qed

lemma var_loop_le: "i \<le> length d \<Longrightarrow> snd (var_loop d i s v) \<le> length d"
proof (induction d i s v rule: var_loop.induct)
  case (1 d i s v)
  then show ?case by (auto simp: var_loop.simps [of d i s v] Let_def)
qed

lemma wbPbVar_ge: "i \<le> snd (wbPbVar d i)"
  by (simp add: wbPbVar_def var_loop_ge)

lemma wbPbVar_le: "i \<le> length d \<Longrightarrow> snd (wbPbVar d i) \<le> length d"
  by (simp add: wbPbVar_def var_loop_le)

text \<open>Every step goes forward, and a block lies inside the message.\<close>

lemma pb_step_forward:
  "pb_step d i = Pb_skip j \<Longrightarrow> i < j"
  "pb_step d i = Pb_block k a e \<Longrightarrow> i < a \<and> a \<le> e \<and> e \<le> length d"
proof -
  obtain t n where t: "wbPbVar d i = (t, n)" by fastforce
  obtain l j' where l: "wbPbVar d n = (l, j')" by fastforce
  have le: "i \<le> n" "n \<le> j'" using wbPbVar_ge [of i d] wbPbVar_ge [of n d] t l by auto
  show "pb_step d i = Pb_skip j \<Longrightarrow> i < j" "pb_step d i = Pb_block k a e \<Longrightarrow> i < a \<and> a \<le> e \<and> e \<le> length d"
    using le by (auto simp: pb_step_def t l Let_def split: if_splits)
qed

function wbPbAll_from :: "bytes \<Rightarrow> 64 word \<Rightarrow> nat \<Rightarrow> (nat \<times> bytes) list" where
  "wbPbAll_from d f i =
     (if i < length d then
        (case pb_step d i of
           Pb_end \<Rightarrow> []
         | Pb_skip j \<Rightarrow> wbPbAll_from d f j
         | Pb_block k a e \<Rightarrow> (if k = f then [(a, slice_of a e d)] else []) @ wbPbAll_from d f e)
      else [])"
  by pat_completeness auto
termination by (relation "measure (\<lambda>(d, f, i). length d - i)") (auto dest: pb_step_forward)

declare wbPbAll_from.simps [simp del]

definition wbPbAll :: "bytes \<Rightarrow> 64 word \<Rightarrow> (nat \<times> bytes) list" where
  "wbPbAll d f = wbPbAll_from d f 0"

definition go_string :: "bytes \<Rightarrow> string" where
  "go_string xs = map (\<lambda>b. char_of (unat b)) xs"

definition wbPbStr :: "bytes \<Rightarrow> 64 word \<Rightarrow> string" where
  "wbPbStr d f = (case wbPbAll d f of [] \<Rightarrow> [] | (_, b) # _ \<Rightarrow> go_string b)"

section \<open>ICE servers\<close>

record WbTurnCred =
  URL :: string
  Username :: string
  Password :: string

definition is_ice_url :: "string \<Rightarrow> bool" where
  "is_ice_url s \<longleftrightarrow> prefix ''turn'' s \<or> prefix ''stun'' s"

definition ice_hit :: "bytes \<Rightarrow> bool" where
  "ice_hit blk = list_ex (\<lambda>(_, u). is_ice_url (go_string u)) (wbPbAll blk 1)"

definition block_creds :: "bytes \<Rightarrow> WbTurnCred list" where
  "block_creds blk = map (\<lambda>(_, u). \<lparr>URL = go_string u, Username = wbPbStr blk 2, Password = wbPbStr blk 3\<rparr>) (wbPbAll blk 1)"

text \<open>The first block that has such a URL, then the other blocks of its field: those at another address.\<close>

definition hit_creds :: "bytes \<Rightarrow> 64 word \<Rightarrow> nat \<Rightarrow> bytes \<Rightarrow> WbTurnCred list" where
  "hit_creds inner f a blk = block_creds blk @
     concat (map (\<lambda>(a2, blk2). if blk2 \<noteq> [] \<and> blk \<noteq> [] \<and> a2 = a then [] else block_creds blk2) (wbPbAll inner f))"

fun first_hit :: "bytes \<Rightarrow> 64 word \<Rightarrow> (nat \<times> bytes) list \<Rightarrow> WbTurnCred list option" where
  "first_hit inner f [] = None"
| "first_hit inner f ((a, blk) # blks) = (if ice_hit blk then Some (hit_creds inner f a blk) else first_hit inner f blks)"

fun inner_creds :: "bytes \<Rightarrow> 64 word list \<Rightarrow> WbTurnCred list option" where
  "inner_creds inner [] = None"
| "inner_creds inner (f # fs) =
     (case first_hit inner f (wbPbAll inner f) of Some r \<Rightarrow> Some r | None \<Rightarrow> inner_creds inner fs)"

function wbPbICE_from :: "bytes \<Rightarrow> nat \<Rightarrow> WbTurnCred list" where
  "wbPbICE_from d i =
     (if i < length d then
        (case pb_step d i of
           Pb_end \<Rightarrow> []
         | Pb_skip j \<Rightarrow> wbPbICE_from d j
         | Pb_block k a e \<Rightarrow> (case inner_creds (slice_of a e d) [5, 9] of Some r \<Rightarrow> r | None \<Rightarrow> wbPbICE_from d e))
      else [])"
  by pat_completeness auto
termination by (relation "measure (\<lambda>(d, i). length d - i)") (auto dest: pb_step_forward)

declare wbPbICE_from.simps [simp del]

definition wbPbICE :: "bytes \<Rightarrow> WbTurnCred list" where
  "wbPbICE d = wbPbICE_from d 0"

text \<open>\<open>seen\<close> holds the keys that were used, with the value true.\<close>

definition dedup_key :: "WbTurnCred \<Rightarrow> string" where
  "dedup_key c = URL c @ ''|'' @ Username c"

fun dedup_loop :: "string set \<Rightarrow> WbTurnCred list \<Rightarrow> WbTurnCred list" where
  "dedup_loop seen [] = []"
| "dedup_loop seen (c # cc) =
     (if dedup_key c \<in> seen then dedup_loop seen cc else c # dedup_loop (insert (dedup_key c) seen) cc)"

definition wbDedup :: "WbTurnCred list \<Rightarrow> WbTurnCred list" where
  "wbDedup cc = dedup_loop {} cc"

section \<open>HTTP requests\<close>

record ('e, 'w) wb_env =
  wb_http :: "http_request \<Rightarrow> ('e, 'w, nat \<times> string) act"
  wb_json :: "string \<Rightarrow> json option"
  wb_resolve :: "string \<Rightarrow> 'w \<Rightarrow> string option \<times> 'w"
  wb_dial :: "string \<Rightarrow> headers \<Rightarrow> ('e, 'w, unit) act"
  wb_recv :: "'w \<Rightarrow> bytes option \<times> 'w"
  wb_millis :: nat

datatype 'e wb_error =
    Wb_bad_url
  | Wb_request_failed 'e
  | Wb_status nat string
  | Wb_bad_json string
  | Wb_empty string
  | Wb_step string "'e wb_error"
  | Wb_dial_failed 'e
  | Wb_no_turn
  | Wb_no_credentials

definition wbBase :: string where "wbBase = ''https://stream.wb.ru''"
definition wbHost :: string where "wbHost = ''stream.wb.ru''"

definition wbUA :: string where
  "wbUA = ''Mozilla/5.0 (Windows NT 10.0; Win64; x64) AppleWebKit/537.36 (KHTML, like Gecko) Chrome/126.0.0.0 Safari/537.36''"

text \<open>
  \<open>url.Parse\<close> of the base followed by a path: the decoded path and the raw query, without the
  fragment.  Control characters and bad escapes are errors.
\<close>

fun path_unescape :: "string \<Rightarrow> string option" where
  "path_unescape [] = Some []"
| "path_unescape (c # s) =
     (if c = CHR 0x25 then
        (case s of a # b # s' \<Rightarrow>
           (case (hex_val a, hex_val b) of
              (Some x, Some y) \<Rightarrow> map_option ((#) (char_of (16 * x + y))) (path_unescape s')
            | _ \<Rightarrow> None)
         | _ \<Rightarrow> None)
      else map_option ((#) c) (path_unescape s))"

definition is_ctl :: "char \<Rightarrow> bool" where
  "is_ctl c \<longleftrightarrow> (of_char c :: nat) < 32 \<or> (of_char c :: nat) = 127"

definition url_path_query :: "string \<Rightarrow> (string \<times> string) option" where
  "url_path_query ep =
     (case cut_at CHR ''#'' ep of (u, frag) \<Rightarrow>
        if list_ex is_ctl u then None
        else (case cut_at CHR ''?'' u of (p, q) \<Rightarrow>
          (case (path_unescape p, path_unescape frag) of (Some p', Some _) \<Rightarrow> Some (p', q) | _ \<Rightarrow> None)))"

text \<open>A host that cannot be resolved is used by its name.\<close>

definition resolved :: "(string \<Rightarrow> 'w \<Rightarrow> string option \<times> 'w) \<Rightarrow> string \<Rightarrow> ('f, 'w, string) act" where
  "resolved resolve host = (\<lambda>w. case resolve host w of (r, w') \<Rightarrow> (Inr (case r of None \<Rightarrow> host | Some ip \<Rightarrow> ip), w'))"

definition wb_headers :: "string option \<Rightarrow> string \<Rightarrow> headers" where
  "wb_headers body tok =
     (let hs = (header_set ''Referer'' (wbBase @ ''/'') \<circ> header_set ''Origin'' wbBase \<circ>
         header_set ''Accept-Language'' ''en-US,en;q=0.9'' \<circ> header_set ''Accept'' ''application/json'' \<circ>
         header_set ''User-Agent'' wbUA \<circ> header_set ''Host'' wbHost) [];
       hs = (if body = None then hs else header_set ''Content-Type'' ''application/json'' hs) in
     if tok = [] then hs else header_set ''Authorization'' (''Bearer '' @ tok) hs)"

definition wb_url :: "string \<Rightarrow> string \<Rightarrow> string \<Rightarrow> string" where
  "wb_url ip path query = ''https://'' @ ip @ '':443'' @ path @ (if query = [] then [] else ''?'' @ query)"

definition wb_rq :: "string \<Rightarrow> string \<Rightarrow> string \<Rightarrow> string \<Rightarrow> string option \<Rightarrow> string \<Rightarrow> http_request" where
  "wb_rq verb ip path query body tok = \<lparr>rq_verb = verb, rq_url = wb_url ip path query,
     rq_headers = wb_headers body tok, rq_body = (case body of None \<Rightarrow> [] | Some b \<Rightarrow> b)\<rparr>"

definition wbReq :: "('e, 'w) wb_env \<Rightarrow> string \<Rightarrow> string \<Rightarrow> string option \<Rightarrow> string \<Rightarrow> ('e wb_error, 'w, string) act" where
  "wbReq env verb ep body tok =
     (case url_path_query ep of
        None \<Rightarrow> wfail Wb_bad_url
      | Some (path, query) \<Rightarrow>
          wbind (resolved (wb_resolve env) wbHost) (\<lambda>ip.
          wbind (wwrap Wb_request_failed (wb_http env (wb_rq verb ip path query body tok))) (\<lambda>(status, b).
            if status \<ge> 300 then wfail (Wb_status status b) else wret b)))"

text \<open>
  \<open>json.Unmarshal\<close> into a struct with one string field: keys are compared without regard to (ASCII)
  case, the last one wins, null changes nothing, another type is an error.
\<close>

definition struct_string :: "string \<Rightarrow> json option \<Rightarrow> string option" where
  "struct_string key j =
     (case j of
        Some JNull \<Rightarrow> Some []
      | Some (JObj m) \<Rightarrow> fold (\<lambda>(k, v) r. if to_lower k = to_lower key then
            (case v of JString s \<Rightarrow> map_option (\<lambda>_. s) r | JNull \<Rightarrow> r | _ \<Rightarrow> None) else r) m (Some [])
      | _ \<Rightarrow> None)"

definition token_in :: "('e, 'w) wb_env \<Rightarrow> string \<Rightarrow> string \<Rightarrow> ('e wb_error, string) result" where
  "token_in env key b =
     (case struct_string key (wb_json env b) of
        None \<Rightarrow> Inl (Wb_bad_json key)
      | Some s \<Rightarrow> if s = [] then Inl (Wb_empty key) else Inr s)"

section \<open>LiveKit\<close>

definition ws_host :: string where "ws_host = ''wbstream01-el.wb.ru''"

definition ws_url :: "string \<Rightarrow> string \<Rightarrow> string" where
  "ws_url ip token = ''wss://'' @ ip @ '':7880/rtc?access_token='' @ QueryEscape token @
     ''&auto_subscribe=1&sdk=js&version=2.15.3&protocol=16&adaptive_stream=1''"

definition ws_headers :: headers where
  "ws_headers = [(''User-Agent'', wbUA), (''Origin'', wbBase), (''Host'', ws_host)]"

fun lk_loop :: "('e, 'w) wb_env \<Rightarrow> nat \<Rightarrow> ('e wb_error, 'w, WbTurnCred list) act" where
  "lk_loop env 0 w = (Inl Wb_no_turn, w)"
| "lk_loop env (Suc n) w =
     (case wb_recv env w of
        (None, w') \<Rightarrow> (Inl Wb_no_turn, w')
      | (Some msg, w') \<Rightarrow> (case wbPbICE msg of [] \<Rightarrow> lk_loop env n w' | creds \<Rightarrow> (Inr (wbDedup creds), w')))"

definition wbLkICE :: "('e, 'w) wb_env \<Rightarrow> string \<Rightarrow> ('e wb_error, 'w, WbTurnCred list) act" where
  "wbLkICE env token =
     wbind (resolved (wb_resolve env) ws_host) (\<lambda>ip.
     wbind (wwrap Wb_dial_failed (wb_dial env (ws_url ip token) ws_headers)) (\<lambda>_.
       lk_loop env 15))"

section \<open>The steps\<close>

definition guest_name :: "nat \<Rightarrow> string" where
  "guest_name millis = ''lh_'' @ nat_dec (millis mod 100000)"

definition quote_str :: "string \<Rightarrow> string" where "quote_str s = dq # s @ [dq]"

definition guest_body :: "string \<Rightarrow> string" where
  "guest_body nm = ''{'' @ quote_str ''displayName'' @ '':'' @ quote_str nm @ ''}''"

definition room_body :: string where
  "room_body = ''{'' @ quote_str ''roomType'' @ '':'' @ quote_str ''ROOM_TYPE_ALL_ON_SCREEN'' @ '','' @
     quote_str ''roomPrivacy'' @ '':'' @ quote_str ''ROOM_PRIVACY_FREE'' @ ''}''"

definition guest_ep :: string where "guest_ep = ''/auth/api/v1/auth/user/guest-register''"
definition room_ep :: string where "room_ep = ''/api-room/api/v2/room''"
definition join_ep :: "string \<Rightarrow> string" where "join_ep room = ''/api-room/api/v1/room/'' @ room @ ''/join''"
definition token_ep :: "string \<Rightarrow> string \<Rightarrow> string" where
  "token_ep room nm = ''/api-room-manager/api/v1/room/'' @ room @
     ''/token?deviceType=PARTICIPANT_DEVICE_TYPE_WEB_DESKTOP&displayName='' @ QueryEscape nm"

definition fetchWbCreds :: "('e, 'w) wb_env \<Rightarrow> ('e wb_error, 'w, WbTurnCred list) act" where
  "fetchWbCreds env =
     (let nm = guest_name (wb_millis env) in
      wbind (wwrap (Wb_step ''guest register'') (wbReq env ''POST'' guest_ep (Some (guest_body nm)) [])) (\<lambda>rr.
      wbind (wlift (token_in env ''accessToken'' rr)) (\<lambda>acc.
      wbind (wwrap (Wb_step ''create room'') (wbReq env ''POST'' room_ep (Some room_body) acc)) (\<lambda>rr.
      wbind (wlift (token_in env ''roomId'' rr)) (\<lambda>room.
      wbind (wwrap (Wb_step ''join room'') (wbReq env ''POST'' (join_ep room) (Some ''{}'') acc)) (\<lambda>_.
      wbind (wwrap (Wb_step ''get token'') (wbReq env ''GET'' (token_ep room nm) None acc)) (\<lambda>rr.
      wbind (wlift (token_in env ''roomToken'' rr)) (\<lambda>tok.
        wwrap (Wb_step ''livekit ICE'') (wbLkICE env tok)))))))))"

definition wbFetch :: "('e, 'w) wb_env \<Rightarrow> string \<Rightarrow> ('e wb_error, 'w, string \<times> string \<times> string) act" where
  "wbFetch env link =
     wbind (fetchWbCreds env) (\<lambda>creds. case creds of
         [] \<Rightarrow> wfail Wb_no_credentials
       | c # _ \<Rightarrow> wbind (resolve_turn (wb_resolve env) (turn_address (URL c))) (\<lambda>address.
           wret (Username c, Password c, address)))"

section \<open>Encoding\<close>

text \<open>The protobuf wire format: varints, and fields by wire type.\<close>

fun enc_var :: "nat \<Rightarrow> bytes" where
  "enc_var n = (if n < 128 then [word_of_nat n] else word_of_nat (128 + n mod 128) # enc_var (n div 128))"

declare enc_var.simps [simp del]

datatype pb_val = PbVarint nat | PbFixed64 bytes | PbBytes bytes | PbFixed32 bytes

fun enc_field :: "nat \<times> pb_val \<Rightarrow> bytes" where
  "enc_field (k, PbVarint n) = enc_var (8 * k) @ enc_var n"
| "enc_field (k, PbFixed64 b) = enc_var (8 * k + 1) @ b"
| "enc_field (k, PbBytes b) = enc_var (8 * k + 2) @ enc_var (length b) @ b"
| "enc_field (k, PbFixed32 b) = enc_var (8 * k + 5) @ b"

definition enc_msg :: "(nat \<times> pb_val) list \<Rightarrow> bytes" where
  "enc_msg fs = concat (map enc_field fs)"

fun wf_field :: "nat \<times> pb_val \<Rightarrow> bool" where
  "wf_field (k, PbVarint n) \<longleftrightarrow> k < 2 ^ 61 \<and> n < 2 ^ 64"
| "wf_field (k, PbFixed64 b) \<longleftrightarrow> k < 2 ^ 61 \<and> length b = 8"
| "wf_field (k, PbBytes b) \<longleftrightarrow> k < 2 ^ 61"
| "wf_field (k, PbFixed32 b) \<longleftrightarrow> k < 2 ^ 61 \<and> length b = 4"

lemma or_shift: "a < 2 ^ s \<Longrightarrow> (a :: nat) OR push_bit s m = a + m * 2 ^ s"
proof -
  assume a: "a < 2 ^ s"
  have "bit a n \<Longrightarrow> n < s" for n
    using a bit_take_bit_iff [of s a n] by (simp add: take_bit_nat_eq_self)
  then have "a AND push_bit s m = 0" by (intro bit_eqI) (auto simp: bit_simps dest!: leD)
  then show ?thesis using disjunctive_add_eq_or [of a "push_bit s m"] by (simp add: push_bit_eq_mult)
qed

lemma low_bits: "ucast ((b :: 8 word) AND 0x7f) = (word_of_nat (unat b mod 128) :: 64 word)"
proof -
  have "b AND 0x7f = take_bit 7 b" by (simp add: take_bit_eq_mask mask_eq_exp_minus_1)
  then have "unat (b AND 0x7f) = unat b mod 128" by (simp add: unsigned_take_bit_eq flip: take_bit_eq_mod [of 7, simplified])
  then show ?thesis by (metis of_nat_unat)
qed

lemma enc_var_len [simp]: "enc_var n \<noteq> []"
  by (simp add: enc_var.simps)

lemma var_acc: "a < 2 ^ s \<Longrightarrow> (word_of_nat a :: 64 word) OR push_bit s (word_of_nat m) = word_of_nat (a + m * 2 ^ s)"
  by (simp only: or_shift [symmetric] of_nat_or_eq of_nat_push_bit)

lemma var_loop_enc:
  "n * 2 ^ s < 2 ^ 64 \<Longrightarrow> s < 64 \<Longrightarrow> a < 2 ^ s \<Longrightarrow>
    var_loop (pre @ enc_var n @ post) (length pre) s (word_of_nat a) = (word_of_nat (a + n * 2 ^ s), length pre + length (enc_var n))"
proof (induction n arbitrary: pre s a rule: enc_var.induct)
  case (1 n)
  show ?case
  proof (cases "n < 128")
    case True
    have "unat (word_of_nat n :: 8 word) = n" using True by (simp add: unat_of_nat)
    moreover have "(word_of_nat n :: 8 word) < 128" using True by (simp add: word_less_nat_alt unat_of_nat)
    ultimately show ?thesis using True "1.prems" var_acc [of a s n]
      by (simp add: enc_var.simps [of n] var_loop.simps [of _ "length pre"] nth_append Let_def low_bits [simplified])
  next
    case False
    let ?b = "word_of_nat (128 + n mod 128) :: 8 word"
    have u: "unat ?b = 128 + n mod 128" using unat_of_nat [where 'a = 8, of "128 + n mod 128"] by (simp del: of_nat_add)
    have b: "\<not> ?b < 128" "unat ?b mod 128 = n mod 128" using u by (simp_all add: word_less_nat_alt)
    have "128 * 2 ^ s < (2 :: nat) ^ 64" using False "1.prems"(1) by (meson le_less_trans mult_le_mono1 not_less)
    then have "2 ^ (7 + s) < (2 :: nat) ^ 64" by (simp add: power_add)
    then have s: "s + 7 < 64" by (subst (asm) power_strict_increasing_iff) simp_all
    have m: "n div 128 * 2 ^ (s + 7) \<le> n * 2 ^ s" by (simp add: power_add) 
    have a: "a + n mod 128 * 2 ^ s < 2 ^ (s + 7)" 
    proof -
      have "a + n mod 128 * 2 ^ s < Suc (n mod 128) * 2 ^ s" using "1.prems"(3) by simp
      also have "\<dots> \<le> 128 * 2 ^ s" by (intro mult_le_mono1) (simp add: Suc_le_eq)
      finally show ?thesis by (simp add: power_add)
    qed
    have e: "a + n mod 128 * 2 ^ s + n div 128 * 2 ^ (s + 7) = a + n * 2 ^ s"
      using mod_mult_div_eq [of n 128] by (simp add: power_add add.assoc flip: distrib_right) (simp add: algebra_simps flip: distrib_left)
    have IH: "var_loop ((pre @ [?b]) @ enc_var (n div 128) @ post) (length (pre @ [?b])) (s + 7) (word_of_nat (a + n mod 128 * 2 ^ s)) =
        (word_of_nat (a + n mod 128 * 2 ^ s + n div 128 * 2 ^ (s + 7)), length (pre @ [?b]) + length (enc_var (n div 128)))"
      using m "1.prems"(1) by (intro "1.IH" False s a) simp
    show ?thesis using False "1.prems"(2) IH b var_acc [OF "1.prems"(3), of "n mod 128"]
      by (simp add: enc_var.simps [of n] var_loop.simps [of _ "length pre"] nth_append Let_def low_bits [simplified] e)
  qed
qed

lemma wbPbVar_enc: "n < 2 ^ 64 \<Longrightarrow> wbPbVar (pre @ enc_var n @ post) (length pre) = (word_of_nat n, length pre + length (enc_var n))"
  using var_loop_enc [of n 0 0 pre post] by (simp add: wbPbVar_def)

section \<open>Reading an encoded message\<close>

lemma enc_field_len: "enc_field x \<noteq> []"
  by (cases x rule: enc_field.cases) (simp_all add: enc_var_len)

lemma tag_bits:
  assumes "k < 2 ^ 61" and "j < 8"
  shows "(word_of_nat (8 * k + j) :: 64 word) AND 7 = word_of_nat j" "drop_bit 3 (word_of_nat (8 * k + j) :: 64 word) = word_of_nat k"
proof -
  have u: "unat (word_of_nat (8 * k + j) :: 64 word) = 8 * k + j"
    using assms unat_of_nat [where 'a = 64, of "8 * k + j"] by (simp del: of_nat_add of_nat_mult)
  have "(word_of_nat (8 * k + j) :: 64 word) AND 7 = take_bit 3 (word_of_nat (8 * k + j))" by (simp add: take_bit_eq_mask mask_eq_exp_minus_1)
  also have "\<dots> = word_of_nat (take_bit 3 (8 * k + j))" by (simp only: take_bit_of_nat)
  also have "take_bit 3 (8 * k + j) = j" using assms(2) by (simp add: take_bit_eq_mod)
  finally show "(word_of_nat (8 * k + j) :: 64 word) AND 7 = word_of_nat j" .
  have "unat (drop_bit 3 (word_of_nat (8 * k + j) :: 64 word)) = unat (word_of_nat k :: 64 word)"
    using u assms unat_of_nat [where 'a = 64, of k] by (simp only: unat_drop_bit_eq) (simp add: drop_bit_eq_div)
  then show "drop_bit 3 (word_of_nat (8 * k + j) :: 64 word) = word_of_nat k" by (rule unsigned_word_eqI)
qed

fun field_step :: "nat \<Rightarrow> nat \<times> pb_val \<Rightarrow> pb_item" where
  "field_step i (k, PbBytes b) =
     Pb_block (word_of_nat k) (i + length (enc_field (k, PbBytes b)) - length b) (i + length (enc_field (k, PbBytes b)))"
| "field_step i x = Pb_skip (i + length (enc_field x))"

lemma pb_step_enc:
  assumes "wf_field x" and "length (pre @ enc_field x @ post) < 2 ^ 63"
  shows "pb_step (pre @ enc_field x @ post) (length pre) = field_step (length pre) x"
proof -
  have sel: "P" if "j \<in> {0, 1, 2, 5}" "j = 0 \<Longrightarrow> P" "j = 1 \<Longrightarrow> P" "j = 2 \<Longrightarrow> P" "j = 5 \<Longrightarrow> P" for j :: nat and P using that by auto
  have key: "pb_step (pre @ (enc_var (8 * k + j) @ r) @ post) (length pre) =
      (let d = pre @ (enc_var (8 * k + j) @ r) @ post; n = length pre + length (enc_var (8 * k + j)) in
       if j = 0 then Pb_skip (snd (wbPbVar d n))
       else if j = 2 then (case wbPbVar d n of (l, m) \<Rightarrow> let e = word_of_nat m + l :: 64 word in
             if sint e > int (length d) \<or> sint e < int m then Pb_end else Pb_block (word_of_nat k) m (nat (sint e)))
       else if j = 1 then Pb_skip (n + 8) else if j = 5 then Pb_skip (n + 4) else Pb_end)"
    if "k < 2 ^ 61" "j \<in> {0, 1, 2, 5}" for k j r
  proof -
    have "8 * k + j < 2 ^ 64" "j < 8" using that by auto
    note v = wbPbVar_enc [OF this(1), of pre "r @ post"] and t = tag_bits [OF that(1) this(2)]
    have n: "length pre + length (enc_var (8 * k + j)) \<noteq> length pre" using enc_var_len [of "8 * k + j"] by simp
    have c: "length (enc_var (8 * k + j)) = 0 \<longleftrightarrow> False" using enc_var_len [of "8 * k + j"] by simp
    have p: "pre @ (enc_var (8 * k + j) @ r) @ post = pre @ enc_var (8 * k + j) @ r @ post" by simp
    show ?thesis unfolding pb_step_def p v prod.case Let_def t
      by (rule sel [OF that(2)]) simp_all
  qed
  show ?thesis
  proof (cases x rule: enc_field.cases)
    case (1 k n)
    then show ?thesis using assms key [of k 0 "enc_var n"] wbPbVar_enc [of n "pre @ enc_var (8 * k)" post] by simp
  next
    case (2 k b)
    then show ?thesis using assms key [of k 1 b] by simp
  next
    case (3 k b)
    let ?d = "pre @ enc_field x @ post" let ?m = "length pre + length (enc_var (8 * k + 2)) + length (enc_var (length b))"
    have len: "?m + length b \<le> length ?d" using 3 by simp
    then have lt: "?m + length b < 2 ^ 63" "length b < 2 ^ 64" using assms(2) by simp_all
    have v: "wbPbVar ?d (length pre + length (enc_var (8 * k + 2))) = (word_of_nat (length b), ?m)"
      using wbPbVar_enc [OF lt(2), of "pre @ enc_var (8 * k + 2)" "b @ post"] 3 by simp
    have "sint (word_of_nat (?m + length b) :: 64 word) = int (?m + length b)" using lt(1) by (simp add: signed_of_nat signed_take_bit_int_eq_self del: of_nat_add)
    then have s: "sint (word_of_nat ?m + word_of_nat (length b) :: 64 word) = int (?m + length b)" by (simp only: of_nat_add)
    show ?thesis using assms(1) key [of k 2 "enc_var (length b) @ b"] v s len 3
      by (simp add: Let_def del: of_nat_add) 
  next
    case (4 k b)
    then show ?thesis using assms key [of k 5 b] by simp
  qed
qed

text \<open>The blocks of a field in a message that is encoded.\<close>

fun payloads :: "nat \<Rightarrow> (nat \<times> pb_val) list \<Rightarrow> bytes list" where
  "payloads m [] = []"
| "payloads m ((k, PbBytes b) # fs) = (if k = m then [b] else []) @ payloads m fs"
| "payloads m (_ # fs) = payloads m fs"

lemma enc_msg_simps: "enc_msg [] = []" "enc_msg (x # fs) = enc_field x @ enc_msg fs"
  by (simp_all add: enc_msg_def)

lemma payloads_append: "payloads m (xs @ ys) = payloads m xs @ payloads m ys"
  by (induction m xs rule: payloads.induct) auto

lemma tag_inj: "k < 2 ^ 61 \<Longrightarrow> m < 2 ^ 61 \<Longrightarrow> (word_of_nat k :: 64 word) = word_of_nat m \<longleftrightarrow> k = m"
proof -
  have u: "unat (word_of_nat n :: 64 word) = n" if "n < 2 ^ 61" for n using that by (simp add: unat_of_nat)
  assume "k < 2 ^ 61" "m < 2 ^ 61"
  then show ?thesis using u [of k] u [of m] by metis
qed

lemma field_step_block:
  "slice_of (length pre + length (enc_field (k, PbBytes b)) - length b) (length pre + length (enc_field (k, PbBytes b)))
     (pre @ enc_field (k, PbBytes b) @ post) = b"
  by (simp add: slice_of_def)

lemma wbPbAll_from_enc:
  "list_all wf_field fs \<Longrightarrow> length (pre @ enc_msg fs) < 2 ^ 63 \<Longrightarrow> m < 2 ^ 61 \<Longrightarrow>
    map snd (wbPbAll_from (pre @ enc_msg fs) (word_of_nat m) (length pre)) = payloads m fs"
proof (induction fs arbitrary: pre)
  case Nil
  then show ?case by (simp add: enc_msg_simps wbPbAll_from.simps)
next
  case (Cons x fs)
  have p: "pb_step (pre @ enc_field x @ enc_msg fs) (length pre) = field_step (length pre) x"
    using Cons.prems by (intro pb_step_enc) (simp_all add: enc_msg_simps)
  have IH: "map snd (wbPbAll_from (pre @ enc_field x @ enc_msg fs) (word_of_nat m) (length pre + length (enc_field x))) = payloads m fs"
    using Cons.IH [of "pre @ enc_field x"] Cons.prems by (simp add: enc_msg_simps)
  have len: "0 < length (enc_field x)" using enc_field_len [of x] by simp
  show ?case
  proof (cases x rule: enc_field.cases)
    case (3 k b)
    have k: "(word_of_nat k :: 64 word) = word_of_nat m \<longleftrightarrow> k = m" using Cons.prems 3 by (intro tag_inj) simp_all
    show ?thesis using IH p len field_step_block [of pre k b "enc_msg fs"] unfolding enc_msg_simps 3
      by (subst wbPbAll_from.simps) (auto simp: k simp del: enc_field.simps)
  qed (use IH p len in \<open>subst wbPbAll_from.simps, auto simp: enc_msg_simps simp del: enc_field.simps\<close>)+
qed

lemma wbPbAll_enc:
  "list_all wf_field fs \<Longrightarrow> length (enc_msg fs) < 2 ^ 63 \<Longrightarrow> m < 2 ^ 61 \<Longrightarrow>
    map snd (wbPbAll (enc_msg fs) (word_of_nat m)) = payloads m fs"
  using wbPbAll_from_enc [of fs "[]" m] by (simp add: wbPbAll_def)

lemma wbPbAll_from_length: "(a, b) \<in> set (wbPbAll_from d f i) \<Longrightarrow> length b \<le> length d"
proof (induction d f i rule: wbPbAll_from.induct)
  case (1 d f i)
  then show ?case by (subst (asm) (2) wbPbAll_from.simps) (auto simp: slice_of_def split: if_splits pb_item.splits)
qed

text \<open>The offsets of blocks grow, in any message.\<close>

lemma wbPbAll_from_sorted:
  "(\<forall>x \<in> set (wbPbAll_from d f i). i < fst x) \<and> sorted_wrt (<) (map fst (wbPbAll_from d f i))"
proof (induction d f i rule: wbPbAll_from.induct)
  case (1 d f i)
  show ?case
  proof (cases "i < length d")
    case True
    show ?thesis
    proof (cases "pb_step d i")
      case (Pb_skip j)
      then show ?thesis using "1.IH"(1) [OF True Pb_skip] True pb_step_forward(1) [OF Pb_skip]
        by (subst (1 2) wbPbAll_from.simps) auto
    next
      case (Pb_block k a e)
      then show ?thesis using "1.IH"(2) [OF True Pb_block] True pb_step_forward(2) [OF Pb_block]
        by (subst (1 2) wbPbAll_from.simps) (auto intro: le_less_trans less_trans)
    qed (simp add: wbPbAll_from.simps)
  qed (simp add: wbPbAll_from.simps)
qed

lemma wbPbAll_distinct: "distinct (map fst (wbPbAll d f))"
  using wbPbAll_from_sorted [of d f 0] by (simp add: wbPbAll_def strict_sorted_iff)

section \<open>ICE servers of an encoded message\<close>

type_synonym ice_server = "bytes list \<times> bytes \<times> bytes"

definition enc_server :: "ice_server \<Rightarrow> bytes" where
  "enc_server = (\<lambda>(urls, un, pw). enc_msg (map (\<lambda>u. (1, PbBytes u)) urls @ [(2, PbBytes un), (3, PbBytes pw)]))"

definition server_creds :: "ice_server \<Rightarrow> WbTurnCred list" where
  "server_creds = (\<lambda>(urls, un, pw). map (\<lambda>u. \<lparr>URL = go_string u, Username = go_string un, Password = go_string pw\<rparr>) urls)"

definition server_hit :: "ice_server \<Rightarrow> bool" where
  "server_hit = (\<lambda>(urls, un, pw). list_ex (is_ice_url \<circ> go_string) urls)"

lemma server_fields:
  assumes "length (enc_server (urls, un, pw)) < 2 ^ 63"
  shows "map snd (wbPbAll (enc_server (urls, un, pw)) 1) = urls"
    "wbPbStr (enc_server (urls, un, pw)) 2 = go_string un" "wbPbStr (enc_server (urls, un, pw)) 3 = go_string pw"
proof -
  let ?fs = "map (\<lambda>u. (1, PbBytes u)) urls @ [(2, PbBytes un), (3, PbBytes pw)] :: (nat \<times> pb_val) list"
  have w: "list_all wf_field ?fs" by (simp add: list_all_iff)
  have urls: "payloads m (map (\<lambda>u. (1, PbBytes u)) urls) = (if m = 1 then urls else [])" for m by (induction urls) auto
  have all: "map snd (wbPbAll (enc_server (urls, un, pw)) (word_of_nat m)) = payloads m ?fs" if "m < 4" for m
    using wbPbAll_enc [OF w, of m] assms that by (simp add: enc_server_def)
  show "map snd (wbPbAll (enc_server (urls, un, pw)) 1) = urls" using all [of 1] by (simp add: payloads_append urls del: One_nat_def)
  have s: "wbPbStr d f = (case map snd (wbPbAll d f) of [] \<Rightarrow> [] | b # _ \<Rightarrow> go_string b)" for d f
    by (simp add: wbPbStr_def split: list.split)
  show "wbPbStr (enc_server (urls, un, pw)) 2 = go_string un" "wbPbStr (enc_server (urls, un, pw)) 3 = go_string pw"
    using all [of 2] all [of 3] by (simp_all add: s payloads_append urls del: One_nat_def)
qed

lemma block_creds_server:
  "length (enc_server s) < 2 ^ 63 \<Longrightarrow> block_creds (enc_server s) = server_creds s \<and> ice_hit (enc_server s) = server_hit s"
proof -
  obtain urls un pw where s: "s = (urls, un, pw)" by (metis surj_pair)
  assume l: "length (enc_server s) < 2 ^ 63"
  note f = server_fields [OF l [unfolded s]]
  have c: "block_creds b = map (\<lambda>u. \<lparr>URL = go_string u, Username = wbPbStr b 2, Password = wbPbStr b 3\<rparr>) (map snd (wbPbAll b 1))" for b
    by (simp add: block_creds_def case_prod_unfold)
  have h: "ice_hit b = list_ex (is_ice_url \<circ> go_string) (map snd (wbPbAll b 1))" for b
    by (simp add: ice_hit_def list_ex_iff case_prod_unfold)
  show ?thesis unfolding s c h f by (simp add: server_creds_def server_hit_def)
qed

lemma first_hit_first:
  "first_hit inner f (xs @ (a, blk) # ys) = Some (hit_creds inner f a blk)"
  if "list_all (\<lambda>(_, b). \<not> ice_hit b) xs" "ice_hit blk"
  using that by (induction xs) auto

lemma hit_creds_split:
  assumes "wbPbAll inner f = xs @ (a, blk) # ys" and "blk \<noteq> []"
  shows "hit_creds inner f a blk = concat (map block_creds (blk # map snd xs @ map snd ys))"
proof -
  have d: "distinct (map fst xs @ a # map fst ys)" using wbPbAll_distinct [of inner f] assms(1) by simp
  have "concat (map (\<lambda>(a2, b). if b \<noteq> [] \<and> blk \<noteq> [] \<and> a2 = a then [] else block_creds b) zs) = concat (map block_creds (map snd zs))"
    if "a \<notin> fst ` set zs" for zs using that by (induction zs) auto
  then show ?thesis using d assms by (simp add: hit_creds_def)
qed

text \<open>\<open>join\<close> is LiveKit's answer: its field 5 holds the ICE servers.\<close>

lemma inner_creds_enc:
  assumes "list_all wf_field join" and "length (enc_msg join) < 2 ^ 63" and "payloads 5 join = map enc_server (pre @ s # post)"
    and "list_all (\<lambda>s. \<not> server_hit s) pre" and "server_hit s"
  shows "inner_creds (enc_msg join) [5, 9] = Some (concat (map server_creds (s # pre @ post)))"
proof -
  let ?bs = "wbPbAll (enc_msg join) 5"
  have m: "map snd ?bs = map enc_server pre @ enc_server s # map enc_server post" using wbPbAll_enc [OF assms(1,2), of 5] assms(3) by simp
  then obtain us vs where u: "?bs = us @ vs" "map snd us = map enc_server pre" "map snd vs = enc_server s # map enc_server post"
    unfolding map_eq_append_conv by auto
  then obtain a ys where "vs = (a, enc_server s) # ys" by (cases vs) auto
  then obtain xs a ys where b: "?bs = xs @ (a, enc_server s) # ys" "map snd xs = map enc_server pre" "map snd ys = map enc_server post"
    using u by auto
  have short: "length b < 2 ^ 63" if "b \<in> set (map snd ?bs)" for b
  proof -
    from that obtain a where "(a, b) \<in> set ?bs" by auto
    then have "length b \<le> length (enc_msg join)" unfolding wbPbAll_def by (rule wbPbAll_from_length)
    then show ?thesis using assms(2) by simp
  qed
  have srv: "block_creds (enc_server t) = server_creds t \<and> ice_hit (enc_server t) = server_hit t" if "t \<in> set (pre @ s # post)" for t
    using that m by (intro block_creds_server short) auto
  have "list_all (\<lambda>x. \<not> ice_hit x) (map snd xs)" using assms(4) srv unfolding b(2) by (simp add: list_all_iff)
  then have "list_all (\<lambda>(_, x). \<not> ice_hit x) xs" by (simp add: list_all_iff case_prod_unfold)
  moreover have hit: "ice_hit (enc_server s)" using srv assms(5) by simp
  ultimately have "first_hit (enc_msg join) 5 ?bs = Some (hit_creds (enc_msg join) 5 a (enc_server s))" unfolding b(1) by (rule first_hit_first)
  moreover have "enc_server s \<noteq> []" using hit by (auto simp: ice_hit_def wbPbAll_def wbPbAll_from.simps)
  then have "hit_creds (enc_msg join) 5 a (enc_server s) = concat (map block_creds (enc_server s # map enc_server (pre @ post)))"
    using hit_creds_split [OF b(1)] b(2,3) by simp
  moreover have "map block_creds (enc_server s # map enc_server (pre @ post)) = map server_creds (s # pre @ post)" using srv by auto
  ultimately show ?thesis by (simp only: inner_creds.simps option.case)
qed

lemma wbPbICE_enc:
  assumes "list_all wf_field (skipped @ (k, PbBytes b) # after)" and "list_all (\<lambda>(_, v). \<forall>b. v \<noteq> PbBytes b) skipped"
    and "length (pre @ enc_msg (skipped @ (k, PbBytes b) # after)) < 2 ^ 63" and "inner_creds b [5, 9] = Some r"
  shows "wbPbICE_from (pre @ enc_msg (skipped @ (k, PbBytes b) # after)) (length pre) = r"
  using assms(1,2,3)
proof (induction skipped arbitrary: pre)
  case Nil
  have p: "pb_step (pre @ enc_field (k, PbBytes b) @ enc_msg after) (length pre) = field_step (length pre) (k, PbBytes b)"
    using Nil.prems by (intro pb_step_enc) (simp_all add: enc_msg_simps)
  have len: "0 < length (enc_field (k, PbBytes b))" using enc_field_len [of "(k, PbBytes b)"] by blast
  show ?case using p len field_step_block [of pre k b "enc_msg after"] assms(4)
    by (subst wbPbICE_from.simps) (simp add: enc_msg_simps del: enc_field.simps inner_creds.simps)
next
  case (Cons x skipped)
  let ?r = "enc_msg (skipped @ (k, PbBytes b) # after)"
  have p: "pb_step (pre @ enc_field x @ ?r) (length pre) = field_step (length pre) x"
    using Cons.prems by (intro pb_step_enc) (simp_all add: enc_msg_simps)
  have s: "field_step (length pre) x = Pb_skip (length pre + length (enc_field x))"
    using Cons.prems(2) by (cases x rule: enc_field.cases) (simp_all del: enc_field.simps)
  have IH: "wbPbICE_from (pre @ enc_field x @ ?r) (length pre + length (enc_field x)) = r"
    using Cons.IH [of "pre @ enc_field x"] Cons.prems by (simp add: enc_msg_simps)
  have len: "0 < length (enc_field x)" using enc_field_len [of x] by blast
  show ?case using IH p s len by (subst wbPbICE_from.simps) (simp add: enc_msg_simps del: enc_field.simps inner_creds.simps)
qed

section \<open>The stream of messages\<close>

fun receives :: "('e, 'w) wb_env \<Rightarrow> bytes list \<Rightarrow> 'w \<Rightarrow> 'w \<Rightarrow> bool" where
  "receives env [] w w' \<longleftrightarrow> w = w'"
| "receives env (m # ms) w w' \<longleftrightarrow> (\<exists>w1. wb_recv env w = (Some m, w1) \<and> receives env ms w1 w')"

lemma lk_loop_receives:
  "receives env (ms @ [m]) w w' \<Longrightarrow> length ms < n \<Longrightarrow> list_all (\<lambda>m. wbPbICE m = []) ms \<Longrightarrow> wbPbICE m \<noteq> [] \<Longrightarrow>
    lk_loop env n w = (Inr (wbDedup (wbPbICE m)), w')"
proof (induction ms arbitrary: n w)
  case Nil
  then show ?case by (cases n) (auto split: list.split)
next
  case (Cons m1 ms)
  then show ?case by (cases n) auto
qed

lemma dedup_loop_keys:
  "set (map dedup_key (dedup_loop S cc)) = set (map dedup_key cc) - S \<and> distinct (map dedup_key (dedup_loop S cc)) \<and>
   set (dedup_loop S cc) \<subseteq> set cc"
  by (induction S cc rule: dedup_loop.induct) auto


text \<open>
  C30.  The TURN servers of a LiveKit message: when the answer encodes a list of ICE servers in its field 5 and is among the
  first fifteen messages, the ones before it naming none, wbLkICE's loop returns the credentials of exactly those servers, the first server
  with a turn or stun URL first and the others in their order, each pair of URL and user name once.
\<close>

theorem wb_ice_servers:
  assumes "list_all wf_field (skipped @ (k, PbBytes (enc_msg join)) # after)" and "list_all wf_field join"
    and "list_all (\<lambda>(_, v). \<forall>b. v \<noteq> PbBytes b) skipped" and "payloads 5 join = map enc_server (pre @ s # post)"
    and "list_all (\<lambda>s. \<not> server_hit s) pre" and "server_hit s"
    and "length (enc_msg (skipped @ (k, PbBytes (enc_msg join)) # after)) < 2 ^ 63"
    and "receives env (quiet @ [enc_msg (skipped @ (k, PbBytes (enc_msg join)) # after)]) w w'"
    and "length quiet < 15" and "list_all (\<lambda>m. wbPbICE m = []) quiet"
  shows "\<exists>creds. lk_loop env 15 w = (Inr creds, w') \<and> creds = wbDedup (concat (map server_creds (s # pre @ post))) \<and>
    dedup_key ` set creds = dedup_key ` set (concat (map server_creds (pre @ s # post))) \<and> distinct (map dedup_key creds) \<and>
    set creds \<subseteq> set (concat (map server_creds (pre @ s # post)))"
proof -
  let ?m = "enc_msg (skipped @ (k, PbBytes (enc_msg join)) # after)" let ?c = "concat (map server_creds (s # pre @ post))"
  have "length (enc_msg join) \<le> length ?m" by (simp add: enc_msg_def)
  then have "inner_creds (enc_msg join) [5, 9] = Some ?c" using assms(2,4,5,6,7) by (intro inner_creds_enc) simp_all
  then have ice: "wbPbICE ?m = ?c" using wbPbICE_enc [of skipped k "enc_msg join" after "[]" ?c] assms(1,3,7) by (simp add: wbPbICE_def)
  have "server_creds s \<noteq> []" using assms(6) by (auto simp: server_hit_def server_creds_def)
  then have "wbPbICE ?m \<noteq> []" using ice by simp
  then have l: "lk_loop env 15 w = (Inr (wbDedup ?c), w')" using lk_loop_receives [OF assms(8,9,10)] ice by simp
  have e: "set ?c = set (concat (map server_creds (pre @ s # post)))" by auto
  show ?thesis using l dedup_loop_keys [of "{}" ?c] unfolding e wbDedup_def [symmetric] by (auto simp: wbDedup_def [symmetric])
qed


definition test_server :: ice_server where
  "test_server = ([map of_char ''turn:1.2.3.4:3478''], map of_char ''u'', map of_char ''p'')"

definition stream_env :: "(unit, bytes list) wb_env" where
  "stream_env = \<lparr>wb_http = (\<lambda>_ w. (Inl (), w)), wb_json = (\<lambda>_. None), wb_resolve = (\<lambda>_ w. (None, w)), wb_dial = (\<lambda>_ _ w. (Inl (), w)),
     wb_recv = (\<lambda>w. case w of [] \<Rightarrow> (None, []) | m # ms \<Rightarrow> (Some m, ms)), wb_millis = 0\<rparr>"

theorem wb_ice_servers_witness:
  "\<exists>creds. lk_loop stream_env 15 [[], enc_msg [(2, PbVarint 300), (1, PbBytes (enc_msg [(5, PbBytes (enc_server test_server))]))]] = (Inr creds, []) \<and>
    creds = wbDedup (concat (map server_creds [test_server]))"
proof -
  have p: "payloads 5 [(5, PbBytes (enc_server test_server))] = map enc_server ([] @ test_server # [])" by simp
  have h: "server_hit test_server" by code_simp
  have "length (enc_msg ([(2, PbVarint 300)] @ (1, PbBytes (enc_msg [(5, PbBytes (enc_server test_server))])) # [])) < 1000" by code_simp
  then have l: "length (enc_msg ([(2, PbVarint 300)] @ (1, PbBytes (enc_msg [(5, PbBytes (enc_server test_server))])) # [])) < 2 ^ 63" by simp
  have r: "receives stream_env ([[]] @ [m]) [[], m] []" for m by (simp add: stream_env_def)
  have f: "list_all wf_field ([(2, PbVarint 300)] @ (1, PbBytes (enc_msg [(5, PbBytes (enc_server test_server))])) # [])"
    "list_all wf_field [(5, PbBytes (enc_server test_server))]" "list_all (\<lambda>(_, v). \<forall>b. v \<noteq> PbBytes b) [(2, PbVarint 300)]"
    "list_all (\<lambda>s. \<not> server_hit s) []" "list_all (\<lambda>m. wbPbICE m = []) [[]]" "length [[] :: bytes] < 15"
    by (simp_all add: wbPbICE_def wbPbICE_from.simps)
  have r2: "receives stream_env ([[]] @ [enc_msg ([(2, PbVarint 300)] @ (1, PbBytes (enc_msg [(5, PbBytes (enc_server test_server))])) # [])])
      [[], enc_msg [(2, PbVarint 300), (1, PbBytes (enc_msg [(5, PbBytes (enc_server test_server))]))]] []"
    using r by (simp only: append.simps)
  show ?thesis using wb_ice_servers [OF f(1,2,3) p f(4) h l r2 f(6,5)] by (simp only: append.simps) blast
qed

section \<open>The order of the requests\<close>

datatype wb_event = Sent http_request | Dialled string








lemma fixed_eps: "url_path_query guest_ep = Some (guest_ep, [])" "url_path_query room_ep = Some (room_ep, [])"
  by code_simp+








text \<open>A world that is the events and the messages still to come.\<close>

definition test_wb :: "(unit, wb_event list \<times> bytes list) wb_env" where
  "test_wb = \<lparr>wb_http = (\<lambda>q (l, ms). (Inr (200, []), (l @ [Sent q], ms))),
     wb_json = (\<lambda>_. Some (JObj [(''accessToken'', JString ''a''), (''roomId'', JString ''r''), (''roomToken'', JString ''t'')])),
     wb_resolve = (\<lambda>_ w. (None, w)), wb_dial = (\<lambda>u _ (l, ms). (Inr (), (l @ [Dialled u], ms))),
     wb_recv = (\<lambda>(l, ms). case ms of [] \<Rightarrow> (None, (l, [])) | m # ms \<Rightarrow> (Some m, (l, ms))), wb_millis = 1\<rparr>"



lemma test_wb_request:
  "url_path_query ep = Some (p, q) \<Longrightarrow> \<exists>l'. wbReq test_wb verb ep body tok (l, ms) = (Inr [], (l', ms))"
  by (simp add: wbReq_def resolved_def wbind_def wwrap_def wret_def test_wb_def)

lemma test_wb_creds:
  assumes ice: "wbPbICE m = [c]"
  shows "\<exists>l'. fetchWbCreds test_wb ([], [m]) = (Inr [c], (l', []))"
proof -
  have t: "token_in test_wb ''accessToken'' b = Inr ''a''" "token_in test_wb ''roomId'' b = Inr ''r''" "token_in test_wb ''roomToken'' b = Inr ''t''" for b
    by (simp_all add: token_in_def test_wb_def struct_string_def to_lower_def to_lower_char_def)
  have n: "wb_millis test_wb = 1" by (simp add: test_wb_def)
  have u: "url_path_query (join_ep ''r'') = Some (join_ep ''r'', [])" by code_simp
  have g: "token_ep ''r'' (guest_name 1) = token_ep ''r'' ''lh_1''" 
  proof -
    have "nat_dec 1 = ''1''" by code_simp
    then show ?thesis by (simp add: guest_name_def)
  qed
  have "url_path_query (token_ep ''r'' ''lh_1'') \<noteq> None" by code_simp
  then obtain p q where u2: "url_path_query (token_ep ''r'' (guest_name 1)) = Some (p, q)" unfolding g by auto
  have lk: "\<exists>l'. wbLkICE test_wb ''t'' (l, [m]) = (Inr [c], (l', []))" for l
    by (simp add: wbLkICE_def resolved_def wbind_def wwrap_def test_wb_def numeral_eq_Suc ice wbDedup_def)
  note r = test_wb_request
  obtain l1 where 1: "wbReq test_wb ''POST'' guest_ep (Some (guest_body (guest_name 1))) [] ([], [m]) = (Inr [], (l1, [m]))"
    using r [OF fixed_eps(1)] by blast
  obtain l2 where 2: "wbReq test_wb ''POST'' room_ep (Some room_body) ''a'' (l1, [m]) = (Inr [], (l2, [m]))"
    using r [OF fixed_eps(2)] by blast
  obtain l3 where 3: "wbReq test_wb ''POST'' (join_ep ''r'') (Some ''{}'') ''a'' (l2, [m]) = (Inr [], (l3, [m]))"
    using r [OF u] by blast
  obtain l4 where 4: "wbReq test_wb ''GET'' (token_ep ''r'' (guest_name 1)) None ''a'' (l3, [m]) = (Inr [], (l4, [m]))"
    using r [OF u2] by blast
  obtain l5 where 5: "wbLkICE test_wb ''t'' (l4, [m]) = (Inr [c], (l5, []))"
    using lk by blast
  show ?thesis by (simp add: fetchWbCreds_def Let_def n wbind_def wwrap_def wlift_def t 1 2 3 4 5 del: One_nat_def)
qed



text \<open>
  A turn URL with an address gives that address; a stun URL, which wbPbICE accepts as well, keeps its scheme: when it comes
  first, the address of the TURN server that wbFetch returns is one that cannot be dialled.
\<close>

theorem wb_server_address:
  assumes "fetchWbCreds env w = (Inr (c # cs), w1)" and "set host \<inter> (Go_Net.brackets \<union> {CHR '':'', CHR ''?''}) = {}"
    and "set port \<inter> (Go_Net.brackets \<union> {CHR '':'', CHR ''?''}) = {}" and "is_ip host" and "CHR ''?'' \<notin> set q"
  shows "(URL c = ''turn:'' @ host @ '':'' @ port @ ''?'' @ q \<longrightarrow> wbFetch env link w = (Inr (Username c, Password c, host @ '':'' @ port), w1)) \<and>
    (URL c = ''stun:'' @ host @ '':'' @ port \<longrightarrow> is_ice_url (URL c) \<and> SplitHostPort (URL c) = None \<and>
      wbFetch env link w = (Inr (Username c, Password c, URL c), w1))"
proof
  have hp: "SplitHostPort (host @ '':'' @ port) = Some (host, port)"
    using SplitHostPort_Join [of host port] assms(2,3) by (auto simp: JoinHostPort_def)
  have nq: "CHR ''?'' \<notin> set (host @ '':'' @ port)" using assms(2,3) by auto
  have "\<not> is_ip ''turns''" by code_simp
  then have "host \<noteq> ''turns''" using assms(4) by auto
  then have np: "\<not> prefix ''turns:'' (host @ '':'' @ port)" using assms(2) by (auto simp: prefix_def append_eq_append_conv2 append_eq_Cons_conv Cons_eq_append_conv)
  show "URL c = ''turn:'' @ host @ '':'' @ port @ ''?'' @ q \<longrightarrow> wbFetch env link w = (Inr (Username c, Password c, host @ '':'' @ port), w1)"
  proof
    assume u: "URL c = ''turn:'' @ host @ '':'' @ port @ ''?'' @ q"
    have "str_split CHR ''?'' (''turn:'' @ host @ '':'' @ port @ CHR ''?'' # q) = (''turn:'' @ host @ '':'' @ port) # str_split CHR ''?'' q"
      using str_split_append [of "CHR ''?''" "''turn:'' @ host @ '':'' @ port" q] nq by simp
    then have "turn_address (URL c) = host @ '':'' @ port" using np u by (simp add: turn_address_def trim_prefix_def)
    then show "wbFetch env link w = (Inr (Username c, Password c, host @ '':'' @ port), w1)"
      using hp assms(1,4) by (simp add: wbFetch_def wbind_def resolve_turn_def wret_def)
  qed
  show "URL c = ''stun:'' @ host @ '':'' @ port \<longrightarrow> is_ice_url (URL c) \<and> SplitHostPort (URL c) = None \<and>
      wbFetch env link w = (Inr (Username c, Password c, URL c), w1)"
  proof
    assume u: "URL c = ''stun:'' @ host @ '':'' @ port"
    have "cut_last CHR '':'' ((''stun:'' @ host) @ CHR '':'' # port) = Some (''stun:'' @ host, port)" using assms(3) by (intro cut_last_append) auto
    then have n: "SplitHostPort (URL c) = None" by (simp add: u SplitHostPort_def)
    have "str_split CHR ''?'' (URL c) = [URL c]" using nq u by simp
    then have "turn_address (URL c) = URL c" by (simp add: turn_address_def trim_prefix_def u)
    then show "is_ice_url (URL c) \<and> SplitHostPort (URL c) = None \<and> wbFetch env link w = (Inr (Username c, Password c, URL c), w1)"
      using n assms(1) u by (simp add: wbFetch_def wbind_def resolve_turn_def wret_def is_ice_url_def)
  qed
qed

definition stun_message :: bytes where
  "stun_message = enc_msg [(1, PbBytes (enc_msg [(5, PbBytes (enc_server ([map of_char ''stun:1.2.3.4:3478''], map of_char ''u'', map of_char ''p'')))]))]"

theorem wb_server_address_witness:
  "\<exists>w1. wbFetch test_wb ''x'' ([], [stun_message]) = (Inr (''u'', ''p'', ''stun:1.2.3.4:3478''), w1) \<and> SplitHostPort ''stun:1.2.3.4:3478'' = None"
proof -
  have "wbPbICE stun_message = [\<lparr>URL = ''stun:1.2.3.4:3478'', Username = ''u'', Password = ''p''\<rparr>]" by code_simp
  then obtain l where f: "fetchWbCreds test_wb ([], [stun_message]) = (Inr [\<lparr>URL = ''stun:1.2.3.4:3478'', Username = ''u'', Password = ''p''\<rparr>], (l, []))"
    using test_wb_creds by blast
  have h: "set ''1.2.3.4'' \<inter> (Go_Net.brackets \<union> {CHR '':'', CHR ''?''}) = {}" "set ''3478'' \<inter> (Go_Net.brackets \<union> {CHR '':'', CHR ''?''}) = {}" "is_ip ''1.2.3.4''" "CHR ''?'' \<notin> set []"
    by (code_simp)+
  from wb_server_address [OF f h] show ?thesis by simp
qed

end
