(* ===== verification/Turn_Hub.thy ===== *)
theory Turn_Hub
  imports Credentials Wrap Go_Net
begin

text \<open>
  The hub of the TURN proxy (turn_client.go): the local socket and its dispatch to the streams,
  the start of the proxy, the link of the call, the wrap key on its way to the streams, and the first message
  of a proxy_v2 stream.  The streams' own goroutines are in Stream_Run.

  Parameters: vkHosts.Resolve, net.ResolveUDPAddr, the listening socket, the certificate, the session id.
  Not modelled: the pool the buffers come from, the pauses between the starts of streams, the wait
  for the first ready stream.
\<close>

section \<open>Streams and the hub\<close>

text \<open>
  A stream as the hub and the other goroutines see it: its number, whether it has ever been ready,
  its channel of packets, and the last address that sent to it.  \<open>relaying\<close> is the place of its
  goroutines: they take from the channel only between the end of the handshake and the next failure.
\<close>

record stream =
  st_id :: nat
  st_ready :: bool
  st_in :: "bytes list"
  st_peer :: "string option"

definition chan_size :: nat where "chan_size = 512"
definition iPacketBuffMaxSize :: nat where "iPacketBuffMaxSize = 2048"

definition new_stream :: "nat \<Rightarrow> stream" where
  "new_stream i = \<lparr>st_id = i, st_ready = False, st_in = [], st_peer = None\<rparr>"

record hub =
  hub_streams :: "stream list"
  hub_lastUsed :: nat

definition new_hub :: "nat \<Rightarrow> hub" where
  "new_hub numStreams = \<lparr>hub_streams = map new_stream [0..<numStreams], hub_lastUsed = 0\<rparr>"

text \<open>The search for a ready stream; \<open>k\<close> turns are left.\<close>

fun pick :: "stream list \<Rightarrow> nat \<Rightarrow> nat \<Rightarrow> nat \<Rightarrow> nat option" where
  "pick ss l i 0 = None"
| "pick ss l i (Suc k) =
     (let j = (l + i) mod length ss in if st_ready (ss ! j) then Some j else pick ss l (Suc i) k)"

datatype hub_out = Hub_panic | No_stream | Queued nat | Queue_full nat

text \<open>One datagram from the local socket: what is beyond the buffer is cut off.\<close>

definition hub_packet :: "bytes \<Rightarrow> string \<Rightarrow> hub \<Rightarrow> hub_out \<times> hub" where
  "hub_packet p addr h =
     (let b = take iPacketBuffMaxSize p; n = length (hub_streams h) in
      if n = 0 then (Hub_panic, h)
      else
        let l = (hub_lastUsed h + 1) mod n; h' = h\<lparr>hub_lastUsed := l\<rparr> in
        case pick (hub_streams h) l 0 n of
          None \<Rightarrow> (No_stream, h')
        | Some j \<Rightarrow>
            let st = (hub_streams h ! j)\<lparr>st_peer := Some addr\<rparr> in
            if length (st_in st) < chan_size
            then (Queued j, h'\<lparr>hub_streams := (hub_streams h)[j := st\<lparr>st_in := st_in st @ [b]\<rparr>]\<rparr>)
            else (Queue_full j, h'\<lparr>hub_streams := (hub_streams h)[j := st]\<rparr>))"

section \<open>The link of a call\<close>

text \<open>\<open>strings.Split(s, "join/")\<close>, and the cut at \<open>strings.IndexAny(s, "/?#")\<close>.\<close>

definition join_sep :: string where "join_sep = ''join/''"

fun split_join :: "string \<Rightarrow> nat \<Rightarrow> string list" where
  "split_join [] skip = [[]]"
| "split_join (c # s) skip =
     (if skip > 0 then split_join s (skip - 1)
      else if prefix join_sep (c # s) then [] # split_join s (length join_sep - 1)
      else (case split_join s 0 of [] \<Rightarrow> [[c]] | p # ps \<Rightarrow> (c # p) # ps))"

definition link_of :: "string \<Rightarrow> string \<Rightarrow> string" where
  "link_of mode vklink =
     (if mode = ''wb'' then ''wb''
      else takeWhile (\<lambda>c. c \<notin> set ''/?#'') (last (split_join vklink 0)))"

section \<open>The wrap key\<close>

text \<open>What StartProxy passes on, and what startProxyImpl makes of it: the key is nil after a bad one.\<close>

definition start_wrap_key :: "bytes \<Rightarrow> string" where
  "start_wrap_key wrapKeyBytes = (if IsWrapEnabled wrapKeyBytes then hex_encode (GetWrapKey wrapKeyBytes) else [])"

definition impl_wrap_key :: "string \<Rightarrow> bytes" where
  "impl_wrap_key wrapKeyStr =
     (if wrapKeyStr = [] then []
      else (case decodeWrapKey True wrapKeyStr of Inr (Some wk) \<Rightarrow> wk | _ \<Rightarrow> []))"

text \<open>The first message of a proxy_v2 stream.\<close>

definition handshake_buf :: "bytes \<Rightarrow> nat \<Rightarrow> bytes" where
  "handshake_buf sid i = overwrite 0 (take 16 sid) (replicate 16 0) @ [word_of_nat i]"

section \<open>What the hub promises\<close>

text \<open>\<open>pick\<close> finds the first ready stream in cyclic order.\<close>

lemma pick_Some:
  "pick ss l i k = Some j \<Longrightarrow> \<exists>m < k. j = (l + i + m) mod length ss \<and> st_ready (ss ! j) \<and>
    (\<forall>m' < m. \<not> st_ready (ss ! ((l + i + m') mod length ss)))"
proof (induction ss l i k rule: pick.induct)
  case (2 ss l i k)
  show ?case
  proof (cases "st_ready (ss ! ((l + i) mod length ss))")
    case True
    then show ?thesis using "2.prems" by (intro exI [of _ 0]) auto
  next
    case False
    then obtain m where m: "m < k" "j = (l + Suc i + m) mod length ss" "st_ready (ss ! j)"
      "\<forall>m' < m. \<not> st_ready (ss ! ((l + Suc i + m') mod length ss))"
      using 2 by auto
    have "\<not> st_ready (ss ! ((l + i + m') mod length ss))" if "m' < Suc m" for m'
      using m(4) False that by (cases m') auto
    then show ?thesis using m by (intro exI [of _ "Suc m"]) auto
  qed
qed simp

lemma pick_None: "pick ss l i k = None \<longleftrightarrow> (\<forall>m < k. \<not> st_ready (ss ! ((l + i + m) mod length ss)))"
proof (induction ss l i k rule: pick.induct)
  case (2 ss l i k)
  have "(\<forall>m < Suc k. P m) \<longleftrightarrow> P 0 \<and> (\<forall>m < k. P (Suc m))" for P :: "nat \<Rightarrow> bool" by (auto simp: less_Suc_eq_0_disj)
  then show ?case using 2 by (auto simp: Let_def)
qed simp


definition chosen :: "hub_out \<Rightarrow> nat option" where
  "chosen out = (case out of Queued j \<Rightarrow> Some j | Queue_full j \<Rightarrow> Some j | _ \<Rightarrow> None)"

lemma nth_update: "xs[i := x] ! j = (if i = j \<and> j < length xs then x else xs ! j)"
  by (cases "i < length xs") (auto simp: nth_list_update list_update_beyond)

lemma map_update_same: "f x = f (xs ! j) \<Longrightarrow> map f (xs[j := x]) = map f xs"
  by (metis list_update_id map_update)

lemma hub_packet_chosen:
  assumes "hub_streams h \<noteq> []"
  shows "chosen (fst (hub_packet p a h)) = pick (hub_streams h) ((hub_lastUsed h + 1) mod length (hub_streams h)) 0 (length (hub_streams h))"
    "hub_lastUsed (snd (hub_packet p a h)) = (hub_lastUsed h + 1) mod length (hub_streams h)"
    "map st_ready (hub_streams (snd (hub_packet p a h))) = map st_ready (hub_streams h)"
  using assms
  by (cases "pick (hub_streams h) ((hub_lastUsed h + 1) mod length (hub_streams h)) 0 (length (hub_streams h))";
    simp add: hub_packet_def Let_def chosen_def map_update_same)+

text \<open>When all streams are ready, packets go round.\<close>

lemma hub_packet_all_ready:
  assumes "hub_streams h \<noteq> []" and "list_all st_ready (hub_streams h)"
  shows "chosen (fst (hub_packet p a h)) = Some ((hub_lastUsed h + 1) mod length (hub_streams h))"
proof -
  let ?n = "length (hub_streams h)"
  have n: "0 < ?n" using assms(1) by simp
  then have "st_ready (hub_streams h ! ((hub_lastUsed h + 1) mod ?n))" using assms(2) by (simp add: list_all_length)
  then show ?thesis using hub_packet_chosen(1) [OF assms(1)] n by (cases ?n) (auto simp: Let_def)
qed

section \<open>The system of streams\<close>

datatype hub_event = Packet bytes string | Up nat | Down nat | Take nat

record hub_sys =
  sys_hub :: hub
  sys_relaying :: "nat set"
  sys_sent :: "(nat \<times> bytes) list"
  sys_log :: "(hub_out \<times> bytes) list"

definition upd_stream :: "nat \<Rightarrow> (stream \<Rightarrow> stream) \<Rightarrow> hub \<Rightarrow> hub" where
  "upd_stream j f h = (if j < length (hub_streams h) then h\<lparr>hub_streams := (hub_streams h)[j := f (hub_streams h ! j)]\<rparr> else h)"

text \<open>
  \<open>Up\<close> is \<open>s.ready.Store(true)\<close> with the start of the TX goroutine, \<open>Down\<close> the end of a run;
  \<open>Take\<close> is the TX goroutine taking a packet.
\<close>

fun hub_event_step :: "hub_event \<Rightarrow> hub_sys \<Rightarrow> hub_sys" where
  "hub_event_step (Packet p a) s = (case hub_packet p a (sys_hub s) of (out, h) \<Rightarrow>
     s\<lparr>sys_hub := h, sys_log := sys_log s @ [(out, take iPacketBuffMaxSize p)]\<rparr>)"
| "hub_event_step (Up j) s = s\<lparr>sys_hub := upd_stream j (st_ready_update (\<lambda>_. True)) (sys_hub s), sys_relaying := insert j (sys_relaying s)\<rparr>"
| "hub_event_step (Down j) s = s\<lparr>sys_relaying := sys_relaying s - {j}\<rparr>"
| "hub_event_step (Take j) s =
     (if j \<in> sys_relaying s \<and> j < length (hub_streams (sys_hub s)) then
        (case st_in (hub_streams (sys_hub s) ! j) of
           [] \<Rightarrow> s
         | b # q \<Rightarrow> s\<lparr>sys_hub := upd_stream j (st_in_update (\<lambda>_. q)) (sys_hub s), sys_sent := sys_sent s @ [(j, b)]\<rparr>)
      else s)"

definition hub_run :: "hub_event list \<Rightarrow> hub_sys \<Rightarrow> hub_sys" where
  "hub_run evs s = fold hub_event_step evs s"

definition hub_start :: "nat \<Rightarrow> hub_sys" where
  "hub_start n = \<lparr>sys_hub = new_hub n, sys_relaying = {}, sys_sent = [], sys_log = []\<rparr>"

definition accepted :: "nat \<Rightarrow> hub_sys \<Rightarrow> bytes list" where
  "accepted j s = map snd (filter (\<lambda>(out, _). out = Queued j) (sys_log s))"

definition sent_by :: "nat \<Rightarrow> hub_sys \<Rightarrow> bytes list" where
  "sent_by j s = map snd (filter (\<lambda>(i, _). i = j) (sys_sent s))"

definition hub_inv :: "nat \<Rightarrow> hub_sys \<Rightarrow> bool" where
  "hub_inv n s \<longleftrightarrow> length (hub_streams (sys_hub s)) = n \<and>
     (\<forall>j < n. accepted j s = sent_by j s @ st_in (hub_streams (sys_hub s) ! j) \<and> length (st_in (hub_streams (sys_hub s) ! j)) \<le> chan_size)"

lemma hub_packet_queue:
  assumes "hub_packet p a h = (out, h')" and "j < length (hub_streams h)"
  shows "length (hub_streams h') = length (hub_streams h)"
    "st_in (hub_streams h' ! j) = st_in (hub_streams h ! j) @ (if out = Queued j then [take iPacketBuffMaxSize p] else [])"
    "out = Queued j \<longrightarrow> length (st_in (hub_streams h ! j)) < chan_size"
  using assms by (auto simp: hub_packet_def Let_def nth_update split: option.splits if_splits)

lemma hub_inv_step: "hub_inv n s \<Longrightarrow> hub_inv n (hub_event_step e s)"
proof (cases e)
  case (Packet p a)
  assume i: "hub_inv n s"
  obtain out h where h: "hub_packet p a (sys_hub s) = (out, h)" by fastforce
  note q = hub_packet_queue [OF h]
  have "length (hub_streams h) = n" using i h by (auto simp: hub_inv_def hub_packet_def Let_def split: option.splits if_splits)
  then show ?thesis using i q Packet h by (auto simp: hub_inv_def accepted_def sent_by_def Suc_le_eq)
next
  case (Up j)
  assume "hub_inv n s"
  then show ?thesis using Up by (auto simp: hub_inv_def accepted_def sent_by_def upd_stream_def nth_list_update)
next
  case (Down j)
  assume "hub_inv n s"
  then show ?thesis using Down by (auto simp: hub_inv_def accepted_def sent_by_def)
next
  case (Take j)
  assume "hub_inv n s"
  then show ?thesis using Take
    by (cases "st_in (hub_streams (sys_hub s) ! j)") (auto simp: hub_inv_def accepted_def sent_by_def upd_stream_def nth_list_update)
qed

lemma hub_inv_run: "hub_inv n s \<Longrightarrow> hub_inv n (hub_run evs s)"
  unfolding hub_run_def by (induction evs arbitrary: s) (auto intro: hub_inv_step)

lemma hub_inv_start: "hub_inv n (hub_start n)"
  by (simp add: hub_inv_def hub_start_def new_hub_def new_stream_def accepted_def sent_by_def)



lemma cyclic: "(i :: nat) < n \<Longrightarrow> l < n \<Longrightarrow> (l + (i + n - l)) mod n = i"
proof -
  assume "i < n" "l < n"
  then have "l + (i + n - l) = i + n" by simp
  then show ?thesis using \<open>i < n\<close> by simp
qed

text \<open>
  Where a packet goes: to the first ready stream after the last one in cyclic order; to none exactly when no stream is ready; no
  other stream is touched, and the chosen stream learns the return address even when its channel is full and the packet is dropped.
\<close>

theorem hub_dispatch:
  assumes "hub_streams h \<noteq> []" and "hub_packet p a h = (out, h')"
  shows "let n = length (hub_streams h) in
    (chosen out = None \<longleftrightarrow> (\<forall>st \<in> set (hub_streams h). \<not> st_ready st)) \<and>
    (\<forall>j. chosen out = Some j \<longrightarrow> j < n \<and> (\<exists>m < n. j = (hub_lastUsed h + 1 + m) mod n \<and> st_ready (hub_streams h ! j) \<and>
       (\<forall>m' < m. \<not> st_ready (hub_streams h ! ((hub_lastUsed h + 1 + m') mod n)))) \<and>
       st_peer (hub_streams h' ! j) = Some a) \<and>
    (\<forall>i. chosen out \<noteq> Some i \<longrightarrow> hub_streams h' ! i = hub_streams h ! i)"
proof -
  let ?ss = "hub_streams h" let ?n = "length ?ss" let ?l = "(hub_lastUsed h + 1) mod ?n"
  have n: "0 < ?n" using assms(1) by simp
  have c: "chosen out = pick ?ss ?l 0 ?n" using hub_packet_chosen(1) [OF assms(1), of p a] assms(2) by simp
  have all: "(\<forall>m < ?n. \<not> st_ready (?ss ! ((?l + 0 + m) mod ?n))) \<longleftrightarrow> (\<forall>st \<in> set ?ss. \<not> st_ready st)"
  proof
    assume r: "\<forall>m < ?n. \<not> st_ready (?ss ! ((?l + 0 + m) mod ?n))"
    show "\<forall>st \<in> set ?ss. \<not> st_ready st"
    proof
      fix st assume "st \<in> set ?ss"
      then obtain i where i: "i < ?n" "st = ?ss ! i" by (auto simp: in_set_conv_nth)
      have "(?l + 0 + (i + ?n - ?l) mod ?n) mod ?n = (?l + (i + ?n - ?l)) mod ?n" by (simp only: add_0_right mod_add_right_eq)
      also have "\<dots> = i" using n by (intro cyclic i(1)) simp
      finally have "(?l + 0 + (i + ?n - ?l) mod ?n) mod ?n = i" .
      then show "\<not> st_ready st" using r i n by (metis mod_less_divisor)
    qed
  qed (use n in auto)
  have none: "chosen out = None \<longleftrightarrow> (\<forall>st \<in> set ?ss. \<not> st_ready st)" unfolding c pick_None all ..
  have some: "j < ?n \<and> (\<exists>m < ?n. j = (hub_lastUsed h + 1 + m) mod ?n \<and> st_ready (?ss ! j) \<and>
       (\<forall>m' < m. \<not> st_ready (?ss ! ((hub_lastUsed h + 1 + m') mod ?n))))" if "chosen out = Some j" for j
  proof -
    have p: "pick ?ss ?l 0 ?n = Some j" using that c by simp
    obtain m where "m < ?n" "j = (?l + 0 + m) mod ?n" "st_ready (?ss ! j)" "\<forall>m' < m. \<not> st_ready (?ss ! ((?l + 0 + m') mod ?n))"
      using pick_Some [OF p] by blast
    then show ?thesis using n by (auto simp: mod_add_left_eq)
  qed
  have peer: "st_peer (hub_streams h' ! j) = Some a" if "chosen out = Some j" for j
    using that some [OF that] assms by (auto simp: hub_packet_def chosen_def Let_def nth_update split: option.splits if_splits)
  have rest: "hub_streams h' ! i = ?ss ! i" if "chosen out \<noteq> Some i" for i
    using that assms by (auto simp: hub_packet_def chosen_def Let_def nth_update split: option.splits if_splits)
  show ?thesis unfolding Let_def using none some peer rest by blast
qed

theorem hub_dispatch_witness:
  "\<exists>out h'. hub_packet [1] ''a'' \<lparr>hub_streams = [new_stream 0, (new_stream 1)\<lparr>st_ready := True\<rparr>, (new_stream 2)\<lparr>st_ready := True\<rparr>], hub_lastUsed = 2\<rparr> = (out, h') \<and>
    out = Queued 1 \<and> hub_streams h' ! 2 = (new_stream 2)\<lparr>st_ready := True\<rparr>"
proof -
  let ?h = "\<lparr>hub_streams = [new_stream 0, (new_stream 1)\<lparr>st_ready := True\<rparr>, (new_stream 2)\<lparr>st_ready := True\<rparr>], hub_lastUsed = 2\<rparr>"
  have e: "fst (hub_packet [1] ''a'' ?h) = Queued 1" by code_simp
  obtain out h' where o: "hub_packet [1] ''a'' ?h = (out, h')" by fastforce
  have "hub_streams ?h \<noteq> []" by simp
  from hub_dispatch [OF this o] e o show ?thesis by (auto simp: Let_def chosen_def)
qed

section \<open>A stream that is not connected\<close>

definition packets :: "hub_event list \<Rightarrow> nat" where
  "packets evs = length (filter (\<lambda>e. case e of Packet _ _ \<Rightarrow> True | _ \<Rightarrow> False) evs)"

lemma window_count:
  assumes "j < (n :: nat)"
  shows "k div n \<le> length (filter (\<lambda>i. (c + i) mod n = j) [0..<k])"
proof -
  let ?r = "(j + n - c mod n) mod n"
  have r: "(c + (q * n + ?r)) mod n = j" for q
  proof -
    have "(c + (q * n + ?r)) mod n = (c mod n + (j + n - c mod n)) mod n" by (metis add.left_commute mod_add_left_eq mod_add_right_eq mod_mult_self3)
    also have "\<dots> = j" using assms by (intro cyclic) auto
    finally show ?thesis .
  qed
  have lt: "q * n + ?r < k" if "q < k div n" for q
  proof -
    have "q * n + ?r < Suc q * n" using assms by simp
    also have "\<dots> \<le> k div n * n" using that by (intro mult_le_mono1) simp
    also have "\<dots> \<le> k" by simp
    finally show ?thesis .
  qed
  have "inj_on (\<lambda>q. q * n + ?r) {..<k div n}" using assms by (auto simp: inj_on_def)
  then have "card ((\<lambda>q. q * n + ?r) ` {..<k div n}) = k div n" by (simp add: card_image)
  moreover have "(\<lambda>q. q * n + ?r) ` {..<k div n} \<subseteq> {i. i < k \<and> (c + i) mod n = j}" using r lt by auto
  then have "card ((\<lambda>q. q * n + ?r) ` {..<k div n}) \<le> card {i. i < k \<and> (c + i) mod n = j}" by (intro card_mono) auto
  moreover have "card {i. i < k \<and> (c + i) mod n = j} = length (filter (\<lambda>i. (c + i) mod n = j) [0..<k])"
    using distinct_card [of "filter (\<lambda>i. (c + i) mod n = j) [0..<k]"] by (simp add: Collect_conj_eq inf_commute lessThan_def [symmetric] lessThan_atLeast0)
  ultimately show ?thesis by simp
qed

lemma hub_event_ready:
  assumes "list_all st_ready (hub_streams (sys_hub s))"
  shows "list_all st_ready (hub_streams (sys_hub (hub_event_step e s)))" "length (hub_streams (sys_hub (hub_event_step e s))) = length (hub_streams (sys_hub s))"
proof -
  have "list_all st_ready xs \<longleftrightarrow> list_all (\<lambda>b. b) (map st_ready xs)" for xs by (simp add: list_all_iff)
  moreover have "map st_ready (hub_streams (snd (hub_packet p a h))) = map st_ready (hub_streams h)" for p a h
    using hub_packet_chosen(3) by (cases "hub_streams h = []") (auto simp: hub_packet_def Let_def)
  ultimately have p: "list_all st_ready (hub_streams (snd (hub_packet p a h))) = list_all st_ready (hub_streams h)" for p a h by metis
  show "list_all st_ready (hub_streams (sys_hub (hub_event_step e s)))"
  proof (cases e)
    case (Packet q a)
    then show ?thesis using assms p [of q a "sys_hub s"] by (simp add: case_prod_unfold)
  qed (use assms in \<open>auto simp: list_all_length upd_stream_def nth_update split: list.split\<close>)
  show "length (hub_streams (sys_hub (hub_event_step e s))) = length (hub_streams (sys_hub s))"
    by (cases e) (auto simp: upd_stream_def hub_packet_def Let_def split: list.split option.split prod.split)
qed

lemma hub_event_quiet:
  assumes "\<And>p a. e \<noteq> Packet p a"
  shows "sys_log (hub_event_step e s) = sys_log s" "hub_lastUsed (sys_hub (hub_event_step e s)) = hub_lastUsed (sys_hub s)" "packets (e # evs) = packets evs"
  using assms by (cases e; auto simp: upd_stream_def packets_def split: list.split)+

lemma hub_rounds:
  assumes "list_all st_ready (hub_streams (sys_hub s))" and "hub_streams (sys_hub s) \<noteq> []"
  shows "\<exists>new. sys_log (hub_run evs s) = sys_log s @ new \<and>
    map (chosen \<circ> fst) new = map (\<lambda>i. Some ((hub_lastUsed (sys_hub s) + 1 + i) mod length (hub_streams (sys_hub s)))) [0..<packets evs]"
  using assms
proof (induction evs arbitrary: s)
  case Nil
  show ?case by (simp add: hub_run_def packets_def)
next
  case (Cons e evs)
  let ?n = "length (hub_streams (sys_hub s))" let ?s = "hub_event_step e s"
  have r: "hub_run (e # evs) s = hub_run evs ?s" by (simp add: hub_run_def)
  note ok = hub_event_ready [OF Cons.prems(1), of e]
  have ne: "hub_streams (sys_hub ?s) \<noteq> []" using ok(2) Cons.prems(2) by (metis length_0_conv)
  obtain new where new: "sys_log (hub_run evs ?s) = sys_log ?s @ new"
    "map (chosen \<circ> fst) new = map (\<lambda>i. Some ((hub_lastUsed (sys_hub ?s) + 1 + i) mod ?n)) [0..<packets evs]"
    using Cons.IH [OF ok(1) ne] unfolding ok(2) by blast
  have other: ?case if "\<And>p a. e \<noteq> Packet p a"
  proof -
    note q = hub_event_quiet [OF that]
    show ?thesis unfolding r q(3) using new unfolding q(1,2) by blast
  qed
  show ?case
  proof (cases e)
    case (Packet p a)
    obtain out h where h: "hub_packet p a (sys_hub s) = (out, h)" by fastforce
    have c: "chosen out = Some ((hub_lastUsed (sys_hub s) + 1) mod ?n)" using hub_packet_all_ready [OF Cons.prems(2,1), of p a] h by simp
    have l: "hub_lastUsed h = (hub_lastUsed (sys_hub s) + 1) mod ?n" using hub_packet_chosen(2) [OF Cons.prems(2), of p a] h by simp
    have u: "[0..<packets (e # evs)] = 0 # map Suc [0..<packets evs]" using Packet by (simp add: packets_def map_Suc_upt upt_conv_Cons del: upt_Suc)
    have m: "((hub_lastUsed (sys_hub s) + 1) mod ?n + 1 + i) mod ?n = (hub_lastUsed (sys_hub s) + 1 + Suc i) mod ?n" for i
      by (metis add.assoc add_Suc_right mod_add_left_eq plus_1_eq_Suc)
    have log: "sys_log ?s = sys_log s @ [(out, take iPacketBuffMaxSize p)]" "hub_lastUsed (sys_hub ?s) = (hub_lastUsed (sys_hub s) + 1) mod ?n"
      using Packet h l by simp_all
    have "map (chosen \<circ> fst) ((out, take iPacketBuffMaxSize p) # new) = map (\<lambda>i. Some ((hub_lastUsed (sys_hub s) + 1 + i) mod ?n)) [0..<packets (e # evs)]"
      unfolding u list.map(2) new(2) log(2) m using c by (simp add: o_def)
    then show ?thesis unfolding r new(1) log(1)
      by (intro exI [of _ "(out, take iPacketBuffMaxSize p) # new"], intro conjI [rotated], assumption) simp
  qed (rule other; simp)+
qed

lemma not_relaying_run:
  "j \<notin> sys_relaying s \<Longrightarrow> Up j \<notin> set evs \<Longrightarrow> sent_by j (hub_run evs s) = sent_by j s \<and> j \<notin> sys_relaying (hub_run evs s)"
proof (induction evs arbitrary: s)
  case (Cons e evs)
  have "sent_by j (hub_event_step e s) = sent_by j s \<and> j \<notin> sys_relaying (hub_event_step e s)"
    using Cons.prems by (cases e) (auto simp: sent_by_def split: prod.split list.split)
  then show ?case using Cons by (simp add: hub_run_def)
qed (simp add: hub_run_def)

text \<open>
  Readiness is never taken back: a stream that has lost its connection keeps its turn.  With all n streams once ready
  and stream j down until it is up again, j is given at least every n-th packet although others are connected, sends none of
  them, and keeps at most 512 of them for later.
\<close>

theorem hub_dead_stream:
  assumes "s = hub_run evs0 (hub_start n)" and "list_all st_ready (hub_streams (sys_hub s))" and "j < n" and "j \<notin> sys_relaying s" and "Up j \<notin> set evs"
  shows "sent_by j (hub_run evs s) = sent_by j s \<and>
    packets evs div n \<le> length (filter (\<lambda>(out, _). chosen out = Some j) (drop (length (sys_log s)) (sys_log (hub_run evs s)))) \<and>
    length (accepted j (hub_run evs s)) \<le> length (sent_by j s) + chan_size"
proof -
  have i: "hub_inv n s" using hub_inv_run [OF hub_inv_start] assms(1) by simp
  then have n: "length (hub_streams (sys_hub s)) = n" by (simp add: hub_inv_def)
  then have ne: "hub_streams (sys_hub s) \<noteq> []" using assms(3) by auto
  obtain new where new: "sys_log (hub_run evs s) = sys_log s @ new"
    "map (chosen \<circ> fst) new = map (\<lambda>i. Some ((hub_lastUsed (sys_hub s) + 1 + i) mod n)) [0..<packets evs]"
    using hub_rounds [OF assms(2) ne, of evs] n by auto
  have "length (filter (\<lambda>(out, _). chosen out = Some j) new) = length (filter (\<lambda>c. c = Some j) (map (chosen \<circ> fst) new))"
    by (simp add: filter_map o_def case_prod_unfold)
  also have "\<dots> = length (filter (\<lambda>i. (hub_lastUsed (sys_hub s) + 1 + i) mod n = j) [0..<packets evs])" unfolding new(2) by (simp add: filter_map o_def)
  finally have hits: "packets evs div n \<le> length (filter (\<lambda>(out, _). chosen out = Some j) new)" using window_count [OF assms(3), of "packets evs" "hub_lastUsed (sys_hub s) + 1"] by simp
  have sent: "sent_by j (hub_run evs s) = sent_by j s" using not_relaying_run [OF assms(4,5)] by simp
  have "length (accepted j (hub_run evs s)) \<le> length (sent_by j s) + chan_size"
    using hub_inv_run [OF i, of evs] assms(3) sent by (auto simp: hub_inv_def)
  then show ?thesis using hits sent new(1) by simp
qed

theorem hub_dead_stream_witness:
  "packets [Packet [1] ''a'', Packet [2] ''a'', Packet [3] ''a'', Packet [4] ''a''] div 2 \<le>
     length (filter (\<lambda>(out, _). chosen out = Some 1) (sys_log (hub_run [Packet [1] ''a'', Packet [2] ''a'', Packet [3] ''a'', Packet [4] ''a'']
       (hub_run [Up 0, Up 1, Down 1] (hub_start 2)))))"
proof -
  have r: "list_all st_ready (hub_streams (sys_hub (hub_run [Up 0, Up 1, Down 1] (hub_start 2))))" by code_simp
  have d: "1 \<notin> sys_relaying (hub_run [Up 0, Up 1, Down 1] (hub_start 2))" by (simp add: hub_run_def hub_start_def)
  have l: "sys_log (hub_run [Up 0, Up 1, Down 1] (hub_start 2)) = []" by (simp add: hub_run_def hub_start_def)
  have "(1 :: nat) < 2" by simp
  from hub_dead_stream [OF refl r this d, of "[Packet [1] ''a'', Packet [2] ''a'', Packet [3] ''a'', Packet [4] ''a'']"] l
  show ?thesis by simp
qed


section \<open>Starting the proxy\<close>

text \<open>
  The environment: vkHosts.Resolve, net.ResolveUDPAddr, net.ListenPacket, the certificate and
  the random session id.
\<close>

record 'w start_env =
  sn_resolve :: "string \<Rightarrow> 'w \<Rightarrow> string option \<times> 'w"
  sn_udpaddr :: "string \<Rightarrow> 'w \<Rightarrow> string option \<times> 'w"
  sn_listen :: "string \<Rightarrow> 'w \<Rightarrow> bool \<times> 'w"
  sn_cert :: "'w \<Rightarrow> bool \<times> 'w"
  sn_uuid :: bytes

datatype creds_mode = Creds_wb | Creds_vk

record proxy =
  px_peer :: string
  px_link :: string
  px_creds :: creds_mode
  px_wrap :: bytes
  px_perCred :: int
  px_session :: bytes
  px_hub :: hub

datatype start_out = Start_failed | Start_panic | Started proxy

definition resolve_peer :: "'w start_env \<Rightarrow> string \<Rightarrow> 'w \<Rightarrow> string option \<times> 'w" where
  "resolve_peer env peerAddr w =
     (case SplitHostPort peerAddr of
        None \<Rightarrow> sn_udpaddr env peerAddr w
      | Some (host, port) \<Rightarrow>
          if is_ip host then sn_udpaddr env peerAddr w
          else (case sn_resolve env host w of
              (None, w1) \<Rightarrow> sn_udpaddr env peerAddr w1
            | (Some ip, w1) \<Rightarrow> sn_udpaddr env (JoinHostPort ip port) w1))"

text \<open>\<open>make\<close> panics for a negative number of streams.\<close>

definition startProxyImpl :: "'w start_env \<Rightarrow> string \<Rightarrow> string \<Rightarrow> string \<Rightarrow> int \<Rightarrow> string \<Rightarrow> int \<Rightarrow> string \<Rightarrow> 'w \<Rightarrow> start_out \<times> 'w" where
  "startProxyImpl env peerAddr vklink mode numStreams listenAddr perCred wrapKeyStr w =
     (case resolve_peer env peerAddr w of
        (None, w1) \<Rightarrow> (Start_failed, w1)
      | (Some pr, w1) \<Rightarrow>
          (case sn_listen env listenAddr w1 of
             (False, w2) \<Rightarrow> (Start_failed, w2)
           | (True, w2) \<Rightarrow>
               (case sn_cert env w2 of
                  (False, w3) \<Rightarrow> (Start_failed, w3)
                | (True, w3) \<Rightarrow>
                    if numStreams < 0 then (Start_panic, w3)
                    else (Started \<lparr>px_peer = pr, px_link = link_of mode vklink,
                        px_creds = (if mode = ''wb'' then Creds_wb else Creds_vk), px_wrap = impl_wrap_key wrapKeyStr,
                        px_perCred = perCred, px_session = sn_uuid env, px_hub = new_hub (nat numStreams)\<rparr>, w3))))"

definition StartProxy :: "'w start_env \<Rightarrow> bytes \<Rightarrow> string \<Rightarrow> string \<Rightarrow> string \<Rightarrow> int \<Rightarrow> string \<Rightarrow> int \<Rightarrow> 'w \<Rightarrow> start_out \<times> 'w" where
  "StartProxy env wrapKeyBytes peerAddr vklink mode numStreams listenAddr perCred w =
     startProxyImpl env peerAddr vklink mode numStreams listenAddr perCred (start_wrap_key wrapKeyBytes) w"

text \<open>The connection of a stream: wrapped when the key has its full length.\<close>

definition stream_wrap :: "(bytes \<Rightarrow> 'k option) \<Rightarrow> (nat \<Rightarrow> 'w \<Rightarrow> bytes option \<times> 'w) \<Rightarrow> proxy \<Rightarrow> 'w \<Rightarrow> 'k wrapConn option \<times> 'w" where
  "stream_wrap aead_new rand px w =
     (if length (px_wrap px) = wrapKeyLen then
        (case newWrapConn aead_new rand (px_wrap px) False w of
           (Inl _, w') \<Rightarrow> (None, w')
         | (Inr c, w') \<Rightarrow> (Some c, w'))
      else (None, w))"

lemma started_fields:
  assumes "startProxyImpl env pa vl mode ns la pc wk w = (Started px, w')"
  shows "px_wrap px = impl_wrap_key wk \<and> px_link px = link_of mode vl \<and> px_hub px = new_hub (nat ns) \<and> 0 \<le> ns"
proof -
  obtain p w1 where p: "resolve_peer env pa w = (p, w1)" by fastforce
  obtain l w2 where l: "sn_listen env la w1 = (l, w2)" by fastforce
  obtain c w3 where c: "sn_cert env w2 = (c, w3)" by fastforce
  note k = assms [unfolded startProxyImpl_def p prod.case l c]
  obtain pr where pr: "p = Some pr" using k by (cases p) (simp_all only: option.case prod.inject start_out.distinct simp_thms)
  have lc: "l" "c" "\<not> ns < 0" using k unfolding pr option.case by (cases l; cases c; cases "ns < 0"; simp only: bool.case if_True if_False prod.inject start_out.distinct simp_thms)+
  have e: "px = \<lparr>px_peer = pr, px_link = link_of mode vl, px_creds = (if mode = ''wb'' then Creds_wb else Creds_vk), px_wrap = impl_wrap_key wk,
        px_perCred = pc, px_session = sn_uuid env, px_hub = new_hub (nat ns)\<rparr>"
    using k lc unfolding pr option.case by (simp only: bool.case if_False prod.inject start_out.inject)
  have "0 \<le> ns" using lc(3) by linarith
  then show ?thesis unfolding e proxy.simps by (intro conjI refl)
qed

lemma wrap_key_kept:
  assumes "key = [] \<or> length key = 32"
  shows "impl_wrap_key (start_wrap_key key) = key"
proof (cases "key = []")
  case False
  then have l: "length key = 32" using assms by simp
  then have "length (hex_encode key) = 64" by simp
  then have "hex_encode key \<noteq> []" by (metis list.size(3) zero_neq_numeral)
  moreover from this have "decodeWrapKey True (hex_encode key) = Inr (Some key)" using l by (simp add: decodeWrapKey_def wrapKeyLen_def)
  moreover note False
  ultimately show ?thesis by (simp add: impl_wrap_key_def start_wrap_key_def IsWrapEnabled_def GetWrapKey_def)
qed (simp add: impl_wrap_key_def start_wrap_key_def IsWrapEnabled_def)

lemma SetWrapKey_length: "SetWrapKey s old = (None, key) \<Longrightarrow> (s = [] \<and> key = []) \<or> (length key = 32 \<and> hex_decode s = Some key)"
  by (auto simp: SetWrapKey_def split: if_splits option.splits)

text \<open>
  The key that was set is the key that is used: after a successful SetWrapKey, the streams of the proxy that StartProxy
  starts seal with exactly the bytes of that hex text, as the client side, whatever the key before; and with the empty text they do not wrap.
\<close>

theorem configured_key_used:
  assumes "SetWrapKey s old = (None, key)" and "StartProxy env key pa vl mode ns la pc w = (Started px, w')"
  shows "(s = [] \<longrightarrow> (\<forall>w. stream_wrap aead_new rand px w = (None, w))) \<and>
    (s \<noteq> [] \<longrightarrow> hex_encode (px_wrap px) = to_lower s \<and>
      (\<forall>w. stream_wrap aead_new rand px w =
        (case newWrapConn aead_new rand (px_wrap px) False w of (Inl _, w') \<Rightarrow> (None, w') | (Inr c, w') \<Rightarrow> (Some c, w'))))"
proof -
  have l: "(s = [] \<and> key = []) \<or> (length key = 32 \<and> hex_decode s = Some key)" using SetWrapKey_length [OF assms(1)] .
  then have "impl_wrap_key (start_wrap_key key) = key" by (intro wrap_key_kept) auto
  then have k: "px_wrap px = key" using started_fields [OF assms(2) [unfolded StartProxy_def]] by simp
  show ?thesis
  proof (cases "s = []")
    case True
    then have "key = []" using l assms(1) by (auto simp: SetWrapKey_def)
    then show ?thesis using True k by (simp add: stream_wrap_def tg_consts)
  next
    case False
    then have "length key = 32" "hex_encode key = to_lower s" using l hex_encode_decode by auto
    then show ?thesis using False k by (simp add: stream_wrap_def tg_consts)
  qed
qed

definition test_start :: "unit start_env" where
  "test_start = \<lparr>sn_resolve = (\<lambda>_ w. (None, w)), sn_udpaddr = (\<lambda>a w. (Some a, w)), sn_listen = (\<lambda>_ w. (True, w)), sn_cert = (\<lambda>w. (True, w)), sn_uuid = replicate 16 7\<rparr>"

theorem configured_key_used_witness:
  "\<exists>px. StartProxy test_start (replicate 32 0xAB) ''1.2.3.4:5'' ''https://vk.com/call/join/x'' ''vk_link'' 4 ''l'' 4 () = (Started px, ()) \<and>
    hex_encode (px_wrap px) = concat (replicate 32 ''ab'')"
proof -
  have s: "SetWrapKey (concat (replicate 32 ''ab'')) [] = (None, replicate 32 0xAB)" by code_simp
  obtain px where p: "StartProxy test_start (replicate 32 0xAB) ''1.2.3.4:5'' ''https://vk.com/call/join/x'' ''vk_link'' 4 ''l'' 4 () = (Started px, ())"
  proof -
    have "SplitHostPort ''1.2.3.4:5'' = Some (''1.2.3.4'', ''5'')" "is_ip ''1.2.3.4''" by code_simp+
    then have "resolve_peer test_start ''1.2.3.4:5'' () = (Some ''1.2.3.4:5'', ())" by (simp add: resolve_peer_def test_start_def)
    then show ?thesis using that by (simp add: StartProxy_def startProxyImpl_def) (simp add: test_start_def)
  qed
  have "concat (replicate 32 ''ab'') \<noteq> []" "to_lower (concat (replicate 32 ''ab'')) = concat (replicate 32 ''ab'')" by code_simp+
  then show ?thesis using configured_key_used [OF s p] p by auto
qed

section \<open>Links\<close>

lemma split_join_skip: "split_join (p @ s) (length p) = split_join s 0"
  by (induction p) auto

lemma split_join_sep: "split_join (join_sep @ s) 0 = [] # split_join s 0"
  using split_join_skip [of "tl join_sep" s] by (simp add: join_sep_def)

lemma split_join_ne: "split_join s k \<noteq> []"
  by (induction s k rule: split_join.induct) (auto split: list.split)

lemma split_join_none: "\<not> sublist join_sep s \<Longrightarrow> split_join s 0 = [s]"
proof (induction s)
  case (Cons c s)
  then show ?case by (auto simp: sublist_Cons_right)
qed simp

lemma last_split_join:
  "\<not> sublist join_sep s \<Longrightarrow> k \<le> length p \<Longrightarrow> last (split_join (p @ join_sep @ s) k) = s \<and> length (split_join (p @ join_sep @ s) k) \<ge> 2"
proof (induction p arbitrary: k)
  case Nil
  then show ?case by (simp add: split_join_sep [unfolded join_sep_def] split_join_none join_sep_def)
next
  case (Cons c p)
  show ?case
  proof (cases "k > 0")
    case True
    then show ?thesis using Cons.IH [of "k - 1"] Cons.prems by simp
  next
    case k: False
    show ?thesis
    proof (cases "prefix join_sep (c # p @ join_sep @ s)")
      case True
      have "4 \<le> length p"
      proof (rule ccontr)
        assume "\<not> 4 \<le> length p"
        then have "length p = 0 \<or> length p = 1 \<or> length p = 2 \<or> length p = 3" by arith
        then have "(c # p @ join_sep @ s) ! Suc (length p) \<noteq> join_sep ! Suc (length p)" "Suc (length p) < length join_sep"
          by (auto simp: join_sep_def nth_append)
        then show False using True by (metis append_Cons nth_append prefix_def)
      qed
      then have "length join_sep - 1 \<le> length p" by (simp add: join_sep_def)
      moreover have "split_join ((c # p) @ join_sep @ s) k = [] # split_join (p @ join_sep @ s) (length join_sep - 1)"
        using True k by (simp only: append_Cons split_join.simps if_True if_False)
      ultimately show ?thesis using Cons.IH [of "length join_sep - 1"] Cons.prems(1) by auto
    next
      case False
      then show ?thesis using Cons.IH [of 0] Cons.prems(1) k by (auto split: list.split)
    qed
  qed
qed

text \<open>
  The link of the call: from any URL that ends in \<open>join/\<close>, an id and perhaps a further path, query or fragment, the
  streams get exactly the id; an id alone stays as it is.
\<close>

theorem link_extracted:
  assumes "mode \<noteq> ''wb''" and "set i \<inter> set ''/?#'' = {}" and "rest = [] \<or> hd rest \<in> set ''/?#''" and "\<not> sublist ''join/'' (i @ rest)"
  shows "link_of mode (url @ ''join/'' @ i @ rest) = i \<and> link_of mode i = i"
proof -
  have t: "takeWhile (\<lambda>c. c \<notin> set ''/?#'') (i @ rest) = i" if "rest = [] \<or> hd rest \<in> set ''/?#''" for rest
    using assms(2) that by (subst takeWhile_append2) (auto simp: takeWhile_eq_Nil_iff)
  have "last (split_join (url @ ''join/'' @ i @ rest) 0) = i @ rest"
    using last_split_join [of "i @ rest" 0 url] assms(4) by (simp add: join_sep_def)
  moreover have "\<not> sublist ''join/'' i" using assms(4) by (metis append_Nil sublist_appendI sublist_order.order_trans)
  then have "split_join i 0 = [i]" by (intro split_join_none) (simp add: join_sep_def)
  ultimately show ?thesis using t [OF assms(3)] t [of "[]"] assms(1) by (simp add: link_of_def)
qed

theorem link_extracted_witness: "link_of ''vk_link'' (''https://vk.com/call/'' @ ''join/'' @ ''AbC'' @ ''?x=1#y'') = ''AbC''"
proof -
  have n: "\<not> sublist ''join/'' (''AbC'' @ ''?x=1#y'')" by (simp add: sublist_Cons_right)
  have "''vk_link'' \<noteq> ''wb''" "set ''AbC'' \<inter> set ''/?#'' = {}" "''?x=1#y'' = [] \<or> hd ''?x=1#y'' \<in> set ''/?#''" by simp_all
  from conjunct1 [OF link_extracted [OF this n]] show ?thesis .
qed

section \<open>The handshake of proxy_v2\<close>

text \<open>
  The message by which the server tells streams apart has 17 bytes, the session first; two streams of a session send
  the same one exactly when their numbers agree in the last byte.
\<close>

theorem handshake_identifies:
  assumes "length sid = 16"
  shows "length (handshake_buf sid i) = 17 \<and> take 16 (handshake_buf sid i) = sid \<and>
    (handshake_buf sid i = handshake_buf sid i' \<longleftrightarrow> i mod 256 = i' mod 256)"
proof -
  have e: "handshake_buf sid i = sid @ [word_of_nat i]" for i using assms by (simp add: handshake_buf_def overwrite_def)
  have "(word_of_nat i :: byte) = word_of_nat i' \<longleftrightarrow> i mod 256 = i' mod 256"
    using unat_of_nat [where 'a = 8, of i] unat_of_nat [where 'a = 8, of i'] unsigned_word_eqI [of "word_of_nat i :: byte" "word_of_nat i'", where ?'a = nat] by auto
  then show ?thesis using assms by (simp add: e)
qed

theorem handshake_identifies_witness: "handshake_buf (replicate 16 1) 3 = handshake_buf (replicate 16 1) 259 \<and> handshake_buf (replicate 16 1) 3 \<noteq> handshake_buf (replicate 16 1) 4"
proof -
  have l: "length (replicate 16 (1 :: byte)) = 16" by simp
  show ?thesis using handshake_identifies [OF l, of 3 259] handshake_identifies [OF l, of 3 4] by simp
qed

end
