(* ===== verification/Stream_Run.thy ===== *)
theory Stream_Run
  imports Credentials Go_Net
begin

text \<open>
  The life of one stream (turn_client.go): the loop of run, which fetches credentials through the
  cache of Credentials, sets up the relay and runs it, and the goroutines of runNoDTLS and runDTLS
  as step relations.

  Relied on: a read from a closed relay fails, and closing one end of the packet pipe ends the reads of the other end and of the
  DTLS connection on it.  Not modelled: the contents of packets (see Wrap, Turn_Hub and Relay_Traffic), the watchdog, deadlines and counters.
\<close>

section \<open>The loop of a stream\<close>

text \<open>The five calls that set up the relay, in order, and what is deferred after each.\<close>

datatype run_stage = Dial bool string | New_client | Listen | Allocate | CreatePermission
datatype closer = Close_conn | Close_client | Close_relay

fun closers :: "run_stage \<Rightarrow> closer list" where
  "closers (Dial udp addr) = [Close_conn]"
| "closers New_client = []"
| "closers Listen = [Close_client]"
| "closers Allocate = [Close_relay]"
| "closers CreatePermission = []"

type_synonym turn_creds = "string \<times> string \<times> string"

text \<open>
  The environment of a stream.  Every operation may also change the credential store, which
  other goroutines use: the clock, the context, the fetch of credentials, the five calls (whether they succeed), the
  relay that runs until it ends, perhaps with an error, and the select that waits and tells whether the context was done first.
\<close>

record 'w run_env =
  re_now :: "'w \<Rightarrow> int"
  re_ctx :: "'w \<Rightarrow> string option"
  re_fetch :: "'w fetchFunc"
  re_stage :: "run_stage \<Rightarrow> turn_creds \<Rightarrow> 'w \<times> cred_store \<Rightarrow> bool \<times> 'w \<times> cred_store"
  re_relay :: "'w \<times> cred_store \<Rightarrow> string option \<times> 'w \<times> cred_store"
  re_wait :: "nat \<Rightarrow> 'w \<times> cred_store \<Rightarrow> bool \<times> 'w \<times> cred_store"

record run_config =
  rc_id :: int
  rc_link :: string
  rc_udp :: bool
  rc_turnIp :: string
  rc_turnPort :: int

definition isCaptchaRateLimit :: "string \<Rightarrow> bool" where
  "isCaptchaRateLimit s \<longleftrightarrow> str_contains s ''CAPTCHA_WAIT_REQUIRED'' \<or> str_contains s ''check status: BOT'' \<or>
     str_contains s ''check status: ERROR_LIMIT''"

text \<open>The address to dial: a fixed server, with its own port or that of the credentials.\<close>

definition dial_addr :: "run_config \<Rightarrow> string \<Rightarrow> string" where
  "dial_addr cfg turnAddr =
     (if rc_turnIp cfg \<noteq> [] then
        (if rc_turnPort cfg = 0
         then JoinHostPort (rc_turnIp cfg) (case SplitHostPort turnAddr of Some (_, p) \<Rightarrow> p | None \<Rightarrow> [])
         else JoinHostPort (rc_turnIp cfg) (int_dec (rc_turnPort cfg)))
      else turnAddr)"

definition stages :: "run_config \<Rightarrow> turn_creds \<Rightarrow> run_stage list" where
  "stages cfg cr = (case cr of (user, pass, turnAddr) \<Rightarrow>
     [Dial (rc_udp cfg) (dial_addr cfg turnAddr), New_client, Listen, Allocate, CreatePermission])"

fun connect :: "'w run_env \<Rightarrow> turn_creds \<Rightarrow> run_stage list \<Rightarrow> 'w \<times> cred_store \<Rightarrow> run_stage option \<times> closer list \<times> 'w \<times> cred_store" where
  "connect env cr [] ws = (None, [], ws)"
| "connect env cr (st # sts) ws =
     (case re_stage env st cr ws of
        (False, ws') \<Rightarrow> (Some st, [], ws')
      | (True, ws') \<Rightarrow> (case connect env cr sts ws' of (failed, cs, ws'') \<Rightarrow> (failed, closers st @ cs, ws'')))"

text \<open>One turn of the loop.\<close>

datatype turn_end = Creds_panic | No_creds string | Failed run_stage | Ran "string option"

definition run_turn :: "'w run_env \<Rightarrow> run_config \<Rightarrow> 'w \<times> cred_store \<Rightarrow> turn_end \<times> closer list \<times> 'w \<times> cred_store" where
  "run_turn env cfg ws =
     (case getCredsCached (re_now env) (re_ctx env) (re_fetch env) (rc_link cfg) (rc_id cfg) ws of
        None \<Rightarrow> (Creds_panic, [], ws)
      | Some (Inl e, ws1) \<Rightarrow> (No_creds e, [], ws1)
      | Some (Inr cr, ws1) \<Rightarrow>
          (case connect env cr (stages cfg cr) ws1 of
             (Some st, cs, ws2) \<Rightarrow> (Failed st, cs, ws2)
           | (None, cs, ws2) \<Rightarrow> (case re_relay env ws2 of (e, ws3) \<Rightarrow> (Ran e, cs, ws3))))"

text \<open>The pause after a turn, in seconds: a \<open>continue\<close> in the middle has none.\<close>

fun pause_after :: "turn_end \<Rightarrow> nat option" where
  "pause_after (No_creds e) = Some (if isCaptchaRateLimit e then 20 else 1)"
| "pause_after (Ran _) = Some 1"
| "pause_after _ = None"

datatype run_out = Running | Returned | Panicked

text \<open>\<open>n\<close> turns of the loop; what is deferred runs when \<open>run\<close> returns.\<close>

fun run_turns :: "'w run_env \<Rightarrow> run_config \<Rightarrow> nat \<Rightarrow> closer list \<Rightarrow> 'w \<times> cred_store \<Rightarrow> run_out \<times> closer list \<times> 'w \<times> cred_store" where
  "run_turns env cfg 0 ds ws = (Running, ds, ws)"
| "run_turns env cfg (Suc n) ds ws =
     (case run_turn env cfg ws of
        (e, cs, ws1) \<Rightarrow>
          if e = Creds_panic then (Panicked, [], ws1)
          else (case pause_after e of
              None \<Rightarrow> run_turns env cfg n (ds @ cs) ws1
            | Some d \<Rightarrow> (case re_wait env d ws1 of
                (True, ws2) \<Rightarrow> (Returned, [], ws2)
              | (False, ws2) \<Rightarrow> run_turns env cfg n (ds @ cs) ws2)))"

section \<open>Cached credentials that the server refuses\<close>

lemma run_turn_refused:
  assumes "getStreamCache s (rc_id cfg) = Some (a, s)" and "cache_lookup (heap s a) (rc_link cfg) (re_now env w) = Some cr"
    and "\<And>st w. \<exists>w'. re_stage env st cr (w, s) = (st \<noteq> Allocate, (w', s)) \<and> re_now env w' \<le> re_now env w + d" and "0 \<le> d"
  shows "\<exists>w'. run_turn env cfg (w, s) = (Failed Allocate, [Close_conn, Close_client], (w', s)) \<and> re_now env w' \<le> re_now env w + 4 * d"
proof -
  obtain user pass addr where cr: "cr = (user, pass, addr)" by (metis surj_pair)
  obtain w1 where 1: "re_stage env (Dial (rc_udp cfg) (dial_addr cfg addr)) cr (w, s) = (True, (w1, s))" "re_now env w1 \<le> re_now env w + d"
    using assms(3) [of "Dial (rc_udp cfg) (dial_addr cfg addr)" w] by auto
  obtain w2 where 2: "re_stage env New_client cr (w1, s) = (True, (w2, s))" "re_now env w2 \<le> re_now env w1 + d" using assms(3) [of New_client w1] by auto
  obtain w3 where 3: "re_stage env Listen cr (w2, s) = (True, (w3, s))" "re_now env w3 \<le> re_now env w2 + d" using assms(3) [of Listen w2] by auto
  obtain w4 where 4: "re_stage env Allocate cr (w3, s) = (False, (w4, s))" "re_now env w4 \<le> re_now env w3 + d" using assms(3) [of Allocate w3] by auto
  have "getCredsCached (re_now env) (re_ctx env) (re_fetch env) (rc_link cfg) (rc_id cfg) (w, s) = Some (Inr cr, w, s)"
    using assms(1,2) by (simp add: getCredsCached_def)
  then have "run_turn env cfg (w, s) = (Failed Allocate, [Close_conn, Close_client], (w4, s))"
    using 1(1) 2(1) 3(1) 4(1) unfolding cr by (simp add: run_turn_def stages_def)
  then show ?thesis using 1(2) 2(2) 3(2) 4(2) by auto
qed

text \<open>
  C13.  Credentials that the TURN server refuses are used again: while they are in the cache, up to their expiry, a stream whose
  allocation fails goes through the loop any number of times without a pause, without looking at its context, without
  a new fetch or an entry in the error counter, and each time leaves a connection and a client open.
\<close>

theorem refused_credentials_retried:
  assumes "getStreamCache s (rc_id cfg) = Some (a, s)" and "cache_lookup (heap s a) (rc_link cfg) (re_now env w) = Some cr"
    and "\<forall>st w. \<exists>w'. re_stage env st cr (w, s) = (st \<noteq> Allocate, (w', s)) \<and> re_now env w' \<le> re_now env w + d" and "0 \<le> d"
    and "re_now env w + int n * (4 * d) < ExpiresAt (creds (heap s a))"
  shows "\<exists>w'. run_turns env cfg n ds (w, s) = (Running, ds @ concat (replicate n [Close_conn, Close_client]), (w', s))"
  using assms(2,5)
proof (induction n arbitrary: w ds)
  case 0
  show ?case by simp
next
  case (Suc n)
  have st: "\<And>st w. \<exists>w'. re_stage env st cr (w, s) = (st \<noteq> Allocate, (w', s)) \<and> re_now env w' \<le> re_now env w + d" using assms(3) by blast
  obtain w1 where w1: "run_turn env cfg (w, s) = (Failed Allocate, [Close_conn, Close_client], (w1, s))" "re_now env w1 \<le> re_now env w + 4 * d"
    using run_turn_refused [OF assms(1) Suc.prems(1) st assms(4)] by blast
  have t: "re_now env w1 + int n * (4 * d) < ExpiresAt (creds (heap s a))" using w1(2) Suc.prems(2) by (simp add: algebra_simps)
  moreover have "0 \<le> int n * (4 * d)" using assms(4) by simp
  ultimately have "re_now env w1 < ExpiresAt (creds (heap s a))" by linarith
  then have "cache_lookup (heap s a) (rc_link cfg) (re_now env w1) = Some cr"
    using Suc.prems(1) by (auto simp: cache_lookup_def split: if_splits)
  from Suc.IH [OF this t, of "ds @ [Close_conn, Close_client]"] w1(1) show ?case by simp
qed


definition refusing_env :: "int run_env" where
  "refusing_env = \<lparr>re_now = (\<lambda>w. w), re_ctx = (\<lambda>_. Some ''context canceled''), re_fetch = (\<lambda>_ ws. (Inl ''no'', ws)),
     re_stage = (\<lambda>st _ (w, s). (st \<noteq> Allocate, (w + 1, s))), re_relay = (\<lambda>ws. (None, ws)), re_wait = (\<lambda>_ ws. (True, ws))\<rparr>"

definition test_cfg :: run_config where
  "test_cfg = \<lparr>rc_id = 0, rc_link = ''l'', rc_udp = True, rc_turnIp = [], rc_turnPort = 0\<rparr>"

definition filled_store :: cred_store where
  "filled_store = (empty_store 4)\<lparr>caches := [0 \<mapsto> 0], heap := (\<lambda>_. cache_put ''l'' 0 (''u'', ''p'', ''a'') empty_cache), fresh := 1\<rparr>"

theorem refused_credentials_retried_witness:
  "\<exists>w'. run_turns refusing_env test_cfg 1000 [] (0, filled_store) = (Running, [] @ concat (replicate 1000 [Close_conn, Close_client]), (w', filled_store))"
proof (rule refused_credentials_retried [where d = 1])
  show "getStreamCache filled_store (rc_id test_cfg) = Some (0, filled_store)"
    by (simp add: getStreamCache_def getCacheID_def filled_store_def test_cfg_def empty_store_def)
  show "cache_lookup (heap filled_store 0) (rc_link test_cfg) (re_now refusing_env 0) = Some (''u'', ''p'', ''a'')"
    by (simp add: cache_lookup_def cache_put_def filled_store_def test_cfg_def refusing_env_def tg_consts)
  show "re_now refusing_env 0 + int 1000 * (4 * 1) < ExpiresAt (creds (heap filled_store 0))"
    by (simp add: cache_put_def filled_store_def refusing_env_def tg_consts)
qed (simp_all add: refusing_env_def)

section \<open>The goroutines of a relay\<close>

text \<open>
  runNoDTLS and runDTLS wait for their goroutines.  A step is of the goroutines themselves, or needs the
  network: a packet, a failure of a socket, the end of the handshake.
\<close>

datatype gor = Tx | Rx | Pipe_tx | Relay_rx | Deadline
datatype main_pc = Handshaking | Waiting | Main_returned

record relay_sys =
  rs_done :: bool
  rs_closed :: bool
  rs_running :: "gor set"
  rs_main :: main_pc


definition stop_gor :: "gor \<Rightarrow> relay_sys \<Rightarrow> relay_sys" where
  "stop_gor g s = s\<lparr>rs_done := True, rs_running := rs_running s - {g}\<rparr>"


definition dtls_start :: relay_sys where
  "dtls_start = \<lparr>rs_done = False, rs_closed = False, rs_running = {Pipe_tx, Relay_rx, Deadline}, rs_main = Handshaking\<rparr>"

definition dtls_return :: "relay_sys \<Rightarrow> relay_sys" where
  "dtls_return s = s\<lparr>rs_main := Main_returned, rs_done := True, rs_closed := True\<rparr>"

text \<open>
  runDTLS.  AfterFunc closes the relay and the pipe once the context is done, which ends the reads
  on them; the handshake fails then.  It returns early when the handshake or the session message fails.
\<close>

inductive dtls_step :: "bool \<Rightarrow> relay_sys \<Rightarrow> relay_sys \<Rightarrow> bool" where
  d_cancel: "\<not> rs_done s \<Longrightarrow> dtls_step False s (s\<lparr>rs_done := True\<rparr>)"
| d_after: "rs_done s \<Longrightarrow> \<not> rs_closed s \<Longrightarrow> dtls_step False s (s\<lparr>rs_closed := True\<rparr>)"
| d_handshake_ok: "rs_main s = Handshaking \<Longrightarrow>
    dtls_step True s (s\<lparr>rs_main := Waiting, rs_running := rs_running s \<union> {Tx, Rx}\<rparr>)"
| d_handshake_error: "rs_main s = Handshaking \<Longrightarrow> dtls_step True s (dtls_return s)"
| d_handshake_done: "rs_main s = Handshaking \<Longrightarrow> rs_done s \<Longrightarrow> dtls_step False s (dtls_return s)"
| d_select: "g \<in> rs_running s \<Longrightarrow> g \<in> {Tx, Deadline} \<Longrightarrow> rs_done s \<Longrightarrow> dtls_step False s (stop_gor g s)"
| d_read_closed: "g \<in> rs_running s \<Longrightarrow> g \<in> {Rx, Pipe_tx, Relay_rx} \<Longrightarrow> rs_closed s \<Longrightarrow> dtls_step False s (stop_gor g s)"
| d_packet: "g \<in> rs_running s \<Longrightarrow> dtls_step True s s"
| d_error: "g \<in> rs_running s \<Longrightarrow> g \<noteq> Deadline \<Longrightarrow> dtls_step True s (stop_gor g s)"
| d_return: "rs_main s = Waiting \<Longrightarrow> rs_running s = {} \<Longrightarrow> dtls_step False s (dtls_return s)"

inductive_cases dtls_stepE: "dtls_step False s s'"

lemmas relay_defs = stop_gor_def dtls_return_def







section \<open>The end of a DTLS stream\<close>

definition dtls_measure :: "relay_sys \<Rightarrow> nat" where
  "dtls_measure s = (if rs_done s then 0 else 1) + (if rs_closed s then 0 else 1) + card (rs_running s) + (if rs_main s = Main_returned then 0 else 1)"

lemma gor_finite [simp]: "finite (A :: gor set)"
proof -
  have "(UNIV :: gor set) \<subseteq> {Tx, Rx, Pipe_tx, Relay_rx, Deadline}" using gor.exhaust by auto
  then show ?thesis by (meson finite.emptyI finite.insertI finite_subset subset_UNIV)
qed

lemma gor_card: "g \<in> rs_running s \<Longrightarrow> 0 < card (rs_running s)"
  by (auto simp: card_gt_0_iff)

interpretation dtls_left: steps_down "dtls_step False" dtls_measure
  by unfold_locales (erule dtls_stepE, auto simp: dtls_measure_def relay_defs dest: gor_card)

lemma dtls_stuck:
  assumes "rs_done s" and "\<And>s'. \<not> dtls_step False s s'"
  shows "rs_main s = Main_returned \<and> rs_running s = {} \<and> rs_closed s"
proof -
  have c: "rs_closed s" using assms d_after by blast
  have "g \<notin> rs_running s" for g
  proof (cases g)
    case Tx then show ?thesis using assms d_select [of Tx s] by auto
  next
    case Deadline then show ?thesis using assms d_select [of Deadline s] by auto
  next
    case Rx then show ?thesis using assms(2) c d_read_closed [of Rx s] by auto
  next
    case Pipe_tx then show ?thesis using assms(2) c d_read_closed [of Pipe_tx s] by auto
  next
    case Relay_rx then show ?thesis using assms(2) c d_read_closed [of Relay_rx s] by auto
  qed
  then have r: "rs_running s = {}" by auto
  then have "rs_main s \<noteq> Waiting" "rs_main s \<noteq> Handshaking" using assms d_return d_handshake_done by blast+
  then show ?thesis using r c by (cases "rs_main s") auto
qed

interpretation cancelled: kept_by_steps "dtls_step False" rs_done
  by unfold_locales (auto elim!: dtls_stepE simp: relay_defs)

lemma dtls_running_le: "card (rs_running s) \<le> 5"
proof -
  have "rs_running s \<subseteq> {Tx, Rx, Pipe_tx, Relay_rx, Deadline}" using gor.exhaust by auto
  then have "card (rs_running s) \<le> card {Tx, Rx, Pipe_tx, Relay_rx, Deadline}" by (intro card_mono) simp_all
  then show ?thesis by simp
qed

text \<open>
  C9.  With DTLS a stream does stop: from any state of the goroutines in which the context is done, however the steps are scheduled and
  without help of the network, at most seven steps are left, and when none is left runDTLS has returned,
  all goroutines have ended and the relay is closed.
\<close>

theorem dtls_stops:
  assumes "rs_done s" and "(dtls_step False ^^ m) s s'"
  shows "m \<le> 7 \<and> ((\<forall>s''. \<not> dtls_step False s' s'') \<longrightarrow> rs_main s' = Main_returned \<and> rs_running s' = {} \<and> rs_closed s')"
proof -
  have "m + dtls_measure s' \<le> dtls_measure s" using dtls_left.steps_bounded [OF assms(2)] .
  moreover have "dtls_measure s \<le> 7" using assms(1) dtls_running_le [of s] by (simp add: dtls_measure_def)
  ultimately have "m \<le> 7" by simp
  have "rs_done s'" using cancelled.after_steps [OF assms(2,1)] .
  then show ?thesis using \<open>m \<le> 7\<close> dtls_stuck by blast
qed

theorem dtls_stops_witness:
  "\<exists>s'. (dtls_step False ^^ 5) (dtls_start\<lparr>rs_done := True\<rparr>) s' \<and> rs_main s' = Main_returned \<and> rs_running s' = {} \<and> rs_closed s'"
proof -
  let ?s0 = "dtls_start\<lparr>rs_done := True\<rparr>" let ?s1 = "?s0\<lparr>rs_closed := True\<rparr>" let ?s2 = "dtls_return ?s1"
  let ?s3 = "stop_gor Deadline ?s2" let ?s4 = "stop_gor Pipe_tx ?s3" let ?s5 = "stop_gor Relay_rx ?s4"
  have "dtls_step False ?s0 ?s1" by (rule d_after) (simp_all add: dtls_start_def)
  moreover have "dtls_step False ?s1 ?s2" by (rule d_handshake_done) (simp_all add: dtls_start_def)
  moreover have "dtls_step False ?s2 ?s3" by (rule d_select) (simp_all add: dtls_start_def relay_defs)
  moreover have "dtls_step False ?s3 ?s4" by (rule d_read_closed) (simp_all add: dtls_start_def relay_defs)
  moreover have "dtls_step False ?s4 ?s5" by (rule d_read_closed) (simp_all add: dtls_start_def relay_defs)
  ultimately have r: "(dtls_step False ^^ 5) ?s0 ?s5" by (auto simp: numeral_eq_Suc OO_def)
  have run: "rs_running ?s5 = {}" "rs_main ?s5 = Main_returned" by (auto simp: dtls_start_def relay_defs)
  have "\<forall>s'. \<not> dtls_step False ?s5 s'"
  proof (intro allI notI)
    fix s' assume "dtls_step False ?s5 s'"
    then show False using run by (cases rule: dtls_stepE) (auto simp: relay_defs)
  qed
  moreover have "rs_done ?s0" by simp
  ultimately show ?thesis using dtls_stops [OF _ r] r by blast
qed

end
