(* ===== verification/Client_Config.thy ===== *)
theory Client_Config
  imports Credentials Go_Net
begin

text \<open>
  The configuration file of the client (internal/core/config.go): the structure and its defaults, loading, saving, the example
  and where the file is looked for.  Reading and printing JSON are parameters (\<open>parse\<close>, \<open>prnt\<close>); decoding the parsed value into the
  structure is written out.  Keys are compared after ASCII lower-casing.
\<close>

section \<open>The configuration\<close>

record VPNConfigSection =
  Enabled :: bool
  PrivateKey :: string
  ServerKey :: string
  VpnServerAddr :: string
  AllowedIPs :: string
  MTU :: int
  Keepalive :: int

record Config =
  VKLink :: string
  Peer :: string
  ListenAddr :: string
  WrapKey :: string
  Streams :: int
  UDP :: bool
  Mode :: string
  PeerType :: string
  VPN :: VPNConfigSection
  AutoUpdate :: bool

definition DefaultConfig :: Config where
  "DefaultConfig = \<lparr>VKLink = [], Peer = [], ListenAddr = ''127.0.0.1:9000'', WrapKey = [], Streams = 4, UDP = False, Mode = ''vk_link'',
     PeerType = ''proxy_v1'', VPN = \<lparr>Enabled = False, PrivateKey = [], ServerKey = [], VpnServerAddr = ''127.0.0.1:9000'',
       AllowedIPs = ''0.0.0.0/0, ::0'', MTU = 1280, Keepalive = 25\<rparr>, AutoUpdate = True\<rparr>"

text \<open>
  Decoding into a field: null leaves it, another type is an error.  An integer literal of the file is a
  \<^term>\<open>JInt\<close>, another number a \<^term>\<open>JNumber\<close>, which Go refuses for an int.
\<close>

definition dec_str :: "json \<Rightarrow> string \<Rightarrow> string option" where
  "dec_str j old = (case j of JString s \<Rightarrow> Some s | JNull \<Rightarrow> Some old | _ \<Rightarrow> None)"

definition dec_bool :: "json \<Rightarrow> bool \<Rightarrow> bool option" where
  "dec_bool j old = (case j of JBool b \<Rightarrow> Some b | JNull \<Rightarrow> Some old | _ \<Rightarrow> None)"

definition dec_int :: "json \<Rightarrow> int \<Rightarrow> int option" where
  "dec_int j old = (case j of JInt i \<Rightarrow> if - (2 ^ 63) \<le> i \<and> i < 2 ^ 63 then Some i else None | JNull \<Rightarrow> Some old | _ \<Rightarrow> None)"

definition vpn_field :: "string \<times> json \<Rightarrow> VPNConfigSection \<Rightarrow> VPNConfigSection option" where
  "vpn_field kv v = (let k = to_lower (fst kv); j = snd kv in
     if k = ''enabled'' then map_option (\<lambda>x. v\<lparr>Enabled := x\<rparr>) (dec_bool j (Enabled v))
     else if k = ''private_key'' then map_option (\<lambda>x. v\<lparr>PrivateKey := x\<rparr>) (dec_str j (PrivateKey v))
     else if k = ''server_key'' then map_option (\<lambda>x. v\<lparr>ServerKey := x\<rparr>) (dec_str j (ServerKey v))
     else if k = ''server_addr'' then map_option (\<lambda>x. v\<lparr>VpnServerAddr := x\<rparr>) (dec_str j (VpnServerAddr v))
     else if k = ''allowed_ips'' then map_option (\<lambda>x. v\<lparr>AllowedIPs := x\<rparr>) (dec_str j (AllowedIPs v))
     else if k = ''mtu'' then map_option (\<lambda>x. v\<lparr>MTU := x\<rparr>) (dec_int j (MTU v))
     else if k = ''keepalive'' then map_option (\<lambda>x. v\<lparr>Keepalive := x\<rparr>) (dec_int j (Keepalive v))
     else Some v)"

definition dec_fields :: "(string \<times> json \<Rightarrow> 'a \<Rightarrow> 'a option) \<Rightarrow> (string \<times> json) list \<Rightarrow> 'a \<Rightarrow> 'a option" where
  "dec_fields f m old = fold (\<lambda>kv r. case r of None \<Rightarrow> None | Some x \<Rightarrow> f kv x) m (Some old)"

definition dec_obj :: "(string \<times> json \<Rightarrow> 'a \<Rightarrow> 'a option) \<Rightarrow> json \<Rightarrow> 'a \<Rightarrow> 'a option" where
  "dec_obj f j old = (case j of JObj m \<Rightarrow> dec_fields f m old | JNull \<Rightarrow> Some old | _ \<Rightarrow> None)"

definition config_field :: "string \<times> json \<Rightarrow> Config \<Rightarrow> Config option" where
  "config_field kv c = (let k = to_lower (fst kv); j = snd kv in
     if k = ''vk_link'' then map_option (\<lambda>x. c\<lparr>VKLink := x\<rparr>) (dec_str j (VKLink c))
     else if k = ''peer'' then map_option (\<lambda>x. c\<lparr>Peer := x\<rparr>) (dec_str j (Peer c))
     else if k = ''listen'' then map_option (\<lambda>x. c\<lparr>ListenAddr := x\<rparr>) (dec_str j (ListenAddr c))
     else if k = ''wrap_key'' then map_option (\<lambda>x. c\<lparr>WrapKey := x\<rparr>) (dec_str j (WrapKey c))
     else if k = ''streams'' then map_option (\<lambda>x. c\<lparr>Streams := x\<rparr>) (dec_int j (Streams c))
     else if k = ''udp'' then map_option (\<lambda>x. c\<lparr>UDP := x\<rparr>) (dec_bool j (UDP c))
     else if k = ''mode'' then map_option (\<lambda>x. c\<lparr>Mode := x\<rparr>) (dec_str j (Mode c))
     else if k = ''peer_type'' then map_option (\<lambda>x. c\<lparr>PeerType := x\<rparr>) (dec_str j (PeerType c))
     else if k = ''vpn'' then map_option (\<lambda>x. c\<lparr>VPN := x\<rparr>) (dec_obj vpn_field j (VPN c))
     else if k = ''auto_update'' then map_option (\<lambda>x. c\<lparr>AutoUpdate := x\<rparr>) (dec_bool j (AutoUpdate c))
     else Some c)"

datatype config_error = No_file | Bad_config | Link_required | Peer_required

text \<open>The defaults of the empty optional fields.\<close>

definition or_str :: "string \<Rightarrow> string \<Rightarrow> string" where "or_str s d = (if s = [] then d else s)"
definition or_int :: "int \<Rightarrow> int \<Rightarrow> int" where "or_int i d = (if i = 0 then d else i)"

definition config_defaults :: "Config \<Rightarrow> Config" where
  "config_defaults c = c\<lparr>ListenAddr := or_str (ListenAddr c) ''127.0.0.1:9000'', Mode := or_str (Mode c) ''vk_link'',
     PeerType := or_str (PeerType c) ''proxy_v1'', Streams := or_int (Streams c) 4,
     VPN := (VPN c)\<lparr>AllowedIPs := or_str (AllowedIPs (VPN c)) ''0.0.0.0/0, ::0'', MTU := or_int (MTU (VPN c)) 1280,
       Keepalive := or_int (Keepalive (VPN c)) 25,
       VpnServerAddr := or_str (VpnServerAddr (VPN c)) (or_str (ListenAddr c) ''127.0.0.1:9000'')\<rparr>\<rparr>"

lemma or_default: "s \<noteq> [] \<Longrightarrow> or_str s d = s" "i \<noteq> 0 \<Longrightarrow> or_int i e = i" "d \<noteq> [] \<Longrightarrow> or_str s d \<noteq> []" "e \<noteq> 0 \<Longrightarrow> or_int i e \<noteq> 0"
  "or_int 0 e = e"
  by (simp_all add: or_str_def or_int_def)

text \<open>\<open>parse\<close> is the parser of encoding/json; the file system is a map from paths to contents.\<close>

definition LoadConfig :: "(string \<Rightarrow> json option) \<Rightarrow> (string \<rightharpoonup> string) \<Rightarrow> string \<Rightarrow> (config_error, Config) result" where
  "LoadConfig parse fs path =
     (case fs path of
        None \<Rightarrow> Inl No_file
      | Some data \<Rightarrow>
          (case parse data of
             None \<Rightarrow> Inl Bad_config
           | Some j \<Rightarrow>
               (case dec_obj config_field j DefaultConfig of
                  None \<Rightarrow> Inl Bad_config
                | Some c \<Rightarrow>
                    if VKLink c = [] then Inl Link_required
                    else if Peer c = [] then Inl Peer_required
                    else Inr (config_defaults c))))"

definition vpn_json :: "VPNConfigSection \<Rightarrow> json" where
  "vpn_json v = JObj [(''enabled'', JBool (Enabled v)), (''private_key'', JString (PrivateKey v)), (''server_key'', JString (ServerKey v)),
     (''server_addr'', JString (VpnServerAddr v)), (''allowed_ips'', JString (AllowedIPs v)), (''mtu'', JInt (MTU v)), (''keepalive'', JInt (Keepalive v))]"

definition config_json :: "Config \<Rightarrow> json" where
  "config_json c = JObj [(''vk_link'', JString (VKLink c)), (''peer'', JString (Peer c)), (''listen'', JString (ListenAddr c)),
     (''wrap_key'', JString (WrapKey c)), (''streams'', JInt (Streams c)), (''udp'', JBool (UDP c)), (''mode'', JString (Mode c)),
     (''peer_type'', JString (PeerType c)), (''vpn'', vpn_json (VPN c)), (''auto_update'', JBool (AutoUpdate c))]"

text \<open>\<open>prnt\<close> is MarshalIndent; \<open>write\<close> is os.WriteFile, whose failure may leave a part of the file.\<close>

type_synonym files = "string \<rightharpoonup> string"
type_synonym file_write = "string \<Rightarrow> string \<Rightarrow> files \<Rightarrow> bool \<times> files"

definition writes :: "file_write \<Rightarrow> bool" where
  "writes write \<longleftrightarrow> (\<forall>p d fs fs'. write p d fs = (True, fs') \<longrightarrow> fs' = fs(p \<mapsto> d))"

definition SaveConfig :: "(json \<Rightarrow> string) \<Rightarrow> file_write \<Rightarrow> Config \<Rightarrow> string \<Rightarrow> files \<Rightarrow> bool \<times> files" where
  "SaveConfig prnt write c path fs = write path (prnt (config_json c)) fs"

definition example_config :: "bytes \<Rightarrow> Config" where
  "example_config key = DefaultConfig\<lparr>VKLink := ''https://vk.com/call/join/your_link_here'', Peer := ''your.server.com:56001'',
     WrapKey := hex_encode key, VPN := (VPN DefaultConfig)\<lparr>Enabled := True, PrivateKey := ''your_client_private_key_hex_64_chars'',
       ServerKey := ''your_server_public_key_hex_64_chars''\<rparr>\<rparr>"

definition GenerateExampleConfig :: "(nat \<Rightarrow> 'w \<Rightarrow> bytes option \<times> 'w) \<Rightarrow> (json \<Rightarrow> string) \<Rightarrow> file_write \<Rightarrow> string \<Rightarrow>
    'w \<Rightarrow> files \<Rightarrow> bool \<times> 'w \<times> files" where
  "GenerateExampleConfig rand prnt write path w fs =
     (case rand 32 w of
        (None, w1) \<Rightarrow> (False, w1, fs)
      | (Some key, w1) \<Rightarrow> (case SaveConfig prnt write (example_config key) path fs of (r, fs') \<Rightarrow> (r, w1, fs')))"

text \<open>\<open>home\<close> is os.UserHomeDir, \<open>exists_file\<close> os.Stat without an error; paths are those of Linux.\<close>

definition DefaultConfigPath :: "string option \<Rightarrow> (string \<Rightarrow> bool) \<Rightarrow> string" where
  "DefaultConfigPath home exists_file =
     (let user = (case home of Some h \<Rightarrow> Some (h @ ''/.config/turnguard/config.json'') | None \<Rightarrow> None) in
      if exists_file ''config.json'' then ''config.json''
      else (case user of
          Some p \<Rightarrow> if exists_file p then p
            else if exists_file ''/etc/turnguard/config.json'' then ''/etc/turnguard/config.json'' else ''config.json''
        | None \<Rightarrow> if exists_file ''/etc/turnguard/config.json'' then ''/etc/turnguard/config.json'' else ''config.json''))"

section \<open>What is saved is loaded\<close>

lemma dec_fields_simps:
  "dec_fields f [] x = Some x" "dec_fields f (kv # m) x = (case f kv x of None \<Rightarrow> None | Some y \<Rightarrow> dec_fields f m y)"
proof -
  have n: "fold (\<lambda>kv r. case r of None \<Rightarrow> None | Some x \<Rightarrow> f kv x) m None = None" for m by (induction m) auto
  show "dec_fields f [] x = Some x" "dec_fields f (kv # m) x = (case f kv x of None \<Rightarrow> None | Some y \<Rightarrow> dec_fields f m y)"
    by (auto simp: dec_fields_def n split: option.split)
qed

definition int64_config :: "Config \<Rightarrow> bool" where
  "int64_config c \<longleftrightarrow> list_all (\<lambda>i. - (2 ^ 63) \<le> i \<and> i < 2 ^ 63) [Streams c, MTU (VPN c), Keepalive (VPN c)]"

lemma dec_same: "dec_str (JString s) x = Some s" "dec_bool (JBool b) y = Some b"
  "- (2 ^ 63) \<le> i \<Longrightarrow> i < 2 ^ 63 \<Longrightarrow> dec_int (JInt i) z = Some i"
  by (simp_all add: dec_str_def dec_bool_def dec_int_def)

lemma vpn_json_dec:
  assumes "list_all (\<lambda>i. - (2 ^ 63) \<le> i \<and> i < 2 ^ 63) [MTU v, Keepalive v]"
  shows "dec_obj vpn_field (vpn_json v) old = Some v"
  using assms by (simp add: dec_obj_def vpn_json_def dec_fields_simps vpn_field_def to_lower_def to_lower_char_def dec_same)

lemma config_json_dec:
  assumes "int64_config c"
  shows "dec_obj config_field (config_json c) old = Some c"
proof -
  have "dec_obj vpn_field (vpn_json (VPN c)) x = Some (VPN c)" for x using assms by (intro vpn_json_dec) (simp add: int64_config_def)
  then show ?thesis using assms
    by (simp add: dec_obj_def [of config_field] config_json_def dec_fields_simps config_field_def to_lower_def to_lower_char_def dec_same int64_config_def)
qed

text \<open>
  C39.  Saving and loading: what SaveConfig writes, LoadConfig reads back as the same configuration up to the defaults of empty
  fields, in any file system and over any older file, when the link and the peer are set; a fully set configuration comes back
  unchanged, but a keepalive of 0, which means disabled, comes back as 25.
\<close>

theorem config_roundtrip:
  assumes "parse (prnt (config_json c)) = Some (config_json c)" and "int64_config c" and "VKLink c \<noteq> []" and "Peer c \<noteq> []"
    and "writes write" and "SaveConfig prnt write c path fs = (True, fs')"
  shows "LoadConfig parse fs' path = Inr (config_defaults c) \<and>
    (ListenAddr c \<noteq> [] \<and> Mode c \<noteq> [] \<and> PeerType c \<noteq> [] \<and> Streams c \<noteq> 0 \<and> AllowedIPs (VPN c) \<noteq> [] \<and> MTU (VPN c) \<noteq> 0 \<and> VpnServerAddr (VPN c) \<noteq> [] \<longrightarrow>
      LoadConfig parse fs' path = Inr (if Keepalive (VPN c) = 0 then c\<lparr>VPN := (VPN c)\<lparr>Keepalive := 25\<rparr>\<rparr> else c))"
proof -
  have "fs' path = Some (prnt (config_json c))" using assms(5,6) unfolding SaveConfig_def writes_def by (metis fun_upd_same)
  then have "LoadConfig parse fs' path = Inr (config_defaults c)" using assms(1,3,4) config_json_dec [OF assms(2)] by (simp add: LoadConfig_def)
  moreover have "config_defaults c = (if Keepalive (VPN c) = 0 then c\<lparr>VPN := (VPN c)\<lparr>Keepalive := 25\<rparr>\<rparr> else c)"
    if "ListenAddr c \<noteq> []" "Mode c \<noteq> []" "PeerType c \<noteq> []" "Streams c \<noteq> 0" "AllowedIPs (VPN c) \<noteq> []" "MTU (VPN c) \<noteq> 0" "VpnServerAddr (VPN c) \<noteq> []"
    using that by (simp add: config_defaults_def or_default)
  ultimately show ?thesis by auto
qed


definition test_config :: Config where
  "test_config = (example_config (replicate 32 7))\<lparr>Streams := 3\<rparr>"

text \<open>A parser that knows the one text it is used on.\<close>

definition parse_test :: "string \<Rightarrow> json option" where
  "parse_test t = (if t = json_text (\<lambda>_. []) True (config_json test_config) then Some (config_json test_config) else None)"

theorem config_roundtrip_witness:
  "LoadConfig parse_test [''c'' \<mapsto> json_text (\<lambda>_. []) True (config_json test_config)] ''c'' = Inr test_config"
proof -
  have s: "SaveConfig (json_text (\<lambda>_. []) True) (\<lambda>p d fs. (True, fs(p \<mapsto> d))) test_config ''c'' Map.empty =
      (True, [''c'' \<mapsto> json_text (\<lambda>_. []) True (config_json test_config)])" by (simp add: SaveConfig_def)
  have f: "int64_config test_config" "VKLink test_config \<noteq> []" "Peer test_config \<noteq> []" "writes (\<lambda>p d fs. (True, fs(p \<mapsto> d)))"
    "ListenAddr test_config \<noteq> [] \<and> Mode test_config \<noteq> [] \<and> PeerType test_config \<noteq> [] \<and> Streams test_config \<noteq> 0 \<and>
     AllowedIPs (VPN test_config) \<noteq> [] \<and> MTU (VPN test_config) \<noteq> 0 \<and> VpnServerAddr (VPN test_config) \<noteq> []" "Keepalive (VPN test_config) \<noteq> 0"
    by (simp_all add: test_config_def example_config_def DefaultConfig_def int64_config_def writes_def)
  have p: "parse_test (json_text (\<lambda>_. []) True (config_json test_config)) = Some (config_json test_config)" by (simp add: parse_test_def)
  from conjunct2 [OF config_roundtrip [where parse = parse_test, OF p f(1,2,3,4) s]] f(5,6) show ?thesis by simp
qed

lemma dec_fields_keep:
  assumes "\<And>kv x y. kv \<in> set m \<Longrightarrow> f kv x = Some y \<Longrightarrow> g y = g x" and "dec_fields f m x = Some y"
  shows "g y = g x"
  using assms
proof (induction m arbitrary: x)
  case (Cons kv m)
  then obtain x1 where "f kv x = Some x1" "dec_fields f m x1 = Some y" by (auto simp: dec_fields_simps split: option.splits)
  then show ?case using Cons by (metis list.set_intros)
qed (simp add: dec_fields_simps)

lemma vpn_field_addr: "vpn_field kv v = Some v' \<Longrightarrow> to_lower (fst kv) \<noteq> ''server_addr'' \<Longrightarrow> VpnServerAddr v' = VpnServerAddr v"
  by (auto simp: vpn_field_def Let_def split: if_splits)

lemma config_field_addr:
  assumes "config_field kv c = Some c'" and "to_lower (fst kv) = ''vpn'' \<longrightarrow> (\<exists>v. snd kv = JObj v \<and> ''server_addr'' \<notin> (to_lower \<circ> fst) ` set v)"
  shows "VpnServerAddr (VPN c') = VpnServerAddr (VPN c)"
proof (cases "to_lower (fst kv) = ''vpn''")
  case True
  then obtain v where v: "snd kv = JObj v" "''server_addr'' \<notin> (to_lower \<circ> fst) ` set v" using assms(2) by auto
  have "dec_fields vpn_field v (VPN c) = Some (VPN c')" using assms(1) True v(1) by (auto simp: config_field_def Let_def dec_obj_def)
  then show ?thesis by (rule dec_fields_keep [rotated]) (metis comp_apply image_eqI v(2) vpn_field_addr)
next
  case False
  then show ?thesis using assms(1) by (auto simp: config_field_def Let_def split: if_splits)
qed

text \<open>
  What a file leaves out: a configuration that loads has a link, a peer, addresses, a mode, a peer type and allowed
  addresses, and its number of streams, MTU and keepalive are not 0 (but may be negative); and a file that sets the local
  address and no address of the VPN's server keeps 127.0.0.1:9000 for it, although the default is meant to be the local address.
\<close>

theorem config_filled:
  assumes "LoadConfig parse fs path = Inr c"
  shows "list_all (\<lambda>s. s \<noteq> []) [VKLink c, Peer c, ListenAddr c, Mode c, PeerType c, AllowedIPs (VPN c), VpnServerAddr (VPN c)] \<and>
    list_all (\<lambda>i. i \<noteq> 0) [Streams c, MTU (VPN c), Keepalive (VPN c)] \<and>
    (\<forall>d m. fs path = Some d \<longrightarrow> parse d = Some (JObj m) \<longrightarrow>
      (\<forall>kv \<in> set m. to_lower (fst kv) = ''vpn'' \<longrightarrow> (\<exists>v. snd kv = JObj v \<and> ''server_addr'' \<notin> (to_lower \<circ> fst) ` set v)) \<longrightarrow>
      VpnServerAddr (VPN c) = ''127.0.0.1:9000'')"
proof -
  obtain d j c0 where d: "fs path = Some d" "parse d = Some j" "dec_obj config_field j DefaultConfig = Some c0" "VKLink c0 \<noteq> []" "Peer c0 \<noteq> []" "c = config_defaults c0"
    using assms by (auto simp: LoadConfig_def split: option.splits if_splits)
  have filled: "list_all (\<lambda>s. s \<noteq> []) [VKLink c, Peer c, ListenAddr c, Mode c, PeerType c, AllowedIPs (VPN c), VpnServerAddr (VPN c)]"
    "list_all (\<lambda>i. i \<noteq> 0) [Streams c, MTU (VPN c), Keepalive (VPN c)]"
    using d(4,5) by (simp_all add: d(6) config_defaults_def or_default)
  have addr: "VpnServerAddr (VPN c) = ''127.0.0.1:9000''" if j: "j = JObj m"
    and m: "\<forall>kv \<in> set m. to_lower (fst kv) = ''vpn'' \<longrightarrow> (\<exists>v. snd kv = JObj v \<and> ''server_addr'' \<notin> (to_lower \<circ> fst) ` set v)" for m
  proof -
    have "dec_fields config_field m DefaultConfig = Some c0" using d(3) j by (simp add: dec_obj_def)
    moreover have "VpnServerAddr (VPN y) = VpnServerAddr (VPN x)" if "kv \<in> set m" "config_field kv x = Some y" for kv x y
      using config_field_addr [OF that(2)] m that(1) by blast
    ultimately have "VpnServerAddr (VPN c0) = VpnServerAddr (VPN DefaultConfig)"
      using dec_fields_keep [of m config_field "\<lambda>c. VpnServerAddr (VPN c)" DefaultConfig c0] by blast
    then have "VpnServerAddr (VPN c0) = ''127.0.0.1:9000''" by (simp add: DefaultConfig_def)
    then show ?thesis by (simp add: d(6) config_defaults_def or_default)
  qed
  show ?thesis using filled addr d(1,2) by auto
qed

definition small_file :: json where
  "small_file = JObj [(''vk_link'', JString ''l''), (''peer'', JString ''p:1''), (''listen'', JString ''127.0.0.1:9100''), (''vpn'', JObj [(''enabled'', JBool True)])]"

theorem config_filled_witness:
  "\<exists>c. LoadConfig (\<lambda>_. Some small_file) [''f'' \<mapsto> ''x''] ''f'' = Inr c \<and> ListenAddr c = ''127.0.0.1:9100'' \<and> VpnServerAddr (VPN c) = ''127.0.0.1:9000''"
proof -
  obtain c where c: "LoadConfig (\<lambda>_. Some small_file) [''f'' \<mapsto> ''x''] ''f'' = Inr c" "ListenAddr c = ''127.0.0.1:9100''"
    by (simp add: LoadConfig_def small_file_def dec_obj_def dec_fields_simps config_field_def vpn_field_def to_lower_def to_lower_char_def dec_same DefaultConfig_def config_defaults_def or_default)
  have "\<forall>kv \<in> set [(''vk_link'', JString ''l''), (''peer'', JString ''p:1''), (''listen'', JString ''127.0.0.1:9100''), (''vpn'', JObj [(''enabled'', JBool True)])].
      to_lower (fst kv) = ''vpn'' \<longrightarrow> (\<exists>v. snd kv = JObj v \<and> ''server_addr'' \<notin> (to_lower \<circ> fst) ` set v)"
    by (simp add: to_lower_def to_lower_char_def)
  then have "VpnServerAddr (VPN c) = ''127.0.0.1:9000''" using config_filled [OF c(1)] by (simp add: small_file_def)
  then show ?thesis using c by blast
qed

end
