(* ===== verification/Vpn_Device.thy ===== *)
theory Vpn_Device
  imports Client_Config
begin

text \<open>
  The WireGuard device (internal/core/vpn.go), the routes that keep the TURN traffic out of the tunnel (internal/core/routes.go) and
  the part of main that starts them (cmd/turnguard/main.go).  The TUN device and the WireGuard library are parameters; what a
  platform command prints is an argument.
\<close>

section \<open>Allowed addresses\<close>

text \<open>\<open>splitComma\<close>: spaces are dropped, an empty last part too.\<close>

fun split_comma_loop :: "string \<Rightarrow> string \<Rightarrow> string list" where
  "split_comma_loop [] current = (if current \<noteq> [] then [current] else [])"
| "split_comma_loop (c # s) current =
     (if c = CHR '','' then current # split_comma_loop s []
      else if c \<noteq> CHR '' '' then split_comma_loop s (current @ [c])
      else split_comma_loop s current)"

definition splitComma :: "string \<Rightarrow> string list" where
  "splitComma s = split_comma_loop s []"

text \<open>\<open>net.ParseCIDR\<close>, as the address before it is masked and the length of the mask.\<close>

definition mask_length :: "nat \<Rightarrow> string \<Rightarrow> nat option" where
  "mask_length bits s =
     (if s \<noteq> [] \<and> list_all (\<lambda>c. 48 \<le> (of_char c :: nat) \<and> of_char c \<le> (57 :: nat)) s \<and> dec_val s \<le> bits
      then Some (dec_val s) else None)"

definition ParseCIDR :: "string \<Rightarrow> (string \<times> nat) option" where
  "ParseCIDR s =
     (if CHR ''/'' \<notin> set s then None
      else (case cut_at CHR ''/'' s of (addr, m) \<Rightarrow>
        if is_ipv4 addr then map_option (Pair addr) (mask_length 32 m)
        else if is_ipv6 addr then map_option (Pair addr) (mask_length 128 m)
        else None))"

fun parse_all :: "string list \<Rightarrow> (string, (string \<times> nat) list) result" where
  "parse_all [] = Inr []"
| "parse_all (c # cs) = (case ParseCIDR c of None \<Rightarrow> Inl c | Some n \<Rightarrow> rbind (parse_all cs) (\<lambda>ns. Inr (n # ns)))"

definition ParseAllowedIPs :: "string \<Rightarrow> (string, (string \<times> nat) list) result" where
  "ParseAllowedIPs s = parse_all (splitComma s)"

definition ValidateKey :: "string \<Rightarrow> bool" where
  "ValidateKey key \<longleftrightarrow> length key = 64 \<and> hex_decode key \<noteq> None"

section \<open>The device\<close>

record VPNConfig =
  vc_PrivateKey :: string
  vc_ServerPubKey :: string
  vc_ServerAddr :: string
  vc_AllowedIPs :: string
  vc_MTU :: int
  vc_Keepalive :: int
  vc_TunnelName :: string

text \<open>tun.CreateTUN, its Name and Close, and the IpcSet and Up of the WireGuard device.\<close>

record 'w tun_env =
  tn_create :: "string \<Rightarrow> int \<Rightarrow> 'w \<Rightarrow> bool \<times> 'w"
  tn_name :: "'w \<Rightarrow> bool \<times> 'w"
  tn_close :: "'w \<Rightarrow> 'w"
  tn_ipc :: "string \<Rightarrow> 'w \<Rightarrow> bool \<times> 'w"
  tn_up :: "'w \<Rightarrow> bool \<times> 'w"

datatype vpn_error = Create_failed | Name_failed | Configure_failed | Up_failed | Short_key_panic

definition nl :: char where "nl = CHR 0x0A"

definition uapi_text :: "VPNConfig \<Rightarrow> string" where
  "uapi_text cfg = ''private_key='' @ vc_PrivateKey cfg @ nl # ''public_key='' @ vc_ServerPubKey cfg @ nl # ''endpoint='' @ vc_ServerAddr cfg @
     nl # ''allowed_ip='' @ vc_AllowedIPs cfg @ nl # ''persistent_keepalive_interval='' @ int_dec (vc_Keepalive cfg) @ [nl]"

definition vpn_defaults :: "VPNConfig \<Rightarrow> VPNConfig" where
  "vpn_defaults cfg = cfg\<lparr>vc_MTU := or_int (vc_MTU cfg) 1280, vc_TunnelName := or_str (vc_TunnelName cfg) ''turnguard0'',
     vc_AllowedIPs := or_str (vc_AllowedIPs cfg) ''0.0.0.0/0, ::0''\<rparr>"

definition StartVPN :: "'w tun_env \<Rightarrow> VPNConfig \<Rightarrow> (vpn_error, 'w, unit) act" where
  "StartVPN env cfg0 w =
     (let cfg = vpn_defaults cfg0 in
      case tn_create env (vc_TunnelName cfg) (vc_MTU cfg) w of
        (False, w1) \<Rightarrow> (Inl Create_failed, w1)
      | (True, w1) \<Rightarrow>
          (case tn_name env w1 of
             (False, w2) \<Rightarrow> (Inl Name_failed, tn_close env w2)
           | (True, w2) \<Rightarrow>
               (case tn_ipc env (uapi_text cfg) w2 of
                  (False, w3) \<Rightarrow> (Inl Configure_failed, tn_close env w3)
                | (True, w3) \<Rightarrow>
                    (case tn_up env w3 of
                       (False, w4) \<Rightarrow> (Inl Up_failed, tn_close env w4)
                     | (True, w4) \<Rightarrow> if length (vc_ServerPubKey cfg) < 16 then (Inl Short_key_panic, w4) else (Inr (), w4)))))"

section \<open>Routes\<close>

datatype platform = Linux | Windows | Darwin | Other_platform

text \<open>
  The commands, each with the arguments runCmd gets; errors of a command are logged only.
  \<open>found\<close> is what the search for the default gateway gives.
\<close>

definition setupRoutingLinux :: "string \<Rightarrow> string list \<Rightarrow> string \<Rightarrow> string \<Rightarrow> string list list" where
  "setupRoutingLinux turnIP vkIPs gateway found =
     (let g = (if gateway = [] then found else gateway) in
      if g = [] then []
      else [''ip'', ''route'', ''add'', turnIP, ''via'', g] # map (\<lambda>ip. [''ip'', ''route'', ''add'', ip @ ''/32'', ''via'', g]) vkIPs)"

definition cleanupRoutingLinux :: "string \<Rightarrow> string list \<Rightarrow> string list list" where
  "cleanupRoutingLinux turnIP vkIPs = [''ip'', ''route'', ''del'', turnIP] # map (\<lambda>ip. [''ip'', ''route'', ''del'', ip @ ''/32'']) vkIPs"

definition setupRoutingWindows :: "string \<Rightarrow> string list \<Rightarrow> string \<Rightarrow> string list list" where
  "setupRoutingWindows turnIP vkIPs gateway = [''route'', ''ADD'', turnIP, gateway] # map (\<lambda>ip. [''route'', ''ADD'', ip, gateway]) vkIPs"

definition cleanupRoutingWindows :: "string \<Rightarrow> string list \<Rightarrow> string list list" where
  "cleanupRoutingWindows turnIP vkIPs = [''route'', ''DELETE'', turnIP] # map (\<lambda>ip. [''route'', ''DELETE'', ip]) vkIPs"

definition setupRoutingDarwin :: "string \<Rightarrow> string list \<Rightarrow> string \<Rightarrow> string \<Rightarrow> string list list" where
  "setupRoutingDarwin turnIP vkIPs gateway found =
     (let g = (if gateway = [] then found else gateway) in
      if g = [] then [] else [''route'', ''add'', turnIP, g] # map (\<lambda>ip. [''route'', ''add'', ip, g]) vkIPs)"

definition cleanupRoutingDarwin :: "string \<Rightarrow> string list \<Rightarrow> string list list" where
  "cleanupRoutingDarwin turnIP vkIPs = [''route'', ''delete'', turnIP] # map (\<lambda>ip. [''route'', ''delete'', ip]) vkIPs"

definition SetupVPNRouting :: "platform \<Rightarrow> string \<Rightarrow> string list \<Rightarrow> string \<Rightarrow> string \<Rightarrow> string list list" where
  "SetupVPNRouting os turnIP vkIPs gateway found =
     (case os of
        Linux \<Rightarrow> setupRoutingLinux turnIP vkIPs gateway found
      | Windows \<Rightarrow> setupRoutingWindows turnIP vkIPs gateway
      | Darwin \<Rightarrow> setupRoutingDarwin turnIP vkIPs gateway found
      | Other_platform \<Rightarrow> [])"

definition CleanupVPNRouting :: "platform \<Rightarrow> string \<Rightarrow> string list \<Rightarrow> string list list" where
  "CleanupVPNRouting os turnIP vkIPs =
     (case os of
        Linux \<Rightarrow> cleanupRoutingLinux turnIP vkIPs
      | Windows \<Rightarrow> cleanupRoutingWindows turnIP vkIPs
      | Darwin \<Rightarrow> cleanupRoutingDarwin turnIP vkIPs
      | Other_platform \<Rightarrow> [])"

lemmas setup_routes_def = SetupVPNRouting_def setupRoutingLinux_def setupRoutingWindows_def setupRoutingDarwin_def
lemmas cleanup_routes_def = CleanupVPNRouting_def cleanupRoutingLinux_def cleanupRoutingWindows_def cleanupRoutingDarwin_def

definition GetVKRelayIPs :: "string list" where
  "GetVKRelayIPs = [''90.156.236.96'', ''5.255.211.241'']"

text \<open>\<open>strings.Fields\<close>, and the gateway in the output of \<open>ip route show default\<close>.\<close>

fun str_fields :: "string \<Rightarrow> string \<Rightarrow> string list" where
  "str_fields [] cur = (if cur = [] then [] else [cur])"
| "str_fields (c # s) cur = (if is_space c then (if cur = [] then [] else [cur]) @ str_fields s [] else str_fields s (cur @ [c]))"

fun after_via :: "string list \<Rightarrow> string" where
  "after_via (p # q # ps) = (if p = ''via'' then q else after_via (q # ps))"
| "after_via _ = []"

definition getDefaultGatewayLinux :: "string option \<Rightarrow> string" where
  "getDefaultGatewayLinux out = (case out of None \<Rightarrow> [] | Some t \<Rightarrow> after_via (str_fields t []))"

fun gateway_line :: "string list \<Rightarrow> string" where
  "gateway_line [] = []"
| "gateway_line (l # ls) = (let l = trim_space l in if prefix ''gateway:'' l then trim_space (trim_prefix ''gateway:'' l) else gateway_line ls)"

definition getDefaultGatewayDarwin :: "string option \<Rightarrow> string" where
  "getDefaultGatewayDarwin out = (case out of None \<Rightarrow> [] | Some t \<Rightarrow> gateway_line (str_split nl t))"

section \<open>The VPN part of main\<close>

definition vpn_of_config :: "Config \<Rightarrow> VPNConfig" where
  "vpn_of_config c = \<lparr>vc_PrivateKey = PrivateKey (VPN c), vc_ServerPubKey = ServerKey (VPN c), vc_ServerAddr = VpnServerAddr (VPN c),
     vc_AllowedIPs = AllowedIPs (VPN c), vc_MTU = MTU (VPN c), vc_Keepalive = Keepalive (VPN c), vc_TunnelName = ''turnguard0''\<rparr>"

datatype main_vpn = Keys_missing | Vpn_failed vpn_error | Vpn_up "string list list"

text \<open>What main does with the VPN section once the proxy runs; on success, the routing commands.\<close>

definition main_start_vpn :: "'w tun_env \<Rightarrow> platform \<Rightarrow> string \<Rightarrow> Config \<Rightarrow> 'w \<Rightarrow> main_vpn \<times> 'w" where
  "main_start_vpn env os found c w =
     (if PrivateKey (VPN c) = [] \<or> ServerKey (VPN c) = [] then (Keys_missing, w)
      else (case StartVPN env (vpn_of_config c) w of
          (Inl e, w') \<Rightarrow> (Vpn_failed e, w')
        | (Inr _, w') \<Rightarrow> (Vpn_up (if AllowedIPs (VPN c) = ''0.0.0.0/0, ::0'' \<or> AllowedIPs (VPN c) = ''0.0.0.0/0''
            then SetupVPNRouting os (Peer c) GetVKRelayIPs [] found else []), w')))"

section \<open>The default allowed addresses\<close>

text \<open>
  The documented syntax of the configuration protocol: the value of an \<open>allowed_ip\<close> key is one address with a mask.
\<close>

definition checks_allowed_ip :: "'w tun_env \<Rightarrow> bool" where
  "checks_allowed_ip env \<longleftrightarrow> (\<forall>t v w w'. tn_ipc env t w = (True, w') \<longrightarrow> ''allowed_ip='' @ v \<in> set (str_split nl t) \<longrightarrow> ParseCIDR v \<noteq> None)"

lemma uapi_lines:
  assumes "nl \<notin> set (vc_PrivateKey cfg)" and "nl \<notin> set (vc_ServerPubKey cfg)" and "nl \<notin> set (vc_ServerAddr cfg)" and "nl \<notin> set (vc_AllowedIPs cfg)"
  shows "''allowed_ip='' @ vc_AllowedIPs cfg \<in> set (str_split nl (uapi_text cfg))"
proof -
  have n: "nl \<notin> set ''private_key=''" "nl \<notin> set ''public_key=''" "nl \<notin> set ''endpoint=''" "nl \<notin> set ''allowed_ip=''" by (simp_all add: nl_def)
  have s: "str_split nl (a @ b @ nl # r) = (a @ b) # str_split nl r" if "nl \<notin> set a" "nl \<notin> set b" for a b r
    using str_split_append [of nl "a @ b" r] that by simp
  show ?thesis unfolding uapi_text_def by (simp only: s [OF n(1) assms(1)] s [OF n(2) assms(2)] s [OF n(3) assms(3)] s [OF n(4) assms(4)] list.set) blast
qed

text \<open>
  The default does not start: with the default value of allowed_ips, or with one address and mask, the VPN of a configuration
  gets the whole text as a single allowed_ip, so no WireGuard device that checks the syntax accepts the default; the TUN device is closed again and
  main stops.  The list is not one for ParseAllowedIPs either, because ::0 has no mask.
\<close>

theorem default_allowed_ips:
  assumes "checks_allowed_ip env" and "AllowedIPs (VPN c) = ''0.0.0.0/0, ::0'' \<or> AllowedIPs (VPN c) = []"
    and "nl \<notin> set (PrivateKey (VPN c))" and "nl \<notin> set (ServerKey (VPN c))" and "nl \<notin> set (VpnServerAddr (VPN c))"
  shows "(\<forall>cmds. fst (main_start_vpn env os found c w) \<noteq> Vpn_up cmds) \<and>
    splitComma ''0.0.0.0/0, ::0'' = [''0.0.0.0/0'', ''::0''] \<and> ParseAllowedIPs ''0.0.0.0/0, ::0'' = Inl ''::0''"
proof -
  let ?cfg = "vpn_defaults (vpn_of_config c)"
  have d: "ParseCIDR ''0.0.0.0/0, ::0'' = None" "splitComma ''0.0.0.0/0, ::0'' = [''0.0.0.0/0'', ''::0'']" "ParseAllowedIPs ''0.0.0.0/0, ::0'' = Inl ''::0''"
    by code_simp+
  have a: "vc_AllowedIPs ?cfg = ''0.0.0.0/0, ::0''" using assms(2) by (auto simp: vpn_defaults_def vpn_of_config_def or_str_def)
  have line: "''allowed_ip='' @ vc_AllowedIPs ?cfg \<in> set (str_split nl (uapi_text ?cfg))"
    using assms(3-5) by (intro uapi_lines) (simp_all add: a, simp_all add: vpn_defaults_def vpn_of_config_def nl_def)
  have ipc: "\<not> fst (tn_ipc env (uapi_text ?cfg) w)" for w
  proof
    assume "fst (tn_ipc env (uapi_text ?cfg) w)"
    then obtain w' where "tn_ipc env (uapi_text ?cfg) w = (True, w')" by (cases "tn_ipc env (uapi_text ?cfg) w") simp
    then have "ParseCIDR (vc_AllowedIPs ?cfg) \<noteq> None" using assms(1) line unfolding checks_allowed_ip_def by blast
    then show False using d(1) a by simp
  qed
  have "fst (StartVPN env (vpn_of_config c) w) \<noteq> Inr ()" for w
  proof -
    obtain b1 w1 where 1: "tn_create env (vc_TunnelName ?cfg) (vc_MTU ?cfg) w = (b1, w1)" by fastforce
    obtain b2 w2 where 2: "tn_name env w1 = (b2, w2)" by fastforce
    obtain w3 where 3: "tn_ipc env (uapi_text ?cfg) w2 = (False, w3)" using ipc [of w2] by (cases "tn_ipc env (uapi_text ?cfg) w2") simp
    show ?thesis unfolding StartVPN_def Let_def 1 by (cases b1; cases b2) (simp_all add: 2 3)
  qed
  then have "StartVPN env (vpn_of_config c) w \<noteq> (Inr (), x)" for x by (metis fst_conv)
  then have "\<forall>cmds. fst (main_start_vpn env os found c w) \<noteq> Vpn_up cmds"
    unfolding main_start_vpn_def by (cases "StartVPN env (vpn_of_config c) w") (auto split: sum.split)
  then show ?thesis using d by blast
qed


definition test_tun :: "unit tun_env" where
  "test_tun = \<lparr>tn_create = \<lambda>_ _ w. (True, w), tn_name = \<lambda>w. (True, w), tn_close = \<lambda>w. w,
     tn_ipc = \<lambda>t w. (list_all (\<lambda>l. prefix ''allowed_ip='' l \<longrightarrow> ParseCIDR (drop 11 l) \<noteq> None) (str_split nl t), w), tn_up = \<lambda>w. (True, w)\<rparr>"

lemma test_tun_checks: "checks_allowed_ip test_tun"
  unfolding checks_allowed_ip_def
proof (intro allI impI)
  fix t v :: string and w w' :: unit
  assume "tn_ipc test_tun t w = (True, w')" and m: "''allowed_ip='' @ v \<in> set (str_split nl t)"
  then have "list_all (\<lambda>l. prefix ''allowed_ip='' l \<longrightarrow> ParseCIDR (drop 11 l) \<noteq> None) (str_split nl t)" by (simp add: test_tun_def)
  then have "prefix ''allowed_ip='' (''allowed_ip='' @ v) \<longrightarrow> ParseCIDR (drop 11 (''allowed_ip='' @ v)) \<noteq> None" using m unfolding list_all_iff by (rule bspec)
  then show "ParseCIDR v \<noteq> None" by simp
qed

definition vpn_config :: "string \<Rightarrow> Config" where
  "vpn_config ips = DefaultConfig\<lparr>Peer := ''1.2.3.4:5'', VPN := (VPN DefaultConfig)\<lparr>PrivateKey := replicate 64 CHR ''1'', ServerKey := replicate 64 CHR ''2'', AllowedIPs := ips\<rparr>\<rparr>"

theorem default_allowed_ips_witness:
  "\<forall>cmds. fst (main_start_vpn test_tun Linux ''10.0.0.1'' (vpn_config ''0.0.0.0/0, ::0'') ()) \<noteq> Vpn_up cmds"
proof -
  have "AllowedIPs (VPN (vpn_config ''0.0.0.0/0, ::0'')) = ''0.0.0.0/0, ::0''" "nl \<notin> set (PrivateKey (VPN (vpn_config ''0.0.0.0/0, ::0'')))"
    "nl \<notin> set (ServerKey (VPN (vpn_config ''0.0.0.0/0, ::0'')))" "nl \<notin> set (VpnServerAddr (VPN (vpn_config ''0.0.0.0/0, ::0'')))"
    by (simp_all add: vpn_config_def DefaultConfig_def nl_def)
  then show ?thesis using default_allowed_ips [OF test_tun_checks, of "vpn_config ''0.0.0.0/0, ::0''" Linux "''10.0.0.1''" "()"] by blast
qed

section \<open>The bypass routes\<close>

lemma split_chars: "c \<in> set s \<Longrightarrow> c = sep \<or> (\<exists>p \<in> set (str_split sep s). c \<in> set p)"
proof (induction s)
  case (Cons d s)
  obtain q qs where "str_split sep s = q # qs" by (cases "str_split sep s") simp_all
  then show ?case using Cons by auto
qed simp

lemma length_split: "length (str_split sep s) = Suc (length (filter (\<lambda>c. c = sep) s))"
proof (induction s)
  case (Cons d s)
  obtain q qs where "str_split sep s = q # qs" by (cases "str_split sep s") simp_all
  then show ?case using Cons by auto
qed simp

definition ip_char :: "char \<Rightarrow> bool" where
  "ip_char c \<longleftrightarrow> hex_val c \<noteq> None \<or> c = CHR '':'' \<or> c = CHR ''.''"

lemma ipv4_chars: "is_ipv4 s \<Longrightarrow> c \<in> set s \<Longrightarrow> (48 \<le> (of_char c :: nat) \<and> of_char c \<le> (57 :: nat)) \<or> c = CHR ''.''"
  using split_chars [of c s "CHR ''.''"] by (auto simp: is_ipv4_def is_octet_def list_all_iff)

lemma ipv4_ip_char: "is_ipv4 s \<Longrightarrow> c \<in> set s \<Longrightarrow> ip_char c"
  using ipv4_chars [of s c] by (auto simp: ip_char_def hex_val_def)

lemma groups_chars: "v6_groups tail gs = Some n \<Longrightarrow> g \<in> set gs \<Longrightarrow> c \<in> set g \<Longrightarrow> ip_char c"
proof (induction tail gs arbitrary: n rule: v6_groups.induct)
  case (2 tail h)
  then show ?case using ipv4_ip_char [of g c] by (auto simp: is_hextet_def list_all_iff ip_char_def split: if_splits)
next
  case (3 tail h h' hs)
  then show ?case by (auto simp: is_hextet_def list_all_iff ip_char_def split: if_splits)
qed simp

lemma groups_bound: "v6_groups tail gs = Some n \<Longrightarrow> n \<le> Suc (length gs)"
  by (induction tail gs arbitrary: n rule: v6_groups.induct) (auto split: if_splits)

lemma cut_ellipsis_append: "cut_ellipsis s = Some (p, q) \<Longrightarrow> s = p @ ''::'' @ q"
  by (induction s arbitrary: p q rule: cut_ellipsis.induct) (auto split: if_splits)

lemma side_chars: "v6_side tail s = Some n \<Longrightarrow> c \<in> set s \<Longrightarrow> ip_char c"
  using split_chars [of c s "CHR '':''"] groups_chars [of tail "str_split CHR '':'' s" n]
  by (auto simp: v6_side_def ip_char_def split: if_splits)

lemma ip_chars:
  assumes "is_ip s" and "c \<in> set s"
  shows "ip_char c"
proof (cases "is_ipv4 s")
  case True
  then show ?thesis using ipv4_ip_char assms(2) by blast
next
  case False
  then have v6: "is_ipv6 s" using assms(1) by (simp add: is_ip_def)
  show ?thesis
  proof (cases "cut_ellipsis s")
    case None
    then have "v6_groups True (str_split CHR '':'' s) = Some 8" using v6 by (simp add: is_ipv6_def)
    then have g: "p \<in> set (str_split CHR '':'' s) \<Longrightarrow> c \<in> set p \<Longrightarrow> ip_char c" for p by (rule groups_chars)
    have "ip_char CHR '':''" by (simp add: ip_char_def)
    then show ?thesis using split_chars [OF assms(2), of "CHR '':''"] g by blast
  next
    case (Some pq)
    obtain p q where pq: "pq = (p, q)" by fastforce
    have "v6_side False p \<noteq> None" "v6_side True q \<noteq> None" using v6 Some pq by (auto simp: is_ipv6_def split: option.splits)
    then show ?thesis using assms(2) side_chars [of False p] side_chars [of True q] cut_ellipsis_append [of s p q] Some pq by (auto simp: ip_char_def)
  qed
qed

lemma two_colons:
  assumes "is_ip s" and "CHR '':'' \<in> set s"
  shows "2 \<le> length (filter (\<lambda>c. c = CHR '':'') s)"
proof -
  have "\<not> is_ipv4 s" using ipv4_chars [of s "CHR '':''"] assms(2) by auto
  then have v6: "is_ipv6 s" using assms(1) by (simp add: is_ip_def)
  show ?thesis
  proof (cases "cut_ellipsis s")
    case None
    then have "v6_groups True (str_split CHR '':'' s) = Some 8" using v6 by (simp add: is_ipv6_def)
    then show ?thesis using groups_bound [of True "str_split CHR '':'' s" 8] by (simp add: length_split)
  next
    case (Some pq)
    then show ?thesis using cut_ellipsis_append [of s "fst pq" "snd pq"] by (cases pq) auto
  qed
qed

text \<open>A host with a port is no address.\<close>

lemma host_port_no_ip:
  assumes "SplitHostPort s = Some (host, port)"
  shows "\<not> is_ip s"
proof
  assume ip: "is_ip s"
  obtain h where h: "cut_last CHR '':'' s = Some h" using assms by (auto simp: SplitHostPort_def split: option.splits)
  then have c: "CHR '':'' \<in> set s" by (auto simp: cut_last_def split: if_splits)
  show False
  proof (cases "hd s = CHR ''[''")
    case True
    then have "CHR ''['' \<in> set s" using c by (cases s) auto
    then have "ip_char CHR ''[''" by (rule ip_chars [OF ip])
    then show False by (simp add: ip_char_def hex_val_def)
  next
    case False
    let ?r = "takeWhile (\<lambda>x. x \<noteq> CHR '':'') (rev s)"
    have n: "CHR '':'' \<notin> set (fst h)" and e: "fst h = rev (drop 1 (dropWhile (\<lambda>x. x \<noteq> CHR '':'') (rev s)))"
      using assms h False c by (auto simp: SplitHostPort_def cut_last_def split: if_splits prod.splits)
    have "rev s = ?r @ dropWhile (\<lambda>x. x \<noteq> CHR '':'') (rev s)" by simp
    moreover have "dropWhile (\<lambda>x. x \<noteq> CHR '':'') (rev s) = CHR '':'' # rev (fst h)"
    proof -
      have ne: "dropWhile (\<lambda>x. x \<noteq> CHR '':'') (rev s) \<noteq> []" using c by (auto simp: dropWhile_eq_Nil_conv)
      then have "hd (dropWhile (\<lambda>x. x \<noteq> CHR '':'') (rev s)) = CHR '':''" using hd_dropWhile by blast
      then show ?thesis using ne e by (cases "dropWhile (\<lambda>x. x \<noteq> CHR '':'') (rev s)") simp_all
    qed
    ultimately have s: "rev s = ?r @ CHR '':'' # rev (fst h)" by simp
    have "filter (\<lambda>c. c = CHR '':'') ?r = []" by (auto simp: filter_empty_conv dest: set_takeWhileD)
    moreover have "filter (\<lambda>c. c = CHR '':'') (rev (fst h)) = []" using n by (auto simp: filter_empty_conv)
    moreover have "filter (\<lambda>c. c = CHR '':'') (rev s) = filter (\<lambda>c. c = CHR '':'') (?r @ CHR '':'' # rev (fst h))" by (rule arg_cong [OF s])
    ultimately have "length (filter (\<lambda>c. c = CHR '':'') (rev s)) = 1" by simp
    then show False using two_colons [OF ip c] by (simp add: rev_filter [symmetric])
  qed
qed

definition route_dest :: "platform \<Rightarrow> string list \<Rightarrow> string" where
  "route_dest os cmd = (if os = Linux then cmd ! 3 else cmd ! 2)"

definition route_gateway :: "platform \<Rightarrow> string list \<Rightarrow> string" where
  "route_gateway os cmd = (if os = Linux then cmd ! 5 else cmd ! 3)"

text \<open>
  The bypass routes of the full tunnel: when the VPN is up, main asks for routes only for the full tunnel; every destination
  it adds is deleted again by the cleanup, in the same order, and the other way round unless no route was added; all routes go by the default gateway
  that was found, but on Windows by the empty text; and the first destination, which should be the address of the TURN peer, is
  the peer with its port, which is not an IP address.
\<close>

theorem bypass_routes:
  assumes "main_start_vpn env os found c w = (Vpn_up cmds, w')" and "SplitHostPort (Peer c) = Some (host, port)"
  shows "(cmds \<noteq> [] \<longrightarrow> AllowedIPs (VPN c) = ''0.0.0.0/0, ::0'' \<or> AllowedIPs (VPN c) = ''0.0.0.0/0'') \<and>
    (cmds \<noteq> [] \<longrightarrow> map (route_dest os) cmds = map (route_dest os) (CleanupVPNRouting os (Peer c) GetVKRelayIPs)) \<and>
    (\<forall>r \<in> set cmds. route_gateway os r = (if os = Windows then [] else found)) \<and>
    (cmds \<noteq> [] \<longrightarrow> route_dest os (hd cmds) = Peer c \<and> \<not> is_ip (Peer c))"
proof -
  let ?full = "AllowedIPs (VPN c) = ''0.0.0.0/0, ::0'' \<or> AllowedIPs (VPN c) = ''0.0.0.0/0''"
  have e: "cmds = (if ?full then SetupVPNRouting os (Peer c) GetVKRelayIPs [] found else [])"
    using assms(1) unfolding main_start_vpn_def by (auto split: if_splits prod.splits sum.splits)
  have "map (route_dest os) cmds = map (route_dest os) (CleanupVPNRouting os (Peer c) GetVKRelayIPs) \<and>
      (\<forall>r \<in> set cmds. route_gateway os r = (if os = Windows then [] else found)) \<and> route_dest os (hd cmds) = Peer c" if "cmds \<noteq> []"
    using that unfolding e by (cases os) (auto simp: setup_routes_def cleanup_routes_def GetVKRelayIPs_def route_dest_def route_gateway_def split: if_splits)
  moreover have "cmds \<noteq> [] \<longrightarrow> ?full" using e by metis
  ultimately show ?thesis using host_port_no_ip [OF assms(2)] by (cases "cmds = []") simp_all
qed

theorem bypass_routes_witness:
  "\<exists>cmds. main_start_vpn test_tun Linux ''10.0.0.1'' (vpn_config ''0.0.0.0/0'') () = (Vpn_up cmds, ()) \<and> length cmds = 3 \<and>
     route_dest Linux (hd cmds) = ''1.2.3.4:5'' \<and> \<not> is_ip ''1.2.3.4:5''"
proof -
  let ?c = "vpn_config ''0.0.0.0/0''"
  have p: "Peer ?c = ''1.2.3.4:5''" by (simp add: vpn_config_def)
  have "fst (tn_ipc test_tun (uapi_text (vpn_defaults (vpn_of_config ?c))) ())" by code_simp
  then have "StartVPN test_tun (vpn_of_config ?c) () = (Inr (), ())"
    unfolding StartVPN_def Let_def by (cases "tn_ipc test_tun (uapi_text (vpn_defaults (vpn_of_config ?c))) ()")
      (simp add: test_tun_def vpn_defaults_def vpn_of_config_def vpn_config_def)
  then have m: "main_start_vpn test_tun Linux ''10.0.0.1'' ?c () = (Vpn_up (SetupVPNRouting Linux (Peer ?c) GetVKRelayIPs [] ''10.0.0.1''), ())"
    by (simp add: main_start_vpn_def vpn_config_def)
  have "SplitHostPort (Peer ?c) = Some (''1.2.3.4'', ''5'')" unfolding p by code_simp
  from bypass_routes [OF m this] m show ?thesis by (simp add: setup_routes_def GetVKRelayIPs_def p Let_def)
qed

end
