(* ===== verification/Updater.thy ===== *)
theory Updater
  imports Client_Config
begin

text \<open>
  The updater (internal/core/updater.go): the check against the latest release with its ETag file, the download and
  replacement of the executable, and the background loop.

  HTTP, JSON parsing, the location of the executable and the outcome of each file operation are parameters; what an
  operation that succeeds does to the files is written out.  Deadlines and log lines are left out.
\<close>

section \<open>Files\<close>

datatype file_op =
    Create string
  | Write string string
  | Chmod string
  | Remove string
  | Rename string string

text \<open>
  \<open>uf_ok\<close> is the operating system's verdict on an operation, \<open>uf_part\<close> what a write that fails leaves in the file.
  An operation on a file that does not exist fails in any case.
\<close>

record 'w file_env =
  uf_ok :: "file_op \<Rightarrow> 'w \<Rightarrow> bool \<times> 'w"
  uf_part :: "string \<Rightarrow> string"

fun op_possible :: "file_op \<Rightarrow> files \<Rightarrow> bool" where
  "op_possible (Chmod p) fs = (fs p \<noteq> None)"
| "op_possible (Remove p) fs = (fs p \<noteq> None)"
| "op_possible (Rename p q) fs = (fs p \<noteq> None)"
| "op_possible _ fs = True"

fun op_effect :: "file_op \<Rightarrow> files \<Rightarrow> files" where
  "op_effect (Create p) fs = fs(p \<mapsto> [])"
| "op_effect (Write p d) fs = fs(p \<mapsto> d)"
| "op_effect (Chmod p) fs = fs"
| "op_effect (Remove p) fs = fs(p := None)"
| "op_effect (Rename p q) fs = fs(q := fs p, p := None)"

fun op_failure :: "(string \<Rightarrow> string) \<Rightarrow> file_op \<Rightarrow> files \<Rightarrow> files" where
  "op_failure part (Write p d) fs = fs(p \<mapsto> part d)"
| "op_failure part _ fs = fs"

definition do_op :: "'w file_env \<Rightarrow> file_op \<Rightarrow> files \<times> 'w \<Rightarrow> bool \<times> files \<times> 'w" where
  "do_op env fop s = (case s of (fs, w) \<Rightarrow>
     (case uf_ok env fop w of (verdict, w') \<Rightarrow>
        if verdict \<and> op_possible fop fs then (True, op_effect fop fs, w') else (False, op_failure (uf_part env) fop fs, w')))"

section \<open>The check\<close>

record asset =
  asset_Name :: string
  asset_URL :: string
  asset_Size :: int

record githubRelease =
  TagName :: string
  Assets :: "asset list"

definition CurrentVersion :: string where "CurrentVersion = ''v0.7.0''"
definition githubOwner :: string where "githubOwner = ''NikKuz99''"
definition githubRepo :: string where "githubRepo = ''turnguard''"

definition release_url :: string where
  "release_url = ''https://api.github.com/repos/'' @ githubOwner @ ''/'' @ githubRepo @ ''/releases/latest''"

definition assetNameForPlatform :: "string \<Rightarrow> string \<Rightarrow> string" where
  "assetNameForPlatform goos goarch =
     (if goos = ''windows'' then ''turnguard-windows-amd64.exe''
      else if goos = ''darwin'' then (if goarch = ''arm64'' then ''turnguard-darwin-arm64'' else ''turnguard-darwin-amd64'')
      else if goarch = ''arm64'' then ''turnguard-linux-arm64'' else ''turnguard'')"

text \<open>Decoding the release; the keys of an object are taken to be different from each other.\<close>

definition asset_field :: "string \<times> json \<Rightarrow> asset \<Rightarrow> asset option" where
  "asset_field kv a = (let k = to_lower (fst kv); j = snd kv in
     if k = ''name'' then map_option (\<lambda>x. a\<lparr>asset_Name := x\<rparr>) (dec_str j (asset_Name a))
     else if k = ''browser_download_url'' then map_option (\<lambda>x. a\<lparr>asset_URL := x\<rparr>) (dec_str j (asset_URL a))
     else if k = ''size'' then map_option (\<lambda>x. a\<lparr>asset_Size := x\<rparr>) (dec_int j (asset_Size a))
     else Some a)"

definition empty_asset :: asset where
  "empty_asset = \<lparr>asset_Name = [], asset_URL = [], asset_Size = 0\<rparr>"

fun dec_assets :: "json list \<Rightarrow> asset list option" where
  "dec_assets [] = Some []"
| "dec_assets (j # js) = (case dec_obj asset_field j empty_asset of None \<Rightarrow> None | Some a \<Rightarrow> map_option ((#) a) (dec_assets js))"

definition release_field :: "string \<times> json \<Rightarrow> githubRelease \<Rightarrow> githubRelease option" where
  "release_field kv r = (let k = to_lower (fst kv); j = snd kv in
     if k = ''tag_name'' then map_option (\<lambda>x. r\<lparr>TagName := x\<rparr>) (dec_str j (TagName r))
     else if k = ''assets'' then
       (case j of JArr js \<Rightarrow> map_option (\<lambda>xs. r\<lparr>Assets := xs\<rparr>) (dec_assets js) | JNull \<Rightarrow> Some (r\<lparr>Assets := []\<rparr>) | _ \<Rightarrow> None)
     else Some r)"

definition release_of :: "json \<Rightarrow> githubRelease option" where
  "release_of j = dec_obj release_field j \<lparr>TagName = [], Assets = []\<rparr>"

record http_reply =
  rp_status :: nat
  rp_etag :: string
  rp_body :: string
  rp_cut :: bool

text \<open>
  \<open>ue_get\<close> is a GET request with its headers; \<open>ue_exe\<close> is os.Executable, \<open>ue_tmp\<close> os.TempDir, \<open>ue_json\<close> the first JSON value of a text,
  \<open>ue_done\<close> whether the context of the loop is done, \<open>ue_wait\<close> the wait of 60 seconds and whether the context ended it.
\<close>

record 'w upd_env = "'w file_env" +
  ue_get :: "string \<Rightarrow> headers \<Rightarrow> 'w \<Rightarrow> http_reply option \<times> 'w"
  ue_json :: "string \<Rightarrow> json option"
  ue_exe :: "string option"
  ue_tmp :: string
  ue_os :: string
  ue_arch :: string
  ue_done :: "'w \<Rightarrow> bool \<times> 'w"
  ue_wait :: "'w \<Rightarrow> bool \<times> 'w"

datatype update_error =
    Check_failed
  | Rate_limited
  | Api_status nat
  | Bad_release
  | No_asset string
  | Download_failed
  | Download_status nat
  | No_executable
  | No_temp_file
  | Write_failed
  | Chmod_failed
  | Backup_failed
  | Replace_failed

definition etagCachePath :: "'w upd_env \<Rightarrow> string" where
  "etagCachePath env = (case ue_exe env of None \<Rightarrow> ue_tmp env @ ''/turnguard_etag.txt'' | Some exe \<Rightarrow> exe @ ''.etag'')"

definition loadCachedETag :: "'w upd_env \<Rightarrow> files \<Rightarrow> string" where
  "loadCachedETag env fs = (case fs (etagCachePath env) of None \<Rightarrow> [] | Some d \<Rightarrow> trim_space d)"

definition saveCachedETag :: "'w upd_env \<Rightarrow> string \<Rightarrow> files \<times> 'w \<Rightarrow> files \<times> 'w" where
  "saveCachedETag env etag s = (if etag = [] then s else snd (do_op (file_env.truncate env) (Write (etagCachePath env) etag) s))"

definition check_headers :: "string \<Rightarrow> headers" where
  "check_headers etag =
     (let hs = header_set ''User-Agent'' ''TurnGuard-Updater'' (header_set ''Accept'' ''application/vnd.github.v3+json'' []) in
      if etag \<noteq> [] then header_set ''If-None-Match'' etag hs else hs)"

definition find_asset :: "string \<Rightarrow> asset list \<Rightarrow> asset option" where
  "find_asset name as = List.find (\<lambda>a. asset_Name a = name) as"

text \<open>No update is the pair of empty texts.\<close>

definition CheckForUpdate :: "'w upd_env \<Rightarrow> (update_error, files \<times> 'w, string \<times> string) act" where
  "CheckForUpdate env s =
     (case s of (fs, w) \<Rightarrow>
      (case ue_get env release_url (check_headers (loadCachedETag env fs)) w of
         (None, w1) \<Rightarrow> (Inl Check_failed, fs, w1)
       | (Some resp, w1) \<Rightarrow>
           if rp_status resp = 304 then (Inr ([], []), fs, w1)
           else if rp_status resp = 403 then (Inl Rate_limited, fs, w1)
           else if rp_status resp \<noteq> 200 then (Inl (Api_status (rp_status resp)), fs, w1)
           else
             (let s2 = saveCachedETag env (rp_etag resp) (fs, w1); name = assetNameForPlatform (ue_os env) (ue_arch env) in
              (case Option.bind (ue_json env (rp_body resp)) release_of of
                 None \<Rightarrow> (Inl Bad_release, s2)
               | Some release \<Rightarrow>
                   if TagName release = [] \<or> TagName release = CurrentVersion then (Inr ([], []), s2)
                   else (case find_asset name (Assets release) of
                       None \<Rightarrow> (Inl (No_asset name), s2)
                     | Some a \<Rightarrow> (Inr (asset_URL a, TagName release), s2))))))"

section \<open>The replacement\<close>

text \<open>The new executable is written beside the old one, which is kept as a backup.\<close>

definition install :: "'w file_env \<Rightarrow> string \<Rightarrow> http_reply \<Rightarrow> (update_error, files \<times> 'w, unit) act" where
  "install env exe resp s =
     (let tmp = exe @ ''.new''; old = exe @ ''.old'' in
      case do_op env (Create tmp) s of
        (False, s1) \<Rightarrow> (Inl No_temp_file, s1)
      | (True, s1) \<Rightarrow>
          (case do_op env (Write tmp (rp_body resp)) s1 of (written, s2) \<Rightarrow>
             if \<not> written \<or> rp_cut resp then (Inl Write_failed, snd (do_op env (Remove tmp) s2))
             else (case do_op env (Chmod tmp) s2 of
                 (False, s3) \<Rightarrow> (Inl Chmod_failed, snd (do_op env (Remove tmp) s3))
               | (True, s3) \<Rightarrow>
                   (case do_op env (Rename exe old) (snd (do_op env (Remove old) s3)) of
                      (False, s4) \<Rightarrow> (Inl Backup_failed, snd (do_op env (Remove tmp) s4))
                    | (True, s4) \<Rightarrow>
                        (case do_op env (Rename tmp exe) s4 of
                           (False, s5) \<Rightarrow> (Inl Replace_failed, snd (do_op env (Rename old exe) s5))
                         | (True, s5) \<Rightarrow> (Inr (), s5))))))"

definition download_headers :: headers where
  "download_headers = header_set ''User-Agent'' ''TurnGuard-Updater'' []"

definition DownloadAndUpdate :: "'w upd_env \<Rightarrow> string \<Rightarrow> (update_error, files \<times> 'w, unit) act" where
  "DownloadAndUpdate env url s =
     (case s of (fs, w) \<Rightarrow>
      (case ue_get env url download_headers w of
         (None, w1) \<Rightarrow> (Inl Download_failed, fs, w1)
       | (Some resp, w1) \<Rightarrow>
           if rp_status resp \<noteq> 200 then (Inl (Download_status (rp_status resp)), fs, w1)
           else (case ue_exe env of None \<Rightarrow> (Inl No_executable, fs, w1) | Some exe \<Rightarrow> install (file_env.truncate env) exe resp (fs, w1))))"

section \<open>The loop\<close>

datatype update_out = Still_running | Ctx_done | Up_to_date | Installed

text \<open>\<open>n\<close> rounds of the goroutine of StartUpdateChecker.\<close>

fun update_loop :: "'w upd_env \<Rightarrow> nat \<Rightarrow> files \<times> 'w \<Rightarrow> update_out \<times> files \<times> 'w" where
  "update_loop env 0 s = (Still_running, s)"
| "update_loop env (Suc n) s =
     (case ue_done env (snd s) of
        (True, w) \<Rightarrow> (Ctx_done, fst s, w)
      | (False, w) \<Rightarrow>
          (let retry = (\<lambda>(fs', w'). case ue_wait env w' of (True, w'') \<Rightarrow> (Ctx_done, fs', w'') | (False, w'') \<Rightarrow> update_loop env n (fs', w'')) in
           case CheckForUpdate env (fst s, w) of
             (Inl e, s1) \<Rightarrow> retry s1
           | (Inr (url, version), s1) \<Rightarrow>
               if url = [] then (Up_to_date, s1)
               else (case DownloadAndUpdate env url s1 of
                   (Inl e, s2) \<Rightarrow> retry s2
                 | (Inr _, s2) \<Rightarrow> (Installed, s2))))"


section \<open>Frames\<close>

text \<open>The files an operation may change.\<close>

fun op_files :: "file_op \<Rightarrow> string set" where
  "op_files (Create p) = {p}"
| "op_files (Write p d) = {p}"
| "op_files (Chmod p) = {}"
| "op_files (Remove p) = {p}"
| "op_files (Rename p q) = {p, q}"

lemma do_op_frame: "do_op env fop (fs, w) = (b, fs', w') \<Longrightarrow> f \<notin> op_files fop \<Longrightarrow> fs' f = fs f"
  by (cases fop) (auto simp: do_op_def split: prod.splits if_splits)

lemma do_op_failed: "do_op env fop (fs, w) = (False, fs', w') \<Longrightarrow> \<forall>p d. fop \<noteq> Write p d \<Longrightarrow> fs' = fs"
  by (cases fop) (auto simp: do_op_def split: prod.splits if_splits)

lemma do_op_done: "do_op env fop (fs, w) = (True, fs', w') \<Longrightarrow> fs' = op_effect fop fs"
  by (auto simp: do_op_def split: prod.splits if_splits)

lemma do_op_cases:
  obtains b fs' w' where "do_op env fop (fs, w) = (b, fs', w')" "b \<Longrightarrow> fs' = op_effect fop fs"
    "\<And>f. f \<notin> op_files fop \<Longrightarrow> fs' f = fs f" "\<not> b \<Longrightarrow> \<forall>p d. fop \<noteq> Write p d \<Longrightarrow> fs' = fs"
proof -
  obtain b fs' w' where e: "do_op env fop (fs, w) = (b, fs', w')" by (metis surj_pair)
  show thesis
  proof (rule that [OF e])
    show "b \<Longrightarrow> fs' = op_effect fop fs" using do_op_done [of env fop fs w fs' w'] e by simp
    show "f \<notin> op_files fop \<Longrightarrow> fs' f = fs f" for f using do_op_frame [OF e] .
    show "\<not> b \<Longrightarrow> \<forall>p d. fop \<noteq> Write p d \<Longrightarrow> fs' = fs" using do_op_failed [of env fop fs w fs' w'] e by simp
  qed
qed

lemma install_spec:
  assumes "install env exe resp (fs, w) = (r, fs', w')" and "fs exe = Some prog"
  shows "(\<forall>f. f \<notin> {exe, exe @ ''.new'', exe @ ''.old''} \<longrightarrow> fs' f = fs f) \<and>
    (case r of
       Inr _ \<Rightarrow> fs' exe = Some (rp_body resp) \<and> fs' (exe @ ''.old'') = Some prog \<and> \<not> rp_cut resp
     | Inl e \<Rightarrow> fs' exe = Some prog \<or> e = Replace_failed \<and> fs' exe = None \<and> fs' (exe @ ''.old'') = Some prog)"
proof -
  let ?tmp = "exe @ ''.new''" and ?old = "exe @ ''.old''"
  have d: "?tmp \<noteq> exe" "?old \<noteq> exe" "?tmp \<noteq> ?old" by simp_all
  obtain b1 f1 w1 where 1: "do_op env (Create ?tmp) (fs, w) = (b1, f1, w1)" "b1 \<Longrightarrow> f1 = op_effect (Create ?tmp) fs"
    "\<And>f. f \<notin> op_files (Create ?tmp) \<Longrightarrow> f1 f = fs f" using do_op_cases [of env "Create ?tmp" fs w] by metis
  obtain b2 f2 w2 where 2: "do_op env (Write ?tmp (rp_body resp)) (f1, w1) = (b2, f2, w2)" "b2 \<Longrightarrow> f2 = op_effect (Write ?tmp (rp_body resp)) f1"
    "\<And>f. f \<notin> op_files (Write ?tmp (rp_body resp)) \<Longrightarrow> f2 f = f1 f" using do_op_cases [of env "Write ?tmp (rp_body resp)" f1 w1] by metis
  obtain c2 g2 v2 where R2: "do_op env (Remove ?tmp) (f2, w2) = (c2, g2, v2)" "\<And>f. f \<notin> op_files (Remove ?tmp) \<Longrightarrow> g2 f = f2 f"
    using do_op_cases [of env "Remove ?tmp" f2 w2] by metis
  obtain b3 f3 w3 where 3: "do_op env (Chmod ?tmp) (f2, w2) = (b3, f3, w3)" "b3 \<Longrightarrow> f3 = op_effect (Chmod ?tmp) f2"
    "\<And>f. f \<notin> op_files (Chmod ?tmp) \<Longrightarrow> f3 f = f2 f" using do_op_cases [of env "Chmod ?tmp" f2 w2] by metis
  obtain c3 g3 v3 where R3: "do_op env (Remove ?tmp) (f3, w3) = (c3, g3, v3)" "\<And>f. f \<notin> op_files (Remove ?tmp) \<Longrightarrow> g3 f = f3 f"
    using do_op_cases [of env "Remove ?tmp" f3 w3] by metis
  obtain b4 f4 w4 where 4: "do_op env (Remove ?old) (f3, w3) = (b4, f4, w4)" "\<And>f. f \<notin> op_files (Remove ?old) \<Longrightarrow> f4 f = f3 f"
    using do_op_cases [of env "Remove ?old" f3 w3] by metis
  obtain b5 f5 w5 where 5: "do_op env (Rename exe ?old) (f4, w4) = (b5, f5, w5)" "b5 \<Longrightarrow> f5 = op_effect (Rename exe ?old) f4"
    "\<not> b5 \<Longrightarrow> f5 = f4" using do_op_cases [of env "Rename exe ?old" f4 w4] by (metis file_op.distinct(13))
  obtain c5 g5 v5 where R5: "do_op env (Remove ?tmp) (f5, w5) = (c5, g5, v5)" "\<And>f. f \<notin> op_files (Remove ?tmp) \<Longrightarrow> g5 f = f5 f"
    using do_op_cases [of env "Remove ?tmp" f5 w5] by metis
  obtain b6 f6 w6 where 6: "do_op env (Rename ?tmp exe) (f5, w5) = (b6, f6, w6)" "b6 \<Longrightarrow> f6 = op_effect (Rename ?tmp exe) f5"
    "\<not> b6 \<Longrightarrow> f6 = f5" using do_op_cases [of env "Rename ?tmp exe" f5 w5] by (metis file_op.distinct(13))
  obtain b7 f7 w7 where 7: "do_op env (Rename ?old exe) (f6, w6) = (b7, f7, w7)" "b7 \<Longrightarrow> f7 = op_effect (Rename ?old exe) f6"
    "\<not> b7 \<Longrightarrow> f7 = f6" using do_op_cases [of env "Rename ?old exe" f6 w6] by (metis file_op.distinct(13))
  have k: "(if \<not> b1 then (Inl No_temp_file, f1, w1) else if \<not> b2 \<or> rp_cut resp then (Inl Write_failed, g2, v2) else if \<not> b3 then (Inl Chmod_failed, g3, v3)
      else if \<not> b5 then (Inl Backup_failed, g5, v5) else if \<not> b6 then (Inl Replace_failed, f7, w7) else (Inr (), f6, w6)) = (r, fs', w')"
    using assms(1) unfolding install_def Let_def by (cases "rp_cut resp"; cases b1; cases b2; cases b3; cases b5; cases b6) (simp_all add: 1(1) 2(1) R2(1) 3(1) R3(1) 4(1) 5(1) R5(1) 6(1) 7(1))
  have e4: "f4 exe = Some prog" using 1(3) 2(3) 3(3) 4(2) d assms(2) by simp
  have e5: "b5 \<Longrightarrow> f5 exe = None \<and> f5 ?old = Some prog" "\<not> b5 \<Longrightarrow> f5 exe = Some prog" using 5(2,3) e4 d by simp_all
  have e6: "b1 \<Longrightarrow> b2 \<Longrightarrow> b3 \<Longrightarrow> b5 \<Longrightarrow> b6 \<Longrightarrow> f6 exe = Some (rp_body resp) \<and> f6 ?old = Some prog"
    using 2(2) 3(2) 4(2) [of ?tmp] 5(2) 6(2) e5(1) d by simp
  have e7: "b5 \<Longrightarrow> \<not> b6 \<Longrightarrow> f7 exe = Some prog \<or> f7 exe = None \<and> f7 ?old = Some prog" using 7(2,3) 6(3) e5(1) d by (cases b7) simp_all
  have other: "f \<notin> {exe, ?tmp, ?old} \<Longrightarrow> fs' f = fs f" for f
    using k 1(3) [of f] 2(3) [of f] R2(2) [of f] 3(3) [of f] R3(2) [of f] 4(2) [of f] 5(2,3) R5(2) [of f] 6(2,3) 7(2,3)
    by (cases b5; cases b6; cases b7) (auto split: if_splits)
  have "case r of
       Inr _ \<Rightarrow> fs' exe = Some (rp_body resp) \<and> fs' ?old = Some prog \<and> \<not> rp_cut resp
     | Inl e \<Rightarrow> fs' exe = Some prog \<or> e = Replace_failed \<and> fs' exe = None \<and> fs' ?old = Some prog"
    using k e6 e7 1(3) [of exe] 2(3) [of exe] R2(2) [of exe] 3(3) [of exe] R3(2) [of exe] R5(2) [of exe] e5(2) assms(2) d
    by (auto split: if_splits)
  then show ?thesis using other by blast
qed

lemma download_cases:
  assumes "DownloadAndUpdate env url (fs, w) = (r, fs', w')"
  shows "(fs' = fs \<and> (\<exists>e. r = Inl e \<and> e \<noteq> Replace_failed)) \<or>
    (\<exists>exe resp w1. ue_exe env = Some exe \<and> ue_get env url download_headers w = (Some resp, w1) \<and> rp_status resp = 200 \<and>
      install (file_env.truncate env) exe resp (fs, w1) = (r, fs', w'))"
  using assms unfolding DownloadAndUpdate_def by (auto split: prod.splits option.splits if_splits)

text \<open>
  C32.  The executable is replaced whole or not at all: a download that succeeds leaves the complete body of a 200 answer as the
  executable and the old one as the backup; one that fails leaves the old executable in place, except that it is only in the backup when
  both the replacement and its undoing were refused; no other file than these and the temporary one changes.
\<close>

theorem update_all_or_nothing:
  assumes "DownloadAndUpdate env url (fs, w) = (r, fs', w')" and "ue_exe env = Some exe" and "fs exe = Some prog"
  shows "(\<forall>f. f \<notin> {exe, exe @ ''.new'', exe @ ''.old''} \<longrightarrow> fs' f = fs f) \<and>
    (case r of
       Inr _ \<Rightarrow> (\<exists>resp w1. ue_get env url download_headers w = (Some resp, w1) \<and> rp_status resp = 200 \<and> \<not> rp_cut resp \<and>
         fs' exe = Some (rp_body resp) \<and> fs' (exe @ ''.old'') = Some prog)
     | Inl e \<Rightarrow> fs' exe = Some prog \<or> e = Replace_failed \<and> fs' exe = None \<and> fs' (exe @ ''.old'') = Some prog)"
  using download_cases [OF assms(1)]
proof
  assume "fs' = fs \<and> (\<exists>e. r = Inl e \<and> e \<noteq> Replace_failed)"
  then show ?thesis using assms(3) by auto
next
  assume "\<exists>exe resp w1. ue_exe env = Some exe \<and> ue_get env url download_headers w = (Some resp, w1) \<and> rp_status resp = 200 \<and>
      install (file_env.truncate env) exe resp (fs, w1) = (r, fs', w')"
  then obtain resp w1 where g: "ue_get env url download_headers w = (Some resp, w1)" "rp_status resp = 200"
    "install (file_env.truncate env) exe resp (fs, w1) = (r, fs', w')" using assms(2) by auto
  from install_spec [OF g(3) assms(3)] g(1,2) show ?thesis by (cases r) auto
qed


text \<open>A machine on which every operation of a list succeeds and the others fail.\<close>

definition test_upd :: "(file_op \<Rightarrow> bool) \<Rightarrow> unit upd_env" where
  "test_upd ok = \<lparr>uf_ok = \<lambda>fop w. (ok fop, w), uf_part = \<lambda>d. take 1 d,
     ue_get = \<lambda>url hs w. (Some (if url = release_url
         then (if map_of hs ''If-None-Match'' = Some ''t1'' then \<lparr>rp_status = 304, rp_etag = ''t1'', rp_body = [], rp_cut = False\<rparr>
               else \<lparr>rp_status = 200, rp_etag = ''t1'', rp_body = ''r'', rp_cut = False\<rparr>)
         else \<lparr>rp_status = 200, rp_etag = [], rp_body = ''new program'', rp_cut = False\<rparr>), w),
     ue_json = \<lambda>_. Some (JObj [(''tag_name'', JString ''v0.8.0''), (''assets'', JArr [JObj [(''name'', JString ''turnguard''), (''browser_download_url'', JString ''u'')]])]),
     ue_exe = Some ''/tg'', ue_tmp = ''/tmp'', ue_os = ''linux'', ue_arch = ''amd64'', ue_done = \<lambda>w. (False, w), ue_wait = \<lambda>w. (False, w)\<rparr>"

definition refuse :: "file_op \<Rightarrow> file_op \<Rightarrow> bool" where "refuse x fop \<longleftrightarrow> fop \<noteq> x"

theorem update_all_or_nothing_witness:
  "(\<exists>fs'. DownloadAndUpdate (test_upd (\<lambda>_. True)) ''u'' ([''/tg'' \<mapsto> ''old''], ()) = (Inr (), fs', ()) \<and> fs' ''/tg'' = Some ''new program'') \<and>
   (\<exists>fs'. DownloadAndUpdate (test_upd (refuse (Rename ''/tg.new'' ''/tg''))) ''u'' ([''/tg'' \<mapsto> ''old''], ()) = (Inl Replace_failed, fs', ()) \<and> fs' ''/tg'' = Some ''old'')"
proof
  let ?fs = "[''/tg'' \<mapsto> ''old'']"
  obtain fs' where 1: "DownloadAndUpdate (test_upd (\<lambda>_. True)) ''u'' (?fs, ()) = (Inr (), fs', ())"
    by (simp add: DownloadAndUpdate_def test_upd_def release_url_def install_def do_op_def file_env.truncate_def)
  have "ue_exe (test_upd (\<lambda>_. True)) = Some ''/tg''" "ue_get (test_upd (\<lambda>_. True)) ''u'' download_headers () =
      (Some \<lparr>rp_status = 200, rp_etag = [], rp_body = ''new program'', rp_cut = False\<rparr>, ())" by (simp_all add: test_upd_def release_url_def)
  then show "\<exists>fs'. DownloadAndUpdate (test_upd (\<lambda>_. True)) ''u'' (?fs, ()) = (Inr (), fs', ()) \<and> fs' ''/tg'' = Some ''new program''"
    using update_all_or_nothing [OF 1, of "''/tg''" "''old''"] 1 by auto
  let ?env = "test_upd (refuse (Rename ''/tg.new'' ''/tg''))"
  have "\<exists>fs'. DownloadAndUpdate ?env ''u'' (?fs, ()) = (Inl Replace_failed, fs', ()) \<and> fs' ''/tg'' = Some ''old''"
    by (simp add: DownloadAndUpdate_def test_upd_def release_url_def install_def do_op_def file_env.truncate_def refuse_def)
  then show "\<exists>fs'. DownloadAndUpdate ?env ''u'' (?fs, ()) = (Inl Replace_failed, fs', ()) \<and> fs' ''/tg'' = Some ''old''" .
qed

section \<open>The lost update\<close>

text \<open>
  What GitHub documents of conditional requests: a request with the tag of the current release in If-None-Match is answered with 304, any
  other with 200, the tag and the release.
\<close>

definition conditional_server :: "'w upd_env \<Rightarrow> string \<Rightarrow> http_reply \<Rightarrow> bool" where
  "conditional_server env etag reply \<longleftrightarrow> rp_status reply = 200 \<and> rp_etag reply = etag \<and>
     (\<forall>hs w. \<exists>w'. ue_get env release_url hs w =
        (Some (if map_of hs ''If-None-Match'' = Some etag then reply\<lparr>rp_status := 304, rp_body := []\<rparr> else reply), w'))"

lemma check_header:
  assumes "etag \<noteq> []"
  shows "map_of (check_headers etag) ''If-None-Match'' = Some etag"
proof -
  let ?hs = "[(''Accept'', ''application/vnd.github.v3+json''), (''User-Agent'', ''TurnGuard-Updater'')]"
  have h: "header_set ''User-Agent'' ''TurnGuard-Updater'' (header_set ''Accept'' ''application/vnd.github.v3+json'' []) = ?hs" by code_simp
  have k: "canonical_key True ''If-None-Match'' = ''If-None-Match''" by code_simp
  have "check_headers etag = header_set ''If-None-Match'' etag ?hs" unfolding check_headers_def Let_def h using assms by simp
  then show ?thesis by (simp add: header_set_def k del: canonical_key.simps)
qed

lemma check_cached:
  assumes "conditional_server env etag reply" and "etag \<noteq> []" and "trim_space etag = etag" and "fs (etagCachePath env) = Some etag"
  shows "\<exists>w'. CheckForUpdate env (fs, w) = (Inr ([], []), fs, w')"
proof -
  have l: "loadCachedETag env fs = etag" using assms(3,4) by (simp add: loadCachedETag_def)
  obtain w' where "ue_get env release_url (check_headers etag) w = (Some (reply\<lparr>rp_status := 304, rp_body := []\<rparr>), w')"
  proof -
    obtain w' where "ue_get env release_url (check_headers etag) w =
        (Some (if map_of (check_headers etag) ''If-None-Match'' = Some etag then reply\<lparr>rp_status := 304, rp_body := []\<rparr> else reply), w')"
      using assms(1) unfolding conditional_server_def by blast
    then show thesis unfolding check_header [OF assms(2)] by (intro that) simp
  qed
  then show ?thesis by (simp add: CheckForUpdate_def l)
qed

lemma save_written:
  assumes "\<forall>w. fst (uf_ok env (Write (etagCachePath env) etag) w)" and "etag \<noteq> []"
  shows "fst (saveCachedETag env etag (fs, w)) (etagCachePath env) = Some etag"
proof -
  obtain w' where "uf_ok env (Write (etagCachePath env) etag) w = (True, w')" using assms(1) by (metis prod.collapse)
  then show ?thesis using assms(2) by (simp add: saveCachedETag_def do_op_def file_env.truncate_def)
qed

lemma check_saves:
  assumes "conditional_server env etag reply" and "etag \<noteq> []" and "\<forall>w. fst (uf_ok env (Write (etagCachePath env) etag) w)"
    and "CheckForUpdate env (fs, w) = (Inr (url, v), fs1, w1)" and "v \<noteq> []"
  shows "fs1 (etagCachePath env) = Some etag"
proof -
  let ?h = "check_headers (loadCachedETag env fs)"
  obtain resp w2 where g: "ue_get env release_url ?h w = (Some resp, w2)" "resp = reply \<or> rp_status resp = 304"
  proof -
    obtain w2 where "ue_get env release_url ?h w = (Some (if map_of ?h ''If-None-Match'' = Some etag then reply\<lparr>rp_status := 304, rp_body := []\<rparr> else reply), w2)"
      using assms(1) unfolding conditional_server_def by blast
    then show thesis by (intro that) (auto split: if_splits)
  qed
  have "rp_status resp \<noteq> 304" using assms(4,5) g(1) by (auto simp: CheckForUpdate_def)
  then have r: "resp = reply" "rp_status reply = 200" "rp_etag reply = etag" using g(2) assms(1) by (auto simp: conditional_server_def)
  have "(fs1, w1) = saveCachedETag env etag (fs, w2)"
    using assms(4,5) g(1) r by (auto simp: CheckForUpdate_def Let_def split: option.splits if_splits)
  then show ?thesis using save_written [OF assms(3,2)] by (metis fst_conv)
qed

lemma loop_cached:
  assumes "\<And>w. \<exists>w'. CheckForUpdate env (fs, w) = (Inr ([], []), fs, w')"
  shows "fst (update_loop env (Suc n) (fs, w)) \<in> {Up_to_date, Ctx_done} \<and> fst (snd (update_loop env (Suc n) (fs, w))) = fs"
proof -
  obtain b w1 where b: "ue_done env w = (b, w1)" by fastforce
  obtain w' where "CheckForUpdate env (fs, w1) = (Inr ([], []), fs, w')" using assms by blast
  then show ?thesis using b by (cases b) simp_all
qed

lemma loop_not_done:
  assumes "\<And>w. \<not> fst (ue_done env w)" and "\<And>w. \<not> fst (ue_wait env w)"
  shows "fst (update_loop env n s) \<noteq> Ctx_done"
proof (induction n arbitrary: s)
  case (Suc n)
  obtain w1 where d: "ue_done env (snd s) = (False, w1)" using assms(1) [of "snd s"] by (metis (full_types) prod.collapse)
  obtain g where "ue_wait env w = (False, g w)" for w
  proof
    show "ue_wait env w = (False, (snd \<circ> ue_wait env) w)" for w using assms(2) [of w] by (cases "ue_wait env w") simp
  qed
  then show ?case using Suc d by (auto simp: Let_def split: prod.splits sum.splits)
qed simp

text \<open>
  C33.  A failed update is lost: the tag of the release is saved before the release is installed, so when the check finds an update and the
  download fails, the loop, instead of trying again after a minute, is answered 304 and stops as if the program were up to date;
  and so does every later check, also after a restart, until the tag of the latest release changes.
\<close>

theorem update_lost:
  assumes "conditional_server env etag reply" and "etag \<noteq> []" and "trim_space etag = etag"
    and "\<forall>w. fst (uf_ok env (Write (etagCachePath env) etag) w)" and "ue_exe env = Some exe"
    and "CheckForUpdate env (fs, w) = (Inr (url, v), fs1, w1)" and "url \<noteq> []" and "v \<noteq> []"
    and "DownloadAndUpdate env url (fs1, w1) = (Inl e, fs2, w2)" and "fs1 exe = Some prog"
  shows "(\<forall>w0. ue_done env w0 = (False, w) \<longrightarrow> fst (update_loop env (Suc (Suc n)) (fs, w0)) \<in> {Up_to_date, Ctx_done} \<and>
      fst (snd (update_loop env (Suc (Suc n)) (fs, w0))) = fs2) \<and>
    (\<forall>fs3 w3. fs3 (etagCachePath env) = fs2 (etagCachePath env) \<longrightarrow>
      (\<exists>w4. CheckForUpdate env (fs3, w3) = (Inr ([], []), fs3, w4)) \<and> fst (update_loop env (Suc n) (fs3, w3)) \<in> {Up_to_date, Ctx_done})"
proof -
  have p: "etagCachePath env = exe @ ''.etag''" using assms(5) by (simp add: etagCachePath_def)
  have "fs2 (etagCachePath env) = fs1 (etagCachePath env)" using download_cases [OF assms(9)]
  proof
    assume "\<exists>exe resp w1'. ue_exe env = Some exe \<and> ue_get env url download_headers w1 = (Some resp, w1') \<and> rp_status resp = 200 \<and>
      install (file_env.truncate env) exe resp (fs1, w1') = (Inl e, fs2, w2)"
    then obtain resp w1' where "install (file_env.truncate env) exe resp (fs1, w1') = (Inl e, fs2, w2)" using assms(5) by auto
    from install_spec [OF this assms(10)] show ?thesis by (simp add: p)
  qed simp
  then have tag: "fs2 (etagCachePath env) = Some etag" using check_saves [OF assms(1,2,4,6,8)] by simp
  have later: "(\<exists>w4. CheckForUpdate env (fs3, w3) = (Inr ([], []), fs3, w4))" if "fs3 (etagCachePath env) = fs2 (etagCachePath env)" for fs3 w3
    using check_cached [OF assms(1-3)] that tag by simp
  have loop: "fst (update_loop env (Suc n) (fs3, w3)) \<in> {Up_to_date, Ctx_done} \<and> fst (snd (update_loop env (Suc n) (fs3, w3))) = fs3"
    if "fs3 (etagCachePath env) = fs2 (etagCachePath env)" for fs3 w3 using later that by (intro loop_cached) blast
  have first: "fst (update_loop env (Suc (Suc n)) (fs, w0)) \<in> {Up_to_date, Ctx_done} \<and> fst (snd (update_loop env (Suc (Suc n)) (fs, w0))) = fs2"
    if "ue_done env w0 = (False, w)" for w0
  proof -
    obtain b w5 where b: "ue_wait env w2 = (b, w5)" by fastforce
    have "update_loop env (Suc (Suc n)) (fs, w0) = (if b then (Ctx_done, fs2, w5) else update_loop env (Suc n) (fs2, w5))"
      by (subst update_loop.simps) (simp add: that assms(6,7,9) b del: update_loop.simps split: bool.split)
    then show ?thesis using loop [of fs2 w5] by simp
  qed
  show ?thesis using first later loop by blast
qed

theorem update_lost_witness:
  "let env = test_upd (refuse (Chmod ''/tg.new'')); fs = [''/tg'' \<mapsto> ''old'']
   in fst (update_loop env 2 (fs, ())) = Up_to_date \<and> fst (snd (update_loop env 2 (fs, ()))) ''/tg'' = Some ''old'' \<and>
     fst (CheckForUpdate env (fs, ())) = Inr (''u'', ''v0.8.0'')"
proof -
  let ?env = "test_upd (refuse (Chmod ''/tg.new''))" and ?fs = "[''/tg'' \<mapsto> ''old'']"
  have c: "CheckForUpdate ?env (?fs, ()) = (Inr (''u'', ''v0.8.0''), ?fs(''/tg.etag'' \<mapsto> ''t1''), ())" (is "_ = (_, ?fs1, _)")
    by (simp add: CheckForUpdate_def test_upd_def loadCachedETag_def etagCachePath_def check_headers_def header_set_def to_upper_char_def to_lower_char_def
        saveCachedETag_def do_op_def file_env.truncate_def refuse_def release_of_def dec_obj_def dec_fields_simps release_field_def to_lower_def dec_same asset_field_def
        empty_asset_def assetNameForPlatform_def find_asset_def CurrentVersion_def)
  have "DownloadAndUpdate ?env ''u'' (?fs1, ()) = (Inl Chmod_failed, (?fs1(''/tg.new'' := None)), ())"
    by (simp add: DownloadAndUpdate_def test_upd_def release_url_def install_def do_op_def file_env.truncate_def refuse_def fun_upd_idem)
  then obtain fs2 where d: "fs2 ''/tg'' = Some ''old''" "DownloadAndUpdate ?env ''u'' (?fs1, ()) = (Inl Chmod_failed, fs2, ())"
    by (rule that [rotated]) simp
  have "trim_space ''t1'' = ''t1''" by code_simp
  moreover have "conditional_server ?env ''t1'' \<lparr>rp_status = 200, rp_etag = ''t1'', rp_body = ''r'', rp_cut = False\<rparr>"
    by (simp add: conditional_server_def test_upd_def)
  moreover have "\<forall>w. fst (uf_ok ?env (Write (etagCachePath ?env) ''t1'') w)" "ue_exe ?env = Some ''/tg''" by (simp_all add: test_upd_def refuse_def)
  ultimately have "fst (update_loop ?env (Suc (Suc 0)) (?fs, ())) \<in> {Up_to_date, Ctx_done} \<and> fst (snd (update_loop ?env (Suc (Suc 0)) (?fs, ()))) = fs2"
    using update_lost [OF _ _ _ _ _ c _ _ d(2), of "''t1''" _ "''/tg''" "''old''" 0] by (simp add: test_upd_def)
  moreover have "fst (update_loop ?env (Suc (Suc 0)) (?fs, ())) \<noteq> Ctx_done" by (rule loop_not_done) (simp_all add: test_upd_def)
  ultimately show ?thesis using c d(1) by (simp add: numeral_2_eq_2)
qed

end
