(* ===== verification/Web_Ui.thy ===== *)
theory Web_Ui
  imports Turn_Hub Client_Config Updater
begin

text \<open>
  The local web interface (internal/core/webui.go): the handlers of its API with what they answer, and the interplay of the start and stop
  requests with the goroutines that start the proxy, as a step relation.

  The routes and the script of the page are in Web_Page.
\<close>

section \<open>Requests and answers\<close>

text \<open>\<open>Json\<close> is what json.NewEncoder writes of a map, \<open>Json_config\<close> of a configuration, \<open>Plain\<close> what http.Error writes.\<close>

datatype web_body = Json "(string \<times> json) list" | Json_config Config | Plain string
datatype web_answer = Answer nat web_body

record start_params =
  sp_VkLink :: string
  sp_Peer :: string
  sp_Listen :: string
  sp_WrapKey :: string
  sp_Streams :: int
  sp_UDP :: bool
  sp_Mode :: string
  sp_PeerType :: string

definition no_params :: start_params where
  "no_params = \<lparr>sp_VkLink = [], sp_Peer = [], sp_Listen = [], sp_WrapKey = [], sp_Streams = 0, sp_UDP = False, sp_Mode = [], sp_PeerType = []\<rparr>"

definition params_field :: "string \<times> json \<Rightarrow> start_params \<Rightarrow> start_params option" where
  "params_field kv p = (let k = to_lower (fst kv); j = snd kv in
     if k = ''vk_link'' then map_option (\<lambda>x. p\<lparr>sp_VkLink := x\<rparr>) (dec_str j (sp_VkLink p))
     else if k = ''peer'' then map_option (\<lambda>x. p\<lparr>sp_Peer := x\<rparr>) (dec_str j (sp_Peer p))
     else if k = ''listen'' then map_option (\<lambda>x. p\<lparr>sp_Listen := x\<rparr>) (dec_str j (sp_Listen p))
     else if k = ''wrap_key'' then map_option (\<lambda>x. p\<lparr>sp_WrapKey := x\<rparr>) (dec_str j (sp_WrapKey p))
     else if k = ''streams'' then map_option (\<lambda>x. p\<lparr>sp_Streams := x\<rparr>) (dec_int j (sp_Streams p))
     else if k = ''udp'' then map_option (\<lambda>x. p\<lparr>sp_UDP := x\<rparr>) (dec_bool j (sp_UDP p))
     else if k = ''mode'' then map_option (\<lambda>x. p\<lparr>sp_Mode := x\<rparr>) (dec_str j (sp_Mode p))
     else if k = ''peer_type'' then map_option (\<lambda>x. p\<lparr>sp_PeerType := x\<rparr>) (dec_str j (sp_PeerType p))
     else Some p)"

definition start_defaults :: "start_params \<Rightarrow> start_params" where
  "start_defaults p = p\<lparr>sp_Listen := or_str (sp_Listen p) ''127.0.0.1:9000'', sp_Streams := or_int (sp_Streams p) 4,
     sp_Mode := or_str (sp_Mode p) ''vk_link'', sp_PeerType := or_str (sp_PeerType p) ''proxy_v1''\<rparr>"

text \<open>
  The state: the status, the time it last became running, and the global wrap key.  A POST that is accepted also gives the parameters
  with which a goroutine then calls StartProxy.
\<close>

record web_ui =
  wu_status :: string
  wu_startTime :: "int option"
  wu_key :: bytes

definition NewWebUI :: "bytes \<Rightarrow> web_ui" where
  "NewWebUI key = \<lparr>wu_status = ''stopped'', wu_startTime = None, wu_key = key\<rparr>"

definition SetStatus :: "string \<Rightarrow> int \<Rightarrow> web_ui \<Rightarrow> web_ui" where
  "SetStatus status now s = s\<lparr>wu_status := status, wu_startTime := (if status = ''running'' then Some now else wu_startTime s)\<rparr>"

text \<open>The result of the decoding of the body, then the handler itself.\<close>

definition accept_start :: "int \<Rightarrow> start_params \<Rightarrow> web_ui \<Rightarrow> web_answer \<times> web_ui \<times> start_params option" where
  "accept_start now p0 s =
     (if sp_VkLink p0 = [] \<or> sp_Peer p0 = [] then (Answer 400 (Plain ''vk_link and peer are required''), s, None)
      else
        (let p = start_defaults p0 in
         case (if sp_WrapKey p = [] then (None, wu_key s) else SetWrapKey (sp_WrapKey p) (wu_key s)) of
           (Some e, key) \<Rightarrow> (Answer 400 (Plain ''Invalid wrap key''), s\<lparr>wu_key := key\<rparr>, None)
         | (None, key) \<Rightarrow>
             (Answer 200 (Json [(''status'', JString ''starting''), (''listen'', JString (sp_Listen p)), (''message'', JString ''Proxy starting...'')]),
              SetStatus ''starting'' now (s\<lparr>wu_key := key\<rparr>), Some p)))"

definition handleStart :: "(string \<Rightarrow> json option) \<Rightarrow> int \<Rightarrow> string \<Rightarrow> string \<Rightarrow> web_ui \<Rightarrow> web_answer \<times> web_ui \<times> start_params option" where
  "handleStart parse now verb body s =
     (if verb \<noteq> ''POST'' then (Answer 405 (Plain ''Method not allowed''), s, None)
      else (case Option.bind (parse body) (\<lambda>j. dec_obj params_field j no_params) of
          None \<Rightarrow> (Answer 400 (Plain ''Invalid JSON''), s, None)
        | Some p \<Rightarrow> accept_start now p s))"

text \<open>What the goroutine starts, and the status after StartProxy returned (0 when a stream became ready).\<close>

definition start_call :: "'w start_env \<Rightarrow> web_ui \<Rightarrow> start_params \<Rightarrow> 'w \<Rightarrow> start_out \<times> 'w" where
  "start_call env s p w = StartProxy env (wu_key s) (sp_Peer p) (sp_VkLink p) (sp_Mode p) (sp_Streams p) (sp_Listen p) 4 w"

definition after_start :: "bool \<Rightarrow> int \<Rightarrow> web_ui \<Rightarrow> web_ui" where
  "after_start ok now s = SetStatus (if ok then ''running'' else ''error'') now s"

definition handleStop :: "int \<Rightarrow> web_ui \<Rightarrow> web_answer \<times> web_ui" where
  "handleStop now s = (Answer 200 (Json [(''status'', JString ''stopped''), (''message'', JString ''Proxy stopped'')]), SetStatus ''stopped'' now s)"

text \<open>Times are in nanoseconds.\<close>

definition uptime_text :: "int \<Rightarrow> string" where
  "uptime_text d = (let s = d div 1000000000 in
     int_dec (s div 3600) @ ''h '' @ int_dec (s div 60 mod 60) @ ''m '' @ int_dec (s mod 60) @ ''s'')"

definition handleStatus :: "int \<Rightarrow> web_ui \<Rightarrow> web_answer" where
  "handleStatus now s =
     Answer 200 (Json [(''status'', JString (wu_status s)),
       (''uptime'', JString (case wu_startTime s of Some t \<Rightarrow> if wu_status s = ''running'' then uptime_text (now - t) else [] | None \<Rightarrow> [])),
       (''version'', JString CurrentVersion), (''wrap'', JBool (IsWrapEnabled (wu_key s)))])"

definition handleConfig :: "string \<Rightarrow> web_answer" where
  "handleConfig verb =
     (if verb = ''POST'' then Answer 200 (Json_config (DefaultConfig\<lparr>VKLink := ''https://vk.com/call/join/...'', Peer := ''your.server.com:56001''\<rparr>))
      else Answer 200 (Json_config DefaultConfig))"

text \<open>\<open>msg\<close> is the text of an error.\<close>

definition handleCheckUpdate :: "(update_error \<Rightarrow> string) \<Rightarrow> 'w upd_env \<Rightarrow> files \<times> 'w \<Rightarrow> web_answer \<times> files \<times> 'w" where
  "handleCheckUpdate msg env s =
     (case CheckForUpdate env s of
        (Inl e, s') \<Rightarrow> (Answer 200 (Json [(''status'', JString ''error''), (''message'', JString (msg e))]), s')
      | (Inr (url, version), s') \<Rightarrow>
          if url = [] then (Answer 200 (Json [(''status'', JString ''up-to-date''), (''version'', JString CurrentVersion)]), s')
          else (Answer 200 (Json [(''status'', JString ''update-available''), (''version'', JString version),
              (''current'', JString CurrentVersion), (''downloadUrl'', JString url)]), s'))"

section \<open>What a start request does\<close>

lemma accept_start_cases:
  assumes "accept_start now p0 s = (a, s', Some p)"
  shows "sp_VkLink p \<noteq> [] \<and> sp_Peer p \<noteq> [] \<and> p = start_defaults p0 \<and> wu_status s' = ''starting'' \<and>
    (if sp_WrapKey p = [] then wu_key s' = wu_key s else SetWrapKey (sp_WrapKey p) (wu_key s) = (None, wu_key s'))"
  using assms by (auto simp: accept_start_def Let_def SetStatus_def start_defaults_def split: if_splits prod.splits option.splits)

lemma handleStart_cases:
  assumes "handleStart parse now verb body s = (a, s', Some p)"
  shows "\<exists>p0. accept_start now p0 s = (a, s', Some p)"
  using assms by (auto simp: handleStart_def split: if_splits option.splits)

lemma impl_panic:
  assumes "ns < 0" and "\<And>a w. fst (sn_udpaddr env a w) \<noteq> None" and "\<And>a w. fst (sn_listen env a w)" and "\<And>w. fst (sn_cert env w)"
  shows "fst (startProxyImpl env pa vl mode ns la pc wk w) = Start_panic"
proof -
  have u: "\<exists>ip w'. sn_udpaddr env a w = (Some ip, w')" for a w using assms(2) [of a w] by (cases "sn_udpaddr env a w") auto
  obtain pr w1 where p: "resolve_peer env pa w = (Some pr, w1)"
  proof -
    have "\<exists>a w'. resolve_peer env pa w = sn_udpaddr env a w'" unfolding resolve_peer_def
      by (auto split: option.split prod.split)
    then show thesis using u that by metis
  qed
  obtain w2 where l: "sn_listen env la w1 = (True, w2)" using assms(3) [of la w1] by (cases "sn_listen env la w1") auto
  obtain w3 where c: "sn_cert env w2 = (True, w3)" using assms(4) [of w2] by (cases "sn_cert env w2") auto
  show ?thesis using assms(1) by (simp add: startProxyImpl_def p l c)
qed

text \<open>
  What an accepted start request does to the key and to the process: without a key the proxy seals with the key of an
  earlier request, which no later request can take back; and the number of streams is not checked, so a
  negative one, on a machine where the address resolves and the socket opens, is answered with "starting" and then crashes the program.
\<close>

theorem web_start_request:
  assumes "handleStart parse now verb body s = (a, s', Some p)" and "length (wu_key s) \<in> {0, 32}"
  shows "(\<exists>listen. a = Answer 200 (Json [(''status'', JString ''starting''), (''listen'', JString listen), (''message'', JString ''Proxy starting...'')])) \<and>
    (wu_key s \<noteq> [] \<longrightarrow> wu_key s' \<noteq> []) \<and>
    (start_call env s' p w = (Started px, w') \<longrightarrow>
      px_wrap px = (if sp_WrapKey p = [] then wu_key s else wu_key s') \<and> (sp_WrapKey p \<noteq> [] \<longrightarrow> hex_encode (px_wrap px) = to_lower (sp_WrapKey p))) \<and>
    (sp_Streams p < 0 \<longrightarrow> (\<forall>a w. fst (sn_udpaddr env a w) \<noteq> None) \<longrightarrow> (\<forall>a w. fst (sn_listen env a w)) \<longrightarrow> (\<forall>w. fst (sn_cert env w)) \<longrightarrow>
      fst (start_call env s' p w) = Start_panic)"
proof -
  obtain p0 where p0: "accept_start now p0 s = (a, s', Some p)" using handleStart_cases [OF assms(1)] by blast
  note c = accept_start_cases [OF p0]
  have a: "\<exists>listen. a = Answer 200 (Json [(''status'', JString ''starting''), (''listen'', JString listen), (''message'', JString ''Proxy starting...'')])"
    using p0 by (auto simp: accept_start_def Let_def split: if_splits prod.splits option.splits)
  have key: "sp_WrapKey p \<noteq> [] \<Longrightarrow> length (wu_key s') = 32 \<and> hex_decode (sp_WrapKey p) = Some (wu_key s')"
    "sp_WrapKey p = [] \<Longrightarrow> wu_key s' = wu_key s" using c SetWrapKey_length by (auto split: if_splits)
  have kept: "wu_key s \<noteq> [] \<longrightarrow> wu_key s' \<noteq> []" using key by (cases "sp_WrapKey p = []") auto
  have wrap: "px_wrap px = wu_key s'" if "start_call env s' p w = (Started px, w')"
  proof -
    have "wu_key s' = [] \<or> length (wu_key s') = 32" using key assms(2) by (cases "sp_WrapKey p = []") auto
    then show ?thesis using started_fields [OF that [unfolded start_call_def StartProxy_def]] wrap_key_kept by simp
  qed
  have hex: "hex_encode (wu_key s') = to_lower (sp_WrapKey p)" if "sp_WrapKey p \<noteq> []" using key(1) [OF that] hex_encode_decode by blast
  have px: "start_call env s' p w = (Started px, w') \<longrightarrow>
      px_wrap px = (if sp_WrapKey p = [] then wu_key s else wu_key s') \<and> (sp_WrapKey p \<noteq> [] \<longrightarrow> hex_encode (px_wrap px) = to_lower (sp_WrapKey p))"
    using wrap hex key(2) by auto
  have crash: "sp_Streams p < 0 \<longrightarrow> (\<forall>a w. fst (sn_udpaddr env a w) \<noteq> None) \<longrightarrow> (\<forall>a w. fst (sn_listen env a w)) \<longrightarrow> (\<forall>w. fst (sn_cert env w)) \<longrightarrow>
      fst (start_call env s' p w) = Start_panic"
    unfolding start_call_def StartProxy_def using impl_panic [of "sp_Streams p" env] by blast
  show ?thesis using a kept px crash by (intro conjI)
qed

text \<open>Two requests: the first sets a key, the second has none and asks for -1 streams.\<close>

definition post_1 :: json where
  "post_1 = JObj [(''vk_link'', JString ''l''), (''peer'', JString ''1.2.3.4:5''), (''wrap_key'', JString (concat (replicate 32 ''ab'')))]"

definition post_2 :: json where
  "post_2 = JObj [(''vk_link'', JString ''l''), (''peer'', JString ''1.2.3.4:5''), (''streams'', JInt (- 1))]"

lemma post_accepted:
  "handleStart (\<lambda>_. Some post_1) 0 ''POST'' [] (NewWebUI []) = (a, s, p) \<Longrightarrow> wu_key s = replicate 32 0xAB \<and> p \<noteq> None"
  "\<exists>a s' p. handleStart (\<lambda>_. Some post_2) 0 ''POST'' [] s = (a, s', Some p) \<and> sp_Streams p = - 1 \<and> sp_WrapKey p = []"
proof -
  have "SetWrapKey (concat (replicate 32 ''ab'')) [] = (None, replicate 32 0xAB)" by code_simp
  then show "handleStart (\<lambda>_. Some post_1) 0 ''POST'' [] (NewWebUI []) = (a, s, p) \<Longrightarrow> wu_key s = replicate 32 0xAB \<and> p \<noteq> None"
    by (auto simp: handleStart_def post_1_def dec_obj_def dec_fields_simps params_field_def to_lower_def to_lower_char_def dec_same no_params_def
        accept_start_def start_defaults_def or_str_def NewWebUI_def SetStatus_def)
  show "\<exists>a s' p. handleStart (\<lambda>_. Some post_2) 0 ''POST'' [] s = (a, s', Some p) \<and> sp_Streams p = - 1 \<and> sp_WrapKey p = []"
    by (simp add: handleStart_def post_2_def dec_obj_def dec_fields_simps params_field_def to_lower_def to_lower_char_def dec_same no_params_def
        accept_start_def start_defaults_def or_str_def or_int_def)
qed

theorem web_start_request_witness:
  "\<exists>a s' p. handleStart (\<lambda>_. Some post_2) 0 ''POST'' [] (NewWebUI (replicate 32 0xAB)) = (a, s', Some p) \<and> wu_key s' \<noteq> [] \<and>
     fst (start_call test_start s' p ()) = Start_panic"
proof -
  obtain a s' p where p: "handleStart (\<lambda>_. Some post_2) 0 ''POST'' [] (NewWebUI (replicate 32 0xAB)) = (a, s', Some p)" "sp_Streams p = - 1"
    using post_accepted(2) by blast
  have "wu_key (NewWebUI (replicate 32 0xAB)) \<noteq> []" by (simp add: NewWebUI_def)
  moreover have "\<forall>a w. fst (sn_udpaddr test_start a w) \<noteq> None" "\<forall>a w. fst (sn_listen test_start a w)" "\<forall>w. fst (sn_cert test_start w)"
    by (simp_all add: test_start_def)
  moreover have "sp_Streams p < 0" using p(2) by simp
  ultimately show ?thesis using web_start_request [OF p(1), of test_start "()"] p(1) by (auto simp: NewWebUI_def)
qed

section \<open>Overlapping requests\<close>

text \<open>
  The goroutines of the start requests, by number: each waits to run, then has called StartProxy, which replaces the proxy that runs and waits
  for its first stream or for its context, then has the result, then has set the status.
\<close>

datatype start_phase = Spawned | Calling | Got bool | Finished bool

text \<open>
  \<open>ws_cur\<close> is currentTurnCancel, as the number of the request whose proxy it stops; \<open>ws_cancelled\<close> the requests whose context is
  done; \<open>ws_stopping\<close> the stop requests that have called StopProxy and not yet set the status.
\<close>

record web_sys =
  ws_status :: string
  ws_phase :: "nat \<Rightarrow> start_phase option"
  ws_cur :: "nat option"
  ws_cancelled :: "nat set"
  ws_stopping :: nat

definition web_init :: web_sys where
  "web_init = \<lparr>ws_status = ''stopped'', ws_phase = Map.empty, ws_cur = None, ws_cancelled = {}, ws_stopping = 0\<rparr>"

definition cancel_cur :: "web_sys \<Rightarrow> web_sys" where
  "cancel_cur s = s\<lparr>ws_cancelled := ws_cancelled s \<union> set_option (ws_cur s)\<rparr>"

text \<open>The first argument tells the two requests from what follows them.\<close>

inductive web_step :: "bool \<Rightarrow> web_sys \<Rightarrow> web_sys \<Rightarrow> bool" where
  w_start: "ws_phase s i = None \<Longrightarrow> web_step True s (s\<lparr>ws_status := ''starting'', ws_phase := (ws_phase s)(i \<mapsto> Spawned)\<rparr>)"
| w_stop: "web_step True s ((cancel_cur s)\<lparr>ws_cur := None, ws_stopping := Suc (ws_stopping s)\<rparr>)"
| w_stopped: "ws_stopping s = Suc n \<Longrightarrow> web_step False s (s\<lparr>ws_status := ''stopped'', ws_stopping := n\<rparr>)"
| w_call: "ws_phase s i = Some Spawned \<Longrightarrow> web_step False s ((cancel_cur s)\<lparr>ws_cur := Some i, ws_phase := (ws_phase s)(i \<mapsto> Calling)\<rparr>)"
| w_ready: "ws_phase s i = Some Calling \<Longrightarrow> i \<notin> ws_cancelled s \<Longrightarrow> web_step False s (s\<lparr>ws_phase := (ws_phase s)(i \<mapsto> Got True)\<rparr>)"
| w_failed: "ws_phase s i = Some Calling \<Longrightarrow> web_step False s (s\<lparr>ws_phase := (ws_phase s)(i \<mapsto> Got False)\<rparr>)"
| w_result: "ws_phase s i = Some (Got ok) \<Longrightarrow>
    web_step False s (s\<lparr>ws_status := (if ok then ''running'' else ''error''), ws_phase := (ws_phase s)(i \<mapsto> Finished ok)\<rparr>)"


text \<open>Nothing is under way; the proxy of the current request runs.\<close>

definition settled :: "web_sys \<Rightarrow> bool" where
  "settled s \<longleftrightarrow> ws_stopping s = 0 \<and> (\<forall>i ph. ws_phase s i = Some ph \<longrightarrow> (\<exists>b. ph = Finished b))"

definition live :: "web_sys \<Rightarrow> bool" where
  "live s \<longleftrightarrow> (\<exists>i. ws_cur s = Some i \<and> i \<notin> ws_cancelled s \<and> ws_phase s i \<in> {Some (Got True), Some (Finished True)})"

text \<open>Requests one at a time: the next one comes when nothing is under way.\<close>

definition one_at_a_time :: "web_sys \<Rightarrow> web_sys \<Rightarrow> bool" where
  "one_at_a_time s s' \<longleftrightarrow> web_step False s s' \<or> web_step True s s' \<and> settled s"

definition others_done :: "nat \<Rightarrow> web_sys \<Rightarrow> bool" where
  "others_done i s \<longleftrightarrow> (\<forall>j ph. j \<noteq> i \<longrightarrow> ws_phase s j = Some ph \<longrightarrow> (\<exists>b. ph = Finished b))"

definition web_inv :: "web_sys \<Rightarrow> bool" where
  "web_inv s \<longleftrightarrow> ws_cancelled s \<union> set_option (ws_cur s) \<subseteq> dom (ws_phase s) \<and>
     (settled s \<and> (ws_status s = ''running'' \<and> live s \<or> ws_status s = ''stopped'' \<and> ws_cur s = None \<or>
        ws_status s = ''error'' \<and> (\<exists>i. ws_cur s = Some i \<and> ws_phase s i = Some (Finished False))) \<or>
      ws_stopping s = 1 \<and> ws_cur s = None \<and> (\<forall>i ph. ws_phase s i = Some ph \<longrightarrow> (\<exists>b. ph = Finished b)) \<or>
      ws_stopping s = 0 \<and> (\<exists>i. i \<notin> ws_cancelled s \<and> others_done i s \<and>
        (ws_phase s i = Some Spawned \<and> ws_cur s \<noteq> Some i \<or> ws_cur s = Some i \<and> (\<exists>ph. ws_phase s i = Some ph \<and> ph \<in> {Calling, Got True, Got False}))))"

lemma web_inv_busy:
  assumes "ws_cancelled s \<union> set_option (ws_cur s) \<subseteq> dom (ws_phase s)" and "ws_stopping s = 0" and "i \<notin> ws_cancelled s" and "others_done i s"
    and "ws_phase s i = Some Spawned \<and> ws_cur s \<noteq> Some i \<or> ws_cur s = Some i \<and> (\<exists>ph. ws_phase s i = Some ph \<and> ph \<in> {Calling, Got True, Got False})"
  shows "web_inv s"
  unfolding web_inv_def by (intro conjI disjI2 exI [of _ i] assms)

lemma web_inv_busyD:
  assumes "web_inv s" and "ws_phase s i = Some ph" and "\<And>b. ph \<noteq> Finished b"
  shows "ws_cancelled s \<union> set_option (ws_cur s) \<subseteq> dom (ws_phase s) \<and> ws_stopping s = 0 \<and> i \<notin> ws_cancelled s \<and> others_done i s \<and>
    (ph = Spawned \<and> ws_cur s \<noteq> Some i \<or> ws_cur s = Some i \<and> ph \<in> {Calling, Got True, Got False})"
proof -
  have "\<not> (\<forall>i ph. ws_phase s i = Some ph \<longrightarrow> (\<exists>b. ph = Finished b))" using assms(2,3) by blast
  then obtain k where k: "ws_stopping s = 0" "k \<notin> ws_cancelled s" "others_done k s" "ws_phase s k = Some Spawned \<and> ws_cur s \<noteq> Some k \<or>
      ws_cur s = Some k \<and> (\<exists>ph. ws_phase s k = Some ph \<and> ph \<in> {Calling, Got True, Got False})"
    using assms(1) unfolding web_inv_def settled_def by blast
  have "k = i" using k(3) assms(2,3) unfolding others_done_def by metis
  moreover have "ws_cancelled s \<union> set_option (ws_cur s) \<subseteq> dom (ws_phase s)" using assms(1) by (simp add: web_inv_def)
  ultimately show ?thesis using k assms(2) by auto
qed

lemma others_done_upd: "others_done i s \<Longrightarrow> ws_phase s' = (ws_phase s)(i := x) \<Longrightarrow> others_done i s'"
  by (simp add: others_done_def)

lemma web_inv_step:
  assumes "web_inv s" and "one_at_a_time s s'"
  shows "web_inv s'"
proof -
  have "web_step False s s' \<or> web_step True s s' \<and> settled s" using assms(2) by (simp add: one_at_a_time_def)
  then obtain b where b: "web_step b s s'" "b \<longrightarrow> settled s" by auto
  from b(1) show ?thesis
  proof cases
    case (w_start i)
    have o: "others_done i s" using b(2) w_start(1) by (simp add: settled_def others_done_def)
    have "i \<notin> dom (ws_phase s)" "ws_cancelled s \<union> set_option (ws_cur s) \<subseteq> dom (ws_phase s)" using assms(1) w_start(3) by (auto simp: web_inv_def)
    then show ?thesis using b(2) w_start o others_done_upd [OF o, of s'] by (intro web_inv_busy [of s' i]) (auto simp: settled_def)
  next
    case w_stop
    then show ?thesis using assms(1) b(2) unfolding web_inv_def settled_def cancel_cur_def by auto
  next
    case (w_stopped n)
    then show ?thesis using assms(1) unfolding web_inv_def settled_def by auto
  next
    case (w_call i)
    note k = web_inv_busyD [OF assms(1) w_call(3)]
    have f: "ws_cur s' = Some i" "ws_cancelled s' = ws_cancelled s \<union> set_option (ws_cur s)" "ws_phase s' = (ws_phase s)(i \<mapsto> Calling)" "ws_stopping s' = 0"
      using k w_call(2) by (simp_all add: cancel_cur_def)
    show ?thesis using k others_done_upd [OF _ f(3)] by (intro web_inv_busy [of s' i]) (auto simp: f)
  next
    case (w_ready i)
    note k = web_inv_busyD [OF assms(1) w_ready(3)]
    show ?thesis using k w_ready(2,3) others_done_upd [of i s s'] by (intro web_inv_busy [of s' i]) auto
  next
    case (w_failed i)
    note k = web_inv_busyD [OF assms(1) w_failed(3)]
    show ?thesis using k w_failed(2,3) others_done_upd [of i s s'] by (intro web_inv_busy [of s' i]) auto
  next
    case (w_result i ok)
    have k: "ws_cancelled s \<union> set_option (ws_cur s) \<subseteq> dom (ws_phase s)" "ws_stopping s = 0" "i \<notin> ws_cancelled s" "others_done i s" "ws_cur s = Some i"
      using web_inv_busyD [OF assms(1) w_result(3)] by auto
    have f: "ws_cur s' = Some i" "ws_cancelled s' = ws_cancelled s" "ws_phase s' = (ws_phase s)(i \<mapsto> Finished ok)" "ws_stopping s' = 0"
      "ws_status s' = (if ok then ''running'' else ''error'')" using k(2,5) w_result(2) by simp_all
    have "settled s'" using k(4) by (auto simp: settled_def others_done_def f(3,4))
    moreover have "ok \<Longrightarrow> live s'" using k(3) by (simp add: live_def f)
    moreover have "ws_cancelled s' \<union> set_option (ws_cur s') \<subseteq> dom (ws_phase s')" using k(1) by (auto simp: f)
    ultimately show ?thesis unfolding web_inv_def by (cases ok) (simp_all add: f)
  qed
qed

interpretation web_sys: kept_by_steps one_at_a_time web_inv
  by unfold_locales (rule web_inv_step)


text \<open>
  Requests that overlap do not: from any state in which nothing is under way, a stop request that comes before the goroutine of a
  start request ran can end, with no further request, with the proxy running and the status "running"; and two start requests can end with a
  running proxy and the status "error", in which the page offers no stop.
\<close>

theorem web_overlap:
  assumes "settled s" and "ws_phase s i = None" and "ws_phase s j = None" and "i \<noteq> j" and "i \<notin> ws_cancelled s" and "j \<notin> ws_cancelled s"
    and "ws_cur s \<noteq> Some i" and "ws_cur s \<noteq> Some j"
  shows "(\<exists>s1 s2 s3. web_step True s s1 \<and> web_step True s1 s2 \<and> ws_cur s2 = None \<and> (web_step False)\<^sup>*\<^sup>* s2 s3 \<and> settled s3 \<and> ws_status s3 = ''running'' \<and> live s3) \<and>
    (\<exists>s1 s2 s3. web_step True s s1 \<and> web_step True s1 s2 \<and> (web_step False)\<^sup>*\<^sup>* s2 s3 \<and> settled s3 \<and> ws_status s3 = ''error'' \<and> live s3)"
proof
  let ?s1 = "s\<lparr>ws_status := ''starting'', ws_phase := (ws_phase s)(i \<mapsto> Spawned)\<rparr>"
  let ?s2 = "(cancel_cur ?s1)\<lparr>ws_cur := None, ws_stopping := Suc (ws_stopping ?s1)\<rparr>"
  let ?s3 = "?s2\<lparr>ws_status := ''stopped'', ws_stopping := 0\<rparr>"
  let ?s4 = "(cancel_cur ?s3)\<lparr>ws_cur := Some i, ws_phase := (ws_phase ?s3)(i \<mapsto> Calling)\<rparr>"
  let ?s5 = "?s4\<lparr>ws_phase := (ws_phase ?s4)(i \<mapsto> Got True)\<rparr>"
  let ?s6 = "?s5\<lparr>ws_status := ''running'', ws_phase := (ws_phase ?s5)(i \<mapsto> Finished True)\<rparr>"
  have z: "ws_stopping s = 0" using assms(1) by (simp add: settled_def)
  have "web_step False ?s2 ?s3" using w_stopped [of ?s2 0] z by (simp add: cancel_cur_def)
  moreover have "web_step False ?s3 ?s4" by (rule w_call) (simp add: cancel_cur_def)
  moreover have "web_step False ?s4 ?s5" by (rule w_ready) (use assms(5,7) in \<open>auto simp: cancel_cur_def\<close>)
  moreover have "web_step False ?s5 ?s6" using w_result [of ?s5 i True] by simp
  ultimately have r: "(web_step False)\<^sup>*\<^sup>* ?s2 ?s6" by (meson converse_rtranclp_into_rtranclp r_into_rtranclp)
  have "settled ?s6" "live ?s6" using assms(1,5,7) by (auto simp: settled_def live_def cancel_cur_def)
  then show "\<exists>s1 s2 s3. web_step True s s1 \<and> web_step True s1 s2 \<and> ws_cur s2 = None \<and> (web_step False)\<^sup>*\<^sup>* s2 s3 \<and> settled s3 \<and> ws_status s3 = ''running'' \<and> live s3"
    using w_start [OF assms(2)] w_stop [of ?s1] r by (intro exI [of _ ?s1] exI [of _ ?s2] exI [of _ ?s6]) simp
next
  let ?s1 = "s\<lparr>ws_status := ''starting'', ws_phase := (ws_phase s)(i \<mapsto> Spawned)\<rparr>"
  let ?s2 = "?s1\<lparr>ws_status := ''starting'', ws_phase := (ws_phase ?s1)(j \<mapsto> Spawned)\<rparr>"
  let ?s3 = "(cancel_cur ?s2)\<lparr>ws_cur := Some i, ws_phase := (ws_phase ?s2)(i \<mapsto> Calling)\<rparr>"
  let ?s4 = "(cancel_cur ?s3)\<lparr>ws_cur := Some j, ws_phase := (ws_phase ?s3)(j \<mapsto> Calling)\<rparr>"
  let ?s5 = "?s4\<lparr>ws_phase := (ws_phase ?s4)(i \<mapsto> Got False)\<rparr>"
  let ?s6 = "?s5\<lparr>ws_phase := (ws_phase ?s5)(j \<mapsto> Got True)\<rparr>"
  let ?s7 = "?s6\<lparr>ws_status := ''running'', ws_phase := (ws_phase ?s6)(j \<mapsto> Finished True)\<rparr>"
  let ?s8 = "?s7\<lparr>ws_status := ''error'', ws_phase := (ws_phase ?s7)(i \<mapsto> Finished False)\<rparr>"
  have s2: "web_step True ?s1 ?s2" by (rule w_start) (use assms(3,4) in simp)
  have "web_step False ?s2 ?s3" by (rule w_call) (use assms(4) in simp)
  moreover have "web_step False ?s3 ?s4" by (rule w_call) (use assms(4) in \<open>simp add: cancel_cur_def\<close>)
  moreover have "web_step False ?s4 ?s5" by (rule w_failed) (use assms(4) in \<open>simp add: cancel_cur_def\<close>)
  moreover have "web_step False ?s5 ?s6" by (rule w_ready) (use assms(4,6,8) in \<open>auto simp: cancel_cur_def\<close>)
  moreover have "web_step False ?s6 ?s7" using w_result [of ?s6 j True] by simp
  moreover have "web_step False ?s7 ?s8" using w_result [of ?s7 i False] assms(4) by simp
  ultimately have r: "(web_step False)\<^sup>*\<^sup>* ?s2 ?s8" by (meson converse_rtranclp_into_rtranclp r_into_rtranclp)
  have "settled ?s8" "live ?s8" using assms(1,4,6,8) by (auto simp: settled_def live_def cancel_cur_def)
  then show "\<exists>s1 s2 s3. web_step True s s1 \<and> web_step True s1 s2 \<and> (web_step False)\<^sup>*\<^sup>* s2 s3 \<and> settled s3 \<and> ws_status s3 = ''error'' \<and> live s3"
    using w_start [OF assms(2)] s2 r by (intro exI [of _ ?s1] exI [of _ ?s2] exI [of _ ?s8]) simp
qed



theorem web_overlap_witness:
  "\<exists>s1 s2 s3. web_step True web_init s1 \<and> web_step True s1 s2 \<and> (web_step False)\<^sup>*\<^sup>* s2 s3 \<and> settled s3 \<and> ws_status s3 = ''error'' \<and> live s3"
proof -
  have "settled web_init" "ws_phase web_init 0 = None" "ws_phase web_init 1 = None" "(0::nat) \<noteq> 1" "0 \<notin> ws_cancelled web_init" "1 \<notin> ws_cancelled web_init"
    "ws_cur web_init \<noteq> Some 0" "ws_cur web_init \<noteq> Some 1" by (simp_all add: web_init_def settled_def)
  from conjunct2 [OF web_overlap [OF this]] show ?thesis .
qed

end
