(* ===== verification/Captcha_Proxy.thy ===== *)
theory Captcha_Proxy
  imports Captcha_Session
begin

text \<open>
  The local proxy for solving a captcha by hand (internal/core/captcha_server.go): what it makes of the browser's requests and of VK's
  answers, the script it injects, and the callback that brings the token.

  Parameters: reaching VK, decompression, and the text of the injected script, of which only the place matters here.  The
  parts of the captcha's address are arguments.  Not modelled: the reverse proxy's own headers, the browser.  The text of the script and the solver
  around the proxy are in Captcha_Manual.
\<close>

section \<open>Requests to VK\<close>

record web_request =
  wr_verb :: string
  wr_path :: string
  wr_query :: string
  wr_headers :: headers

definition header_get :: "string \<Rightarrow> headers \<Rightarrow> string" where
  "header_get k hs = (case map_of hs (canonical_key True k) of Some v \<Rightarrow> v | None \<Rightarrow> [])"

definition header_del :: "string \<Rightarrow> headers \<Rightarrow> headers" where
  "header_del k hs = filter (\<lambda>(j, _). j \<noteq> canonical_key True k) hs"

record captcha_target =
  ct_host :: string
  ct_path :: string
  ct_query :: string

definition fix_local :: "string \<Rightarrow> string \<Rightarrow> headers \<Rightarrow> headers" where
  "fix_local k v hs = (if str_contains (header_get k hs) ''127.0.0.1'' then header_set k v hs else hs)"

definition Director :: "captcha_target \<Rightarrow> web_request \<Rightarrow> web_request" where
  "Director t r =
     (let r1 = (if wr_path r = ''/'' \<or> wr_path r = [] then r\<lparr>wr_path := ct_path t, wr_query := ct_query t\<rparr> else r) in
      r1\<lparr>wr_headers := fix_local ''Origin'' (''https://'' @ ct_host t)
           (fix_local ''Referer'' (''https://'' @ ct_host t @ ''/'') (header_del ''Accept-Encoding'' (wr_headers r1)))\<rparr>)"

section \<open>Answers of VK\<close>

record web_response =
  ws_code :: nat
  ws_hdrs :: headers
  ws_body :: string

text \<open>A decompressor: none when it cannot start, else what it reads and whether it reads to the end.\<close>

type_synonym inflate = "string \<Rightarrow> (string \<times> bool) option"

definition text_type :: "string \<Rightarrow> bool" where
  "text_type ct \<longleftrightarrow> list_ex (str_contains ct)
     [''text/html'', ''application/javascript'', ''text/javascript'', ''application/json'', ''text/css'']"

text \<open>No answer stands for the abort of the handler when the body breaks off while it is copied.\<close>

definition ModifyResponse :: "inflate \<Rightarrow> inflate \<Rightarrow> web_response \<Rightarrow> web_response option" where
  "ModifyResponse gunzip unzlib resp =
     (let enc = to_lower (header_get ''Content-Encoding'' (ws_hdrs resp));
          plain = (\<lambda>f. case f (ws_body resp) of
             None \<Rightarrow> Some resp
           | Some (b, whole) \<Rightarrow> if whole then Some (resp\<lparr>ws_hdrs := header_del ''Content-Length'' (header_del ''Content-Encoding'' (ws_hdrs resp)), ws_body := b\<rparr>) else None) in
      if enc = [] \<or> \<not> text_type (to_lower (header_get ''Content-Type'' (ws_hdrs resp))) then Some resp
      else if enc = ''gzip'' then plain gunzip
      else if enc = ''deflate'' then plain unzlib
      else Some resp)"

text \<open>The decompression of what still is encoded, and the encoding that counts afterwards.\<close>

definition fallback_decode :: "inflate \<Rightarrow> inflate \<Rightarrow> string \<Rightarrow> string \<Rightarrow> string \<times> string" where
  "fallback_decode gunzip unzlib enc body =
     (let decoded = (\<lambda>f. case f body of Some (b, True) \<Rightarrow> b | _ \<Rightarrow> body) in
      if enc = ''gzip'' then (decoded gunzip, [])
      else if enc = ''deflate'' then (decoded unzlib, [])
      else (body, enc))"

section \<open>The injected script\<close>

text \<open>\<open>strings.Replace(s, old, new, 1)\<close> for a nonempty \<open>old\<close>.\<close>

fun replace_first :: "string \<Rightarrow> string \<Rightarrow> string \<Rightarrow> string" where
  "replace_first [] old new = []"
| "replace_first (c # s) old new =
     (if prefix old (c # s) then new @ drop (length old) (c # s) else c # replace_first s old new)"

definition inject :: "string \<Rightarrow> string \<Rightarrow> string" where
  "inject js body =
     (if str_contains body ''</head>'' then replace_first body ''</head>'' (js @ ''</head>'')
      else if str_contains body ''</body>'' then replace_first body ''</body>'' (js @ ''</body>'')
      else body @ js)"

definition fold_in :: "string \<Rightarrow> string list \<Rightarrow> bool" where
  "fold_in k ks \<longleftrightarrow> to_lower k \<in> to_lower ` set ks"

text \<open>What the browser gets for an answer of VK.\<close>

definition relay_response :: "inflate \<Rightarrow> inflate \<Rightarrow> string \<Rightarrow> web_response \<Rightarrow> web_response" where
  "relay_response gunzip unzlib js rec =
     (case fallback_decode gunzip unzlib (to_lower (header_get ''Content-Encoding'' (ws_hdrs rec))) (ws_body rec) of (body, enc) \<Rightarrow>
        let kept = filter (\<lambda>(k, _). \<not> fold_in k [''Content-Encoding'', ''Content-Length'']) (ws_hdrs rec) in
        if str_contains (header_get ''Content-Type'' (ws_hdrs rec)) ''text/html''
        then \<lparr>ws_code = ws_code rec, ws_hdrs = header_set ''Access-Control-Allow-Origin'' ''*'' kept, ws_body = inject js body\<rparr>
        else \<lparr>ws_code = ws_code rec, ws_hdrs = (if enc = [] then kept else ws_hdrs rec), ws_body = body\<rparr>)"

section \<open>The handler\<close>

text \<open>
  The state is the channel for the token, of capacity 1.  VK answers a request or cannot be reached, which the reverse proxy
  answers with 502.
\<close>

datatype handled = Replied web_response | Aborted

definition handle :: "(web_request \<Rightarrow> web_response option) \<Rightarrow> inflate \<Rightarrow> inflate \<Rightarrow> string \<Rightarrow> captcha_target \<Rightarrow>
    web_request \<Rightarrow> string option \<Rightarrow> handled \<times> string option" where
  "handle vk gunzip unzlib js t r chan =
     (if wr_path r = ''/captcha_callback'' then
        (let token = query_get (wr_query r) ''token'' in
         if token \<noteq> [] then (Replied \<lparr>ws_code = 200, ws_hdrs = [], ws_body = ''OK''\<rparr>, (case chan of None \<Rightarrow> Some token | Some _ \<Rightarrow> chan))
         else (Replied \<lparr>ws_code = 400, ws_hdrs = [], ws_body = []\<rparr>, chan))
      else
        (case vk (Director t r) of
           None \<Rightarrow> (Replied (relay_response gunzip unzlib js \<lparr>ws_code = 502, ws_hdrs = [], ws_body = []\<rparr>), chan)
         | Some resp \<Rightarrow>
             (case ModifyResponse gunzip unzlib resp of
                None \<Rightarrow> (Aborted, chan)
              | Some rec \<Rightarrow> (Replied (relay_response gunzip unzlib js rec), chan))))"

fun handle_all :: "(web_request \<Rightarrow> web_response option) \<Rightarrow> inflate \<Rightarrow> inflate \<Rightarrow> string \<Rightarrow> captcha_target \<Rightarrow>
    web_request list \<Rightarrow> string option \<Rightarrow> string option" where
  "handle_all vk gunzip unzlib js t [] chan = chan"
| "handle_all vk gunzip unzlib js t (r # rs) chan = handle_all vk gunzip unzlib js t rs (snd (handle vk gunzip unzlib js t r chan))"

text \<open>The result of SolveCaptchaWithProxy, by the requests that arrive within the 180 seconds it waits.\<close>

definition proxy_token :: "(web_request \<Rightarrow> web_response option) \<Rightarrow> inflate \<Rightarrow> inflate \<Rightarrow> string \<Rightarrow> captcha_target \<Rightarrow> web_request list \<Rightarrow> string" where
  "proxy_token vk gunzip unzlib js t rs = (case handle_all vk gunzip unzlib js t rs None of None \<Rightarrow> [] | Some token \<Rightarrow> token)"

section \<open>Properties\<close>

lemma replace_first_at:
  assumes "\<not> sublist old (p @ butlast old)" and "old \<noteq> []"
  shows "replace_first (p @ old @ s) old new = p @ new @ s"
  using assms
proof (induction p)
  case Nil
  then obtain c o' where "old = c # o'" by (cases old) auto
  then show ?case by simp
next
  case (Cons a p)
  have n: "\<not> prefix old (a # p @ old @ s)"
  proof
    assume "prefix old (a # p @ old @ s)"
    moreover have "prefix ((a # p) @ butlast old) (a # p @ old @ s)" using Cons.prems(2)
      by (metis append.assoc append_Cons append_butlast_last_id prefixI)
    moreover have "length old \<le> length ((a # p) @ butlast old)" using Cons.prems(2) by simp
    ultimately have "prefix old ((a # p) @ butlast old)" by (metis prefix_length_prefix)
    then show False using Cons.prems(1) by (meson prefix_imp_sublist)
  qed
  have "\<not> sublist old (p @ butlast old)" using Cons.prems(1) by (metis append_Cons sublist_Cons_right)
  then have "replace_first (p @ old @ s) old new = p @ new @ s" using Cons.IH Cons.prems(2) by blast
  then show ?case using n by simp
qed

lemma callback_chan: "snd (handle vk gunzip unzlib js t r (Some x)) = Some x"
  by (auto simp: handle_def Let_def split: option.split)

lemma handle_all_taken: "handle_all vk gunzip unzlib js t rs (Some x) = Some x"
  by (induction rs) (simp_all add: callback_chan)

definition callback_token :: "web_request \<Rightarrow> string" where
  "callback_token r = (if wr_path r = ''/captcha_callback'' then query_get (wr_query r) ''token'' else [])"

lemma handle_none: "snd (handle vk gunzip unzlib js t r None) = (if callback_token r = [] then None else Some (callback_token r))"
  by (auto simp: handle_def callback_token_def Let_def split: option.split)

text \<open>
  The token of a captcha solved by hand is the first nonempty one that any request brings to the callback, and the empty text when none does: nothing
  but the path and the query counts, neither the method nor the headers nor whether VK gave that token, so that any page the user has open can end the
  captcha with a token of its own.
\<close>

theorem captcha_callback_token:
  "proxy_token vk gunzip unzlib js t rs = (case List.find (\<lambda>r. callback_token r \<noteq> []) rs of None \<Rightarrow> [] | Some r \<Rightarrow> callback_token r) \<and>
   proxy_token vk gunzip unzlib js t (\<lparr>wr_verb = verb, wr_path = ''/captcha_callback'', wr_query = ''token='' @ QueryEscape x, wr_headers = hs\<rparr> # rs) =
     (if x \<noteq> [] then x else proxy_token vk gunzip unzlib js t rs)"
proof -
  have "val_encode [(''token'', x)] = ''token='' @ QueryEscape x" by (simp add: val_encode_def QueryEscape_def query_escape_char_def unreserved_def Let_def)
  then have q: "query_get (''token='' @ QueryEscape x) ''token'' = x" using parse_query_encode [of "[(''token'', x)]"] by (simp add: query_get_def)
  have a: "proxy_token vk gunzip unzlib js t rs = (case List.find (\<lambda>r. callback_token r \<noteq> []) rs of None \<Rightarrow> [] | Some r \<Rightarrow> callback_token r)" for rs
  proof (induction rs)
    case Nil
    show ?case by (simp add: proxy_token_def)
  next
    case (Cons r rs)
    then show ?case by (simp add: proxy_token_def handle_none handle_all_taken)
  qed
  have t: "callback_token \<lparr>wr_verb = verb, wr_path = ''/captcha_callback'', wr_query = ''token='' @ QueryEscape x, wr_headers = hs\<rparr> = x"
    unfolding callback_token_def web_request.select_convs q by simp
  show ?thesis unfolding a using t by simp
qed


lemma to_lower_contains: "str_contains s p \<Longrightarrow> to_lower p = p \<Longrightarrow> str_contains (to_lower s) p"
  unfolding str_contains_iff to_lower_def by (metis map_append sublist_def)

lemma header_get_del: "header_get k (header_del k hs) = []" "canonical_key True k' \<noteq> canonical_key True k \<Longrightarrow> header_get k' (header_del k hs) = header_get k' hs"
proof -
  have "map_of (filter (\<lambda>(j, _). j \<noteq> d) hs) c = (if c = d then None else map_of hs c)" for c d and hs :: headers
    by (induction hs) auto
  then show "header_get k (header_del k hs) = []" "canonical_key True k' \<noteq> canonical_key True k \<Longrightarrow> header_get k' (header_del k hs) = header_get k' hs"
    by (simp_all add: header_get_def header_del_def)
qed

lemma inject_at:
  "\<not> sublist ''</head>'' (p @ ''</head'') \<Longrightarrow> inject js (p @ ''</head>'' @ s) = p @ js @ ''</head>'' @ s"
  "\<not> sublist ''</head>'' (p @ ''</body>'' @ s) \<Longrightarrow> \<not> sublist ''</body>'' (p @ ''</body'') \<Longrightarrow> inject js (p @ ''</body>'' @ s) = p @ js @ ''</body>'' @ s"
  "\<not> sublist ''</head>'' b \<Longrightarrow> \<not> sublist ''</body>'' b \<Longrightarrow> inject js b = b @ js"
  using replace_first_at [of "''</head>''" p s "js @ ''</head>''"] replace_first_at [of "''</body>''" p s "js @ ''</body>''"]
    sublist_appendI [of "''</head>''" p s] sublist_appendI [of "''</body>''" p s]
  by (simp_all add: inject_def str_contains_iff)

lemma no_encoding: "k \<in> fst ` set (header_set ''Access-Control-Allow-Origin'' ''*'' (filter (\<lambda>(k, _). \<not> fold_in k [''Content-Encoding'', ''Content-Length'']) hs)) \<Longrightarrow>
    \<not> fold_in k [''Content-Encoding'', ''Content-Length'']"
proof -
  have "canonical_key True ''Access-Control-Allow-Origin'' = ''Access-Control-Allow-Origin''" by code_simp
  moreover have "\<not> fold_in ''Access-Control-Allow-Origin'' [''Content-Encoding'', ''Content-Length'']" by code_simp
  ultimately show "k \<in> fst ` set (header_set ''Access-Control-Allow-Origin'' ''*'' (filter (\<lambda>(k, _). \<not> fold_in k [''Content-Encoding'', ''Content-Length'']) hs)) \<Longrightarrow>
    \<not> fold_in k [''Content-Encoding'', ''Content-Length'']" unfolding header_set_def by (auto split: if_splits)
qed

text \<open>An answer of VK that carries a page, plain or compressed with gzip.\<close>

definition carries_page :: "inflate \<Rightarrow> web_response \<Rightarrow> string \<Rightarrow> bool" where
  "carries_page gunzip resp page \<longleftrightarrow> str_contains (header_get ''Content-Type'' (ws_hdrs resp)) ''text/html'' \<and>
     (header_get ''Content-Encoding'' (ws_hdrs resp) = [] \<and> ws_body resp = page \<or>
      to_lower (header_get ''Content-Encoding'' (ws_hdrs resp)) = ''gzip'' \<and> gunzip (ws_body resp) = Some (page, True))"

lemma page_relayed:
  assumes "carries_page gunzip resp page"
  shows "\<exists>rec. ModifyResponse gunzip unzlib resp = Some rec \<and> ws_code rec = ws_code resp \<and>
    (\<exists>hs. relay_response gunzip unzlib js rec = \<lparr>ws_code = ws_code resp, ws_hdrs = header_set ''Access-Control-Allow-Origin'' ''*''
      (filter (\<lambda>(k, _). \<not> fold_in k [''Content-Encoding'', ''Content-Length'']) hs), ws_body = inject js page\<rparr>)"
proof -
  have html: "str_contains (header_get ''Content-Type'' (ws_hdrs resp)) ''text/html''" using assms by (simp add: carries_page_def)
  have "to_lower ''text/html'' = ''text/html''" by code_simp
  then have tt: "text_type (to_lower (header_get ''Content-Type'' (ws_hdrs resp)))" using to_lower_contains [OF html] by (simp add: text_type_def)
  have d: "canonical_key True ''Content-Type'' \<noteq> canonical_key True ''Content-Encoding''" "canonical_key True ''Content-Type'' \<noteq> canonical_key True ''Content-Length''"
    "canonical_key True ''Content-Encoding'' \<noteq> canonical_key True ''Content-Length''" by code_simp+
  show ?thesis
  proof (cases "header_get ''Content-Encoding'' (ws_hdrs resp) = []")
    case True
    then have "page = ws_body resp" using assms by (auto simp: carries_page_def to_lower_def)
    then show ?thesis using True html
      by (auto simp: ModifyResponse_def relay_response_def fallback_decode_def to_lower_def Let_def)
  next
    case False
    then have g: "to_lower (header_get ''Content-Encoding'' (ws_hdrs resp)) = ''gzip''" "gunzip (ws_body resp) = Some (page, True)"
      using assms by (auto simp: carries_page_def)
    have "header_get ''Content-Encoding'' (header_del ''Content-Length'' (header_del ''Content-Encoding'' (ws_hdrs resp))) = []"
      "header_get ''Content-Type'' (header_del ''Content-Length'' (header_del ''Content-Encoding'' (ws_hdrs resp))) = header_get ''Content-Type'' (ws_hdrs resp)"
      using header_get_del d by (metis, metis)
    then show ?thesis using g html tt
      by (auto simp: ModifyResponse_def relay_response_def fallback_decode_def Let_def) (auto simp: to_lower_def)
  qed
qed

text \<open>
  C37.  The captcha page reaches the browser with the script: the navigation to the local address gets VK's captcha page, decompressed, with the script put once before the first
  end of the head, without one before the first end of the body, else at the end, and nothing else changed; and no header that
  speaks of the old length or encoding is left.
\<close>

theorem captcha_page_injected:
  assumes "wr_path r = ''/'' \<or> wr_path r = []" and "vk (Director t r) = Some resp" and "carries_page gunzip resp page"
  shows "wr_path (Director t r) = ct_path t \<and> wr_query (Director t r) = ct_query t \<and>
    (\<exists>out. handle vk gunzip unzlib js t r chan = (Replied out, chan) \<and> ws_code out = ws_code resp \<and>
      (\<forall>k \<in> fst ` set (ws_hdrs out). \<not> fold_in k [''Content-Encoding'', ''Content-Length'']) \<and>
      (\<forall>p s. page = p @ ''</head>'' @ s \<longrightarrow> \<not> sublist ''</head>'' (p @ ''</head'') \<longrightarrow> ws_body out = p @ js @ ''</head>'' @ s) \<and>
      (\<forall>p s. page = p @ ''</body>'' @ s \<longrightarrow> \<not> sublist ''</head>'' page \<longrightarrow> \<not> sublist ''</body>'' (p @ ''</body'') \<longrightarrow> ws_body out = p @ js @ ''</body>'' @ s) \<and>
      (\<not> sublist ''</head>'' page \<longrightarrow> \<not> sublist ''</body>'' page \<longrightarrow> ws_body out = page @ js))"
proof -
  have d: "wr_path (Director t r) = ct_path t \<and> wr_query (Director t r) = ct_query t" using assms(1) by (auto simp: Director_def Let_def)
  obtain rec hs where m: "ModifyResponse gunzip unzlib resp = Some rec" "ws_code rec = ws_code resp"
    "relay_response gunzip unzlib js rec = \<lparr>ws_code = ws_code resp, ws_hdrs = header_set ''Access-Control-Allow-Origin'' ''*''
      (filter (\<lambda>(k, _). \<not> fold_in k [''Content-Encoding'', ''Content-Length'']) hs), ws_body = inject js page\<rparr>"
    using page_relayed [OF assms(3), of unzlib js] by blast
  have "wr_path r \<noteq> ''/captcha_callback''" using assms(1) by auto
  then have h: "handle vk gunzip unzlib js t r chan = (Replied (relay_response gunzip unzlib js rec), chan)"
    using assms(2) m(1) by (simp add: handle_def)
  let ?out = "relay_response gunzip unzlib js rec"
  have "\<forall>k \<in> fst ` set (ws_hdrs ?out). \<not> fold_in k [''Content-Encoding'', ''Content-Length'']"
    unfolding m(3) web_response.select_convs using no_encoding [of _ hs] by blast
  moreover have b: "ws_body ?out = inject js page" "ws_code ?out = ws_code resp" by (simp_all only: m(3) web_response.select_convs)
  moreover have "\<forall>p s. page = p @ ''</head>'' @ s \<longrightarrow> \<not> sublist ''</head>'' (p @ ''</head'') \<longrightarrow> ws_body ?out = p @ js @ ''</head>'' @ s"
    unfolding b using inject_at(1) by blast
  moreover have "\<forall>p s. page = p @ ''</body>'' @ s \<longrightarrow> \<not> sublist ''</head>'' page \<longrightarrow> \<not> sublist ''</body>'' (p @ ''</body'') \<longrightarrow> ws_body ?out = p @ js @ ''</body>'' @ s"
    unfolding b using inject_at(2) by blast
  moreover have "\<not> sublist ''</head>'' page \<longrightarrow> \<not> sublist ''</body>'' page \<longrightarrow> ws_body ?out = page @ js"
    unfolding b using inject_at(3) by blast
  ultimately show ?thesis using d h by blast
qed


definition test_target :: captcha_target where
  "test_target = \<lparr>ct_host = ''id.vk.ru'', ct_path = ''/not_robot_captcha'', ct_query = ''s=1''\<rparr>"

definition root_request :: web_request where
  "root_request = \<lparr>wr_verb = ''GET'', wr_path = ''/'', wr_query = [], wr_headers = [(''Referer'', ''http://127.0.0.1:1/'')]\<rparr>"

definition test_page :: web_response where
  "test_page = \<lparr>ws_code = 200, ws_hdrs = [(''Content-Type'', ''text/html'')], ws_body = ''<head></head>x''\<rparr>"

theorem captcha_page_injected_witness:
  "\<exists>out. handle (\<lambda>r. if wr_path r = ''/not_robot_captcha'' then Some test_page else None) (\<lambda>_. None) (\<lambda>_. None) ''JS'' test_target root_request None =
     (Replied out, None) \<and> ws_body out = ''<head>JS</head>x''"
proof -
  let ?vk = "\<lambda>r. if wr_path r = ''/not_robot_captcha'' then Some test_page else None"
  have p: "wr_path root_request = ''/'' \<or> wr_path root_request = []" by (simp add: root_request_def)
  have v: "?vk (Director test_target root_request) = Some test_page" by (simp add: Director_def test_target_def root_request_def)
  have "header_get ''Content-Encoding'' (ws_hdrs test_page) = []" "str_contains (header_get ''Content-Type'' (ws_hdrs test_page)) ''text/html''"
    by code_simp+
  then have c: "carries_page (\<lambda>_. None) test_page ''<head></head>x''" by (simp add: carries_page_def) (simp add: test_page_def)
  have h: "''<head></head>x'' = ''<head>'' @ ''</head>'' @ ''x''" "\<not> sublist ''</head>'' (''<head>'' @ ''</head'')"
    using str_contains_iff [of "''<head>'' @ ''</head''" "''</head>''"] by (simp, code_simp)
  from captcha_page_injected [where vk = ?vk and unzlib = "\<lambda>_. None" and js = "''JS''" and chan = None, OF p v c]
  obtain out where o: "handle ?vk (\<lambda>_. None) (\<lambda>_. None) ''JS'' test_target root_request None = (Replied out, None)"
    "\<forall>p s. ''<head></head>x'' = p @ ''</head>'' @ s \<longrightarrow> \<not> sublist ''</head>'' (p @ ''</head'') \<longrightarrow> ws_body out = p @ ''JS'' @ ''</head>'' @ s" by blast
  from o(2) h have "ws_body out = ''<head>'' @ ''JS'' @ ''</head>'' @ ''x''" by blast
  then show ?thesis using o(1) by simp
qed

end
