(* ===== verification/Name_Gen.thy ===== *)
theory Name_Gen
  imports Complex_Main TG_Prelude
begin

text \<open>
  The invented names of guests (internal/core/namegen.go): the tables, the feminine form of a surname and the choice.  The Go source is
  UTF-8, so a Cyrillic letter is two bytes of a string; the tables list the letters by their code points.  math/rand is a parameter.
\<close>

section \<open>Cyrillic text as bytes\<close>

definition utf8_two :: "nat \<Rightarrow> string" where
  "utf8_two n = [char_of (192 + n div 64), char_of (128 + n mod 64)]"

definition cyr :: "nat list \<Rightarrow> string" where
  "cyr ns = concat (map utf8_two ns)"

definition cyr_letter :: "nat \<Rightarrow> bool" where
  "cyr_letter n \<longleftrightarrow> 1040 \<le> n \<and> n \<le> 1103 \<or> n = 1025 \<or> n = 1105"

text \<open>Reading two-byte sequences back; anything else is not Cyrillic text.\<close>

fun read_cyr :: "string \<Rightarrow> nat list option" where
  "read_cyr [] = Some []"
| "read_cyr (a # b # s) =
     (let x = of_char a :: nat; y = of_char b :: nat; n = (x - 192) * 64 + (y - 128) in
      if 194 \<le> x \<and> x < 224 \<and> 128 \<le> y \<and> y < 192 then map_option ((#) n) (read_cyr s) else None)"
| "read_cyr [_] = None"

definition cyr_word :: "string \<Rightarrow> bool" where
  "cyr_word s \<longleftrightarrow> (case read_cyr s of None \<Rightarrow> False | Some ns \<Rightarrow> ns \<noteq> [] \<and> list_all cyr_letter ns)"

section \<open>The tables\<close>

definition maleFirstNames :: "string list" where
  "maleFirstNames = map cyr [
    [1040, 1083, 1077, 1082, 1089, 1072, 1085, 1076, 1088], [1040, 1083, 1077, 1082, 1089, 1077, 1081], [1040, 1085, 1076, 1088, 1077, 1081],
    [1040, 1085, 1090, 1086, 1085], [1040, 1088, 1089, 1077, 1085, 1080, 1081], [1040, 1088, 1090, 1091, 1088], [1040, 1088, 1090, 1105, 1084],
    [1041, 1086, 1075, 1076, 1072, 1085], [1042, 1072, 1083, 1077, 1088, 1080, 1081], [1042, 1072, 1089, 1080, 1083, 1080, 1081],
    [1042, 1080, 1082, 1090, 1086, 1088], [1042, 1083, 1072, 1076, 1080, 1089, 1083, 1072, 1074], [1043, 1083, 1077, 1073],
    [1043, 1088, 1080, 1075, 1086, 1088, 1080, 1081], [1044, 1072, 1085, 1080, 1080, 1083], [1044, 1077, 1085, 1080, 1089],
    [1044, 1084, 1080, 1090, 1088, 1080, 1081], [1045, 1074, 1075, 1077, 1085, 1080, 1081], [1045, 1075, 1086, 1088], [1048, 1074, 1072, 1085],
    [1048, 1075, 1086, 1088, 1100], [1048, 1083, 1100, 1103], [1050, 1080, 1088, 1080, 1083, 1083], [1051, 1077, 1086, 1085, 1080, 1076],
    [1052, 1072, 1082, 1089, 1080, 1084], [1052, 1072, 1088, 1082], [1052, 1072, 1090, 1074, 1077, 1081], [1052, 1080, 1093, 1072, 1080, 1083],
    [1053, 1080, 1082, 1080, 1090, 1072], [1053, 1080, 1082, 1086, 1083, 1072, 1081], [1054, 1083, 1077, 1075], [1055, 1072, 1074, 1077, 1083],
    [1055, 1105, 1090, 1088], [1056, 1086, 1084, 1072, 1085], [1056, 1091, 1089, 1083, 1072, 1085], [1057, 1077, 1088, 1075, 1077, 1081],
    [1057, 1090, 1072, 1085, 1080, 1089, 1083, 1072, 1074], [1058, 1080, 1084, 1086, 1092, 1077, 1081], [1060, 1105, 1076, 1086, 1088]]"

definition femaleFirstNames :: "string list" where
  "femaleFirstNames = map cyr [
    [1040, 1083, 1080, 1085, 1072], [1040, 1083, 1105, 1085, 1072], [1040, 1085, 1072, 1089, 1090, 1072, 1089, 1080, 1103],
    [1040, 1085, 1075, 1077, 1083, 1080, 1085, 1072], [1040, 1085, 1085, 1072], [1042, 1077, 1088, 1072],
    [1042, 1077, 1088, 1086, 1085, 1080, 1082, 1072], [1042, 1080, 1082, 1090, 1086, 1088, 1080, 1103], [1044, 1072, 1088, 1100, 1103],
    [1045, 1074, 1072], [1045, 1082, 1072, 1090, 1077, 1088, 1080, 1085, 1072], [1045, 1083, 1077, 1085, 1072],
    [1045, 1083, 1080, 1079, 1072, 1074, 1077, 1090, 1072], [1048, 1088, 1080, 1085, 1072], [1050, 1080, 1088, 1072],
    [1050, 1088, 1080, 1089, 1090, 1080, 1085, 1072], [1050, 1089, 1077, 1085, 1080, 1103], [1051, 1102, 1073, 1086, 1074, 1100],
    [1052, 1072, 1088, 1075, 1072, 1088, 1080, 1090, 1072], [1052, 1072, 1088, 1080, 1085, 1072], [1052, 1072, 1088, 1080, 1103],
    [1052, 1080, 1083, 1072, 1085, 1072], [1053, 1072, 1076, 1077, 1078, 1076, 1072], [1053, 1072, 1090, 1072, 1083, 1100, 1103],
    [1054, 1083, 1100, 1075, 1072], [1055, 1086, 1083, 1080, 1085, 1072], [1057, 1074, 1077, 1090, 1083, 1072, 1085, 1072],
    [1057, 1086, 1092, 1080, 1103], [1058, 1072, 1090, 1100, 1103, 1085, 1072], [1070, 1083, 1080, 1103], [1071, 1085, 1072]]"

definition lastNames :: "string list" where
  "lastNames = map cyr [
    [1040, 1083, 1077, 1082, 1089, 1077, 1077, 1074], [1040, 1085, 1076, 1088, 1077, 1077, 1074], [1040, 1085, 1090, 1086, 1085, 1086, 1074],
    [1041, 1072, 1088, 1072, 1085, 1086, 1074], [1041, 1077, 1083, 1086, 1074], [1041, 1077, 1083, 1099, 1081],
    [1041, 1077, 1083, 1100, 1089, 1082, 1080, 1081], [1041, 1077, 1083, 1103, 1077, 1074], [1041, 1086, 1088, 1080, 1089, 1086, 1074],
    [1042, 1072, 1089, 1080, 1083, 1100, 1077, 1074], [1042, 1077, 1083, 1080, 1082, 1080, 1081], [1042, 1086, 1083, 1082, 1086, 1074],
    [1042, 1086, 1088, 1086, 1073, 1100, 1105, 1074], [1043, 1088, 1080, 1075, 1086, 1088, 1100, 1077, 1074],
    [1044, 1072, 1074, 1099, 1076, 1086, 1074], [1045, 1075, 1086, 1088, 1086, 1074], [1046, 1091, 1082, 1086, 1074],
    [1047, 1072, 1081, 1094, 1077, 1074], [1047, 1072, 1093, 1072, 1088, 1086, 1074], [1048, 1074, 1072, 1085, 1086, 1074],
    [1050, 1072, 1083, 1080, 1085, 1080, 1085], [1050, 1086, 1074, 1072, 1083, 1105, 1074], [1050, 1086, 1079, 1083, 1086, 1074],
    [1050, 1086, 1084, 1072, 1088, 1086, 1074], [1050, 1088, 1072, 1084, 1089, 1082, 1086, 1081], [1050, 1091, 1079, 1085, 1077, 1094, 1086, 1074],
    [1050, 1091, 1079, 1100, 1084, 1080, 1085], [1051, 1077, 1073, 1077, 1076, 1077, 1074], [1052, 1072, 1082, 1072, 1088, 1086, 1074],
    [1052, 1077, 1076, 1074, 1077, 1076, 1077, 1074], [1052, 1080, 1093, 1072, 1081, 1083, 1086, 1074], [1052, 1086, 1088, 1086, 1079, 1086, 1074],
    [1053, 1080, 1082, 1080, 1090, 1080, 1085], [1053, 1080, 1082, 1086, 1083, 1072, 1077, 1074], [1053, 1086, 1074, 1080, 1082, 1086, 1074],
    [1054, 1088, 1083, 1086, 1074], [1054, 1089, 1090, 1088, 1086, 1074, 1089, 1082, 1080, 1081], [1055, 1072, 1074, 1083, 1086, 1074],
    [1055, 1077, 1090, 1088, 1086, 1074], [1055, 1086, 1082, 1088, 1086, 1074, 1089, 1082, 1080, 1081], [1055, 1086, 1087, 1086, 1074],
    [1056, 1072, 1077, 1074, 1089, 1082, 1080, 1081], [1056, 1086, 1084, 1072, 1085, 1086, 1074], [1057, 1077, 1084, 1105, 1085, 1086, 1074],
    [1057, 1077, 1088, 1075, 1077, 1077, 1074], [1057, 1084, 1080, 1088, 1085, 1086, 1074], [1057, 1086, 1082, 1086, 1083, 1086, 1074],
    [1057, 1086, 1083, 1086, 1074, 1100, 1105, 1074], [1057, 1090, 1077, 1087, 1072, 1085, 1086, 1074], [1058, 1072, 1088, 1072, 1089, 1086, 1074],
    [1058, 1080, 1090, 1086, 1074], [1058, 1086, 1083, 1089, 1090, 1086, 1081], [1058, 1088, 1091, 1073, 1077, 1094, 1082, 1086, 1081],
    [1060, 1080, 1083, 1080, 1087, 1087, 1086, 1074], [1060, 1088, 1086, 1083, 1086, 1074], [1060, 1105, 1076, 1086, 1088, 1086, 1074],
    [1063, 1072, 1081, 1082, 1086, 1074, 1089, 1082, 1080, 1081], [1063, 1077, 1088, 1085, 1099, 1081], [1071, 1082, 1086, 1074, 1083, 1077, 1074]]"

section \<open>Names\<close>

text \<open>A slice of a string cuts bytes; the endings are four bytes long.\<close>

definition convertToFemaleSurname :: "string \<Rightarrow> string" where
  "convertToFemaleSurname surname =
     (if suffix (cyr [1080, 1081]) surname \<or> suffix (cyr [1099, 1081]) surname \<or> suffix (cyr [1086, 1081]) surname
      then take (length surname - 4) surname @ cyr [1072, 1103]
      else if suffix (cyr [1086, 1074]) surname \<or> suffix (cyr [1077, 1074]) surname \<or> suffix (cyr [1080, 1085]) surname \<or>
        suffix (cyr [1099, 1085]) surname \<or> suffix (cyr [1105, 1074]) surname
      then surname @ cyr [1072]
      else surname)"

text \<open>\<open>xs[rand.Intn(len(xs))]\<close>; \<open>None\<close> is the panic of an index out of range.\<close>

definition pick_name :: "(nat \<Rightarrow> 'w \<Rightarrow> nat \<times> 'w) \<Rightarrow> string list \<Rightarrow> 'w \<Rightarrow> string option \<times> 'w" where
  "pick_name intn xs w = (case intn (length xs) w of (i, w1) \<Rightarrow> (if i < length xs then Some (xs ! i) else None, w1))"

text \<open>The constant 0.3 is the float32 next to it.\<close>

definition generateName :: "(nat \<Rightarrow> 'w \<Rightarrow> nat \<times> 'w) \<Rightarrow> ('w \<Rightarrow> rat \<times> 'w) \<Rightarrow> 'w \<Rightarrow> string option \<times> 'w" where
  "generateName intn rfloat w =
     (case intn 2 w of (g, w1) \<Rightarrow>
      let isFemale = (g = 0) in
      case pick_name intn (if isFemale then femaleFirstNames else maleFirstNames) w1 of
        (None, w2) \<Rightarrow> (None, w2)
      | (Some fname, w2) \<Rightarrow>
          (case rfloat w2 of (f, w3) \<Rightarrow>
             if f < 10066330 / 33554432 then (Some fname, w3)
             else (case pick_name intn lastNames w3 of
                 (None, w4) \<Rightarrow> (None, w4)
               | (Some lname, w4) \<Rightarrow> (Some (fname @ '' '' @ (if isFemale then convertToFemaleSurname lname else lname)), w4))))"

section \<open>Lemmas\<close>

lemma read_cyr: "list_all (\<lambda>n. 128 \<le> n \<and> n < 2048) ns \<Longrightarrow> read_cyr (cyr ns) = Some ns"
proof (induction ns)
  case (Cons n ns)
  have "194 \<le> 192 + n div 64" "192 + n div 64 < 224" using Cons.prems by auto
  then show ?case using Cons by (simp add: cyr_def utf8_two_def Let_def)
qed (simp add: cyr_def)

definition cyr_codes :: "nat list \<Rightarrow> bool" where
  "cyr_codes ns \<longleftrightarrow> ns \<noteq> [] \<and> list_all cyr_letter ns"

lemma read_codes: "list_all cyr_letter ns \<Longrightarrow> read_cyr (cyr ns) = Some ns"
  by (rule read_cyr) (auto simp: cyr_letter_def list_all_iff)

lemma cyr_inj: "list_all cyr_letter ns \<Longrightarrow> list_all cyr_letter ms \<Longrightarrow> cyr ns = cyr ms \<longleftrightarrow> ns = ms"
  using read_codes by (metis option.inject)

lemma cyr_word_cyr: "cyr_codes ns \<Longrightarrow> cyr_word (cyr ns)"
  using read_codes by (simp add: cyr_word_def cyr_codes_def)

lemma cyr_append: "cyr (ns @ ms) = cyr ns @ cyr ms"
  by (simp add: cyr_def)

lemma length_cyr: "length (cyr ns) = 2 * length ns"
  by (induction ns) (simp_all add: cyr_def utf8_two_def)

lemma take_cyr: "take (2 * k) (cyr ns) = cyr (take k ns)"
proof (induction ns arbitrary: k)
  case (Cons n ns)
  then show ?case by (cases k) (simp_all add: cyr_def utf8_two_def)
qed (simp add: cyr_def)

text \<open>Endings of letters are endings of bytes and the other way round.\<close>

lemma suffix_cyr:
  assumes "list_all cyr_letter xs" and "list_all cyr_letter ns"
  shows "suffix (cyr xs) (cyr ns) \<longleftrightarrow> suffix xs ns"
proof
  assume "suffix (cyr xs) (cyr ns)"
  then have "cyr ns = take (length (cyr ns) - length (cyr xs)) (cyr ns) @ cyr xs" by (rule suffix_take)
  also have "\<dots> = cyr (take (length ns - length xs) ns @ xs)"
    unfolding length_cyr diff_mult_distrib2 [symmetric] take_cyr cyr_append ..
  finally have "ns = take (length ns - length xs) ns @ xs"
    using cyr_inj [of ns "take (length ns - length xs) ns @ xs"] assms by (auto simp: list_all_iff dest: in_set_takeD)
  then show "suffix xs ns" by (metis suffixI)
next
  assume "suffix xs ns"
  then show "suffix (cyr xs) (cyr ns)" by (auto simp: suffix_def cyr_append)
qed

definition adjective :: "nat list \<Rightarrow> bool" where
  "adjective ns \<longleftrightarrow> suffix [1080, 1081] ns \<or> suffix [1099, 1081] ns \<or> suffix [1086, 1081] ns"

definition possessive :: "nat list \<Rightarrow> bool" where
  "possessive ns \<longleftrightarrow> suffix [1086, 1074] ns \<or> suffix [1077, 1074] ns \<or> suffix [1080, 1085] ns \<or>
     suffix [1099, 1085] ns \<or> suffix [1105, 1074] ns"

lemma convert_cyr:
  assumes "list_all cyr_letter ns"
  shows "convertToFemaleSurname (cyr ns) =
    cyr (if adjective ns then take (length ns - 2) ns @ [1072, 1103] else if possessive ns then ns @ [1072] else ns)"
proof -
  have s: "suffix (cyr [a, b]) (cyr ns) \<longleftrightarrow> suffix [a, b] ns" if "cyr_letter a" "cyr_letter b" for a b
    using suffix_cyr [OF _ assms, of "[a, b]"] that by simp
  have "2 * length ns - 4 = 2 * (length ns - 2)" by simp
  then show ?thesis
    by (simp add: convertToFemaleSurname_def s cyr_letter_def adjective_def possessive_def length_cyr take_cyr cyr_append del: diff_mult_distrib2)
qed

lemma from_codes: "list_all P ts \<Longrightarrow> list_all (\<lambda>s. \<exists>ns. s = cyr ns \<and> P ns) (map cyr ts)"
  by (auto simp: list_all_iff)

lemma from_codes_disjoint:
  assumes "list_all cyr_codes ts" and "list_all cyr_codes us" and "list_all (\<lambda>ns. ns \<notin> set us) ts"
  shows "list_all (\<lambda>s. s \<notin> set (map cyr us)) (map cyr ts)"
  using assms cyr_inj by (fastforce simp: list_all_iff cyr_codes_def)

lemmas letters = cyr_codes_def cyr_letter_def

lemma first_names_codes:
  "list_all (\<lambda>s. \<exists>ns. s = cyr ns \<and> cyr_codes ns) maleFirstNames" "list_all (\<lambda>s. \<exists>ns. s = cyr ns \<and> cyr_codes ns) femaleFirstNames"
  unfolding maleFirstNames_def femaleFirstNames_def by (rule from_codes, simp add: letters)+

lemma surnames_codes: "list_all (\<lambda>s. \<exists>ns. s = cyr ns \<and> cyr_codes ns \<and> (adjective ns \<or> possessive ns)) lastNames"
  unfolding lastNames_def by (rule from_codes) (simp add: letters adjective_def possessive_def suffix_to_prefix)

lemma tables_disjoint: "list_all (\<lambda>s. s \<notin> set femaleFirstNames) maleFirstNames"
  unfolding maleFirstNames_def femaleFirstNames_def by (rule from_codes_disjoint) (simp_all add: letters)

definition feminine :: "string \<Rightarrow> bool" where
  "feminine s \<longleftrightarrow> suffix (cyr [1072]) s \<or> suffix (cyr [1072, 1103]) s"

lemma surname_converted:
  assumes "lname \<in> set lastNames"
  shows "cyr_word lname \<and> cyr_word (convertToFemaleSurname lname) \<and> feminine (convertToFemaleSurname lname)"
proof -
  obtain ns where ns: "lname = cyr ns" "cyr_codes ns" "adjective ns \<or> possessive ns" using assms surnames_codes by (auto simp: list_all_iff)
  let ?ms = "if adjective ns then take (length ns - 2) ns @ [1072, 1103] else ns @ [1072]"
  have e: "convertToFemaleSurname lname = cyr ?ms" using convert_cyr [of ns] ns by (auto simp: cyr_codes_def)
  have "cyr_codes ?ms" using ns(2) by (auto simp: letters list_all_iff dest: in_set_takeD)
  then have w: "cyr_word (convertToFemaleSurname lname)" unfolding e by (rule cyr_word_cyr)
  have "suffix (cyr [1072]) (cyr ?ms) \<or> suffix (cyr [1072, 1103]) (cyr ?ms)"
  proof (cases "adjective ns")
    case True
    then have "cyr ?ms = cyr (take (length ns - 2) ns) @ cyr [1072, 1103]" by (simp only: if_True cyr_append)
    then show ?thesis by (intro disjI2) (rule suffixI)
  next
    case False
    then have "cyr ?ms = cyr ns @ cyr [1072]" by (simp only: if_False cyr_append)
    then show ?thesis by (intro disjI1) (rule suffixI)
  qed
  then have "feminine (convertToFemaleSurname lname)" unfolding feminine_def e .
  then show ?thesis using w cyr_word_cyr [OF ns(2)] ns(1) by simp
qed

lemma first_names: "s \<in> set maleFirstNames \<union> set femaleFirstNames \<Longrightarrow> cyr_word s"
  using first_names_codes cyr_word_cyr by (auto simp: list_all_iff)

lemma tables_nonempty: "0 < length maleFirstNames" "0 < length femaleFirstNames" "0 < length lastNames"
  by (simp_all add: maleFirstNames_def femaleFirstNames_def lastNames_def)

lemma pick_name_some:
  assumes "\<And>n w. 0 < n \<Longrightarrow> fst (intn n w) < n" and "0 < length xs"
  obtains x w' where "pick_name intn xs w = (Some x, w')" and "x \<in> set xs"
proof -
  obtain i w' where i: "intn (length xs) w = (i, w')" by fastforce
  then have "i < length xs" using assms(1) [OF assms(2), of w] by simp
  then show thesis using that [of "xs ! i" w'] i by (simp add: pick_name_def)
qed

section \<open>Properties\<close>

text \<open>
  C40.  Whatever the random numbers, a name is a first name of one of the tables or a first name, a space and a surname; both are UTF-8 text of Cyrillic
  letters only, so the slice of the feminine form never cuts a letter; a woman's surname has a feminine ending, a man's is as listed; and
  no index is out of range.
\<close>

theorem generated_names:
  assumes "\<And>n w. 0 < n \<Longrightarrow> fst (intn n w) < n"
  shows "\<exists>fname rest. fst (generateName intn rfloat w) = Some (fname @ rest) \<and> fname \<in> set maleFirstNames \<union> set femaleFirstNames \<and> cyr_word fname \<and>
    (rest = [] \<or> (\<exists>sur. rest = '' '' @ sur \<and> cyr_word sur \<and> (fname \<in> set femaleFirstNames \<longrightarrow> feminine sur) \<and>
      (fname \<in> set maleFirstNames \<longrightarrow> sur \<in> set lastNames)))"
proof -
  obtain g w1 where g: "intn 2 w = (g, w1)" by fastforce
  let ?fem = "g = 0" let ?xs = "if ?fem then femaleFirstNames else maleFirstNames"
  have xs: "0 < length ?xs" using tables_nonempty by simp
  obtain fname w2 where n: "pick_name intn ?xs w1 = (Some fname, w2)" "fname \<in> set ?xs" by (rule pick_name_some [OF assms xs])
  obtain f w3 where f: "rfloat w2 = (f, w3)" by fastforce
  obtain lname w4 where l: "pick_name intn lastNames w3 = (Some lname, w4)" "lname \<in> set lastNames"
    by (rule pick_name_some [OF assms tables_nonempty(3)])
  let ?sur = "if ?fem then convertToFemaleSurname lname else lname"
  have e: "fst (generateName intn rfloat w) = Some (fname @ (if f < 10066330 / 33554432 then [] else '' '' @ ?sur))"
    unfolding generateName_def g prod.case Let_def n(1) option.case f l(1) by simp
  have w: "cyr_word fname" "cyr_word lname" "cyr_word (convertToFemaleSurname lname)" "feminine (convertToFemaleSurname lname)"
    using first_names [of fname] surname_converted [OF l(2)] n(2) by (auto split: if_splits)
  have "fname \<in> set femaleFirstNames \<longrightarrow> ?fem" "fname \<in> set maleFirstNames \<longrightarrow> \<not> ?fem"
    using n(2) tables_disjoint by (auto simp: list_all_iff split: if_splits)
  then have "cyr_word ?sur" "fname \<in> set femaleFirstNames \<longrightarrow> feminine ?sur" "fname \<in> set maleFirstNames \<longrightarrow> ?sur \<in> set lastNames"
    using w l(2) by auto
  moreover have "fname \<in> set maleFirstNames \<union> set femaleFirstNames" using n(2) by (auto split: if_splits)
  ultimately show ?thesis unfolding e using w(1)
    by (rule_tac x = fname in exI, rule_tac x = "if f < 10066330 / 33554432 then [] else '' '' @ ?sur" in exI, simp)
qed

theorem generated_names_witness:
  "fst (generateName (\<lambda>n w. (0, w)) (\<lambda>w. (1 / 2, w)) ()) = Some (femaleFirstNames ! 0 @ '' '' @ convertToFemaleSurname (lastNames ! 0)) \<and>
   (\<exists>fname rest. fst (generateName (\<lambda>n w. (0, w)) (\<lambda>w. (1 / 2, w)) ()) = Some (fname @ rest) \<and> cyr_word fname)"
proof
  show "fst (generateName (\<lambda>n w. (0, w)) (\<lambda>w. (1 / 2, w)) ()) = Some (femaleFirstNames ! 0 @ '' '' @ convertToFemaleSurname (lastNames ! 0))"
    using tables_nonempty by (simp add: generateName_def pick_name_def)
  have "\<And>(n :: nat) w :: unit. 0 < n \<Longrightarrow> fst ((\<lambda>n w. (0 :: nat, w)) n w) < n" by simp
  from generated_names [where intn = "\<lambda>n w. (0, w)" and rfloat = "\<lambda>w. (1 / 2, w)" and w = "()", OF this]
  show "\<exists>fname rest. fst (generateName (\<lambda>n w. (0, w)) (\<lambda>w. (1 / 2, w)) ()) = Some (fname @ rest) \<and> cyr_word fname" by blast
qed

end
