(* ===== verification/Command_Line.thy ===== *)
theory Command_Line
  imports Vpn_Device Turn_Hub Updater Dns_Persist
begin

text \<open>
  The program (cmd/turnguard/main.go): the options, what each of them makes main do, and the end of the process as a step
  relation over the signal, main's deferred calls and the saver of Dns_Persist.

  The operations main calls are those of the other theories; they share the files and one world.  Not modelled: how package flag reads the
  arguments, the output, and the stop of the VPN device.
\<close>

section \<open>Options\<close>




section \<open>What main does\<close>

text \<open>The deferred calls, the first to run first, and how main gets to them, or not.\<close>

datatype deferred = Clean_routes | Cancel_ctx | Close_log | Stop_persist

datatype main_out =
    Exit_with nat
  | Panics "deferred list"
  | Serves_web "deferred list"
  | Serves_proxy proxy "string list list" "deferred list"










section \<open>The end of the process\<close>

text \<open>
  main waits for the context, then either leaves with os.Exit, which runs nothing, or runs its deferred calls one by one.  A panic
  runs them too.  The goroutine for signals takes one signal from the channel, which holds one, and cancels the context.
\<close>

datatype process_pc = Waiting_proxy "deferred list" | Waiting_web | Runs_deferred "deferred list" | Ended

record main_sys =
  mn_pc :: process_pc
  mn_cancelled :: bool
  mn_routes :: bool
  mn_log :: bool
  mn_handler :: bool
  mn_pending :: bool
  mn_cache :: stop_sys

definition run_deferred :: "deferred \<Rightarrow> main_sys \<Rightarrow> main_sys" where
  "run_deferred d s =
     (case d of
        Clean_routes \<Rightarrow> s\<lparr>mn_routes := False\<rparr>
      | Cancel_ctx \<Rightarrow> s\<lparr>mn_cancelled := True\<rparr>
      | Close_log \<Rightarrow> s\<lparr>mn_log := False\<rparr>
      | Stop_persist \<Rightarrow> s)"

text \<open>The steps of Stop are those of \<open>stop_step\<close> that move it; the others are the saver's and of whoever marks the cache.\<close>

inductive main_step :: "main_sys \<Rightarrow> main_sys \<Rightarrow> bool" where
  m_signal: "mn_pc s \<noteq> Ended \<Longrightarrow> main_step s (s\<lparr>mn_pending := True\<rparr>)"
| m_handle: "mn_handler s \<Longrightarrow> mn_pending s \<Longrightarrow> mn_pc s \<noteq> Ended \<Longrightarrow>
    main_step s (s\<lparr>mn_handler := False, mn_pending := False, mn_cancelled := True\<rparr>)"
| m_cache: "stop_step (mn_cache s) p \<Longrightarrow> stop_at p = stop_at (mn_cache s) \<Longrightarrow> mn_pc s \<noteq> Ended \<Longrightarrow> main_step s (s\<lparr>mn_cache := p\<rparr>)"
| m_wake: "mn_pc s = Waiting_proxy ds \<Longrightarrow> mn_cancelled s \<Longrightarrow> main_step s (s\<lparr>mn_pc := Runs_deferred ds\<rparr>)"
| m_exit: "mn_pc s = Waiting_web \<Longrightarrow> mn_cancelled s \<Longrightarrow> main_step s (s\<lparr>mn_pc := Ended\<rparr>)"
| m_deferred: "mn_pc s = Runs_deferred (d # ds) \<Longrightarrow> d \<noteq> Stop_persist \<Longrightarrow> main_step s ((run_deferred d s)\<lparr>mn_pc := Runs_deferred ds\<rparr>)"
| m_stop: "mn_pc s = Runs_deferred (Stop_persist # ds) \<Longrightarrow> stop_step (mn_cache s) p \<Longrightarrow> stop_at p \<noteq> stop_at (mn_cache s) \<Longrightarrow>
    main_step s (s\<lparr>mn_cache := p\<rparr>)"
| m_stopped: "mn_pc s = Runs_deferred (Stop_persist # ds) \<Longrightarrow> stop_at (mn_cache s) = StopReturned \<Longrightarrow> main_step s (s\<lparr>mn_pc := Runs_deferred ds\<rparr>)"
| m_return: "mn_pc s = Runs_deferred [] \<Longrightarrow> main_step s (s\<lparr>mn_pc := Ended\<rparr>)"

definition main_sys_of :: "main_out \<Rightarrow> bool \<Rightarrow> main_sys" where
  "main_sys_of out d = \<lparr>mn_pc = (case out of Exit_with _ \<Rightarrow> Ended | Panics ds \<Rightarrow> Runs_deferred ds | Serves_web _ \<Rightarrow> Waiting_web
       | Serves_proxy _ _ ds \<Rightarrow> Waiting_proxy ds),
     mn_cancelled = False, mn_routes = (case out of Serves_proxy _ cmds _ \<Rightarrow> cmds \<noteq> [] | _ \<Rightarrow> False), mn_log = True,
     mn_handler = True, mn_pending = False, mn_cache = saver_started d\<rparr>"

inductive_cases main_stepE: "main_step s s'"

text \<open>As long as the call of Stop is ahead and cannot return, the process does not end.\<close>

definition main_inv :: "main_sys \<Rightarrow> bool" where
  "main_inv s \<longleftrightarrow> stop_inv (mn_cache s) \<and> (\<exists>ds. (mn_pc s = Waiting_proxy ds \<or> mn_pc s = Runs_deferred ds) \<and> Stop_persist \<in> set ds)"

lemma run_deferred_fields [tg_frame]: "mn_cache (run_deferred d s) = mn_cache s" "mn_pc (run_deferred d s) = mn_pc s"
  by (cases d; simp add: run_deferred_def)+

lemma main_inv_step:
  assumes "main_step s s'" and i: "main_inv s"
  shows "main_inv s'"
  using assms(1)
proof cases
  case (m_cache p)
  then have "stop_inv p" using i by (auto simp: main_inv_def intro: stop_sys.keeps)
  then show ?thesis using i m_cache(1) by (simp add: main_inv_def)
next
  case (m_stop ds p)
  then have "stop_inv p" using i by (auto simp: main_inv_def intro: stop_sys.keeps)
  then show ?thesis using i m_stop(1) by (simp add: main_inv_def)
next
  case (m_deferred d ds)
  then show ?thesis using i by (auto simp: main_inv_def tg_frame)
next
  case (m_stopped ds)
  then show ?thesis using i by (simp add: main_inv_def stop_inv_def)
qed (use i in \<open>auto simp: main_inv_def\<close>)

interpretation main_sys: kept_by_steps main_step main_inv
  by unfold_locales (rule main_inv_step)

text \<open>In the web mode nothing calls Stop.\<close>

definition web_mode_inv :: "main_sys \<Rightarrow> bool" where
  "web_mode_inv s \<longleftrightarrow> mn_pc s \<in> {Waiting_web, Ended} \<and> stop_at (mn_cache s) = StopLock"

interpretation web_mode: kept_by_steps main_step web_mode_inv
  by unfold_locales (auto elim!: main_stepE simp: web_mode_inv_def)

section \<open>From the options to the end\<close>













lemma web_exit_without_stop:
  assumes "main_step\<^sup>*\<^sup>* (main_sys_of (Serves_web ds) d) t"
  shows "stop_at (mn_cache t) = StopLock"
proof -
  have "web_mode_inv (main_sys_of (Serves_web ds) d)" by (simp add: web_mode_inv_def main_sys_of_def saver_started_def)
  then show ?thesis using web_mode.reached [OF assms] by (simp add: web_mode_inv_def)
qed







end
