(* ===== verification/Relay_Traffic.thy ===== *)
theory Relay_Traffic
  imports Turn_Hub
begin

text \<open>
  The traffic of a stream (turn_client.go): the loops of the goroutines of runNoDTLS and runDTLS over the relay, which is the wrapped
  connection of Wrap, and what they do to the packets of Turn_Hub.  When they end is in Stream_Run.

  Parameters: the relay's and the local socket's reads and writes, s.peer.Load(), DTLS and the packet pipe.  A loop takes the number of
  its rounds.  Not modelled: deadlines, the watchdog and the error counters.
\<close>

section \<open>Sending\<close>

text \<open>
  The sender of runNoDTLS over the packets it takes from the channel; the result is the error that ended it, if any.
\<close>

fun nodtls_tx :: "'k sealer \<Rightarrow> (bytes \<Rightarrow> 'a \<Rightarrow> 'w \<Rightarrow> (nat \<times> string option) \<times> 'w) \<Rightarrow> ('k, 'a) wrappedPacketConn \<Rightarrow> bytes list \<Rightarrow> 'w \<Rightarrow>
    wrap_error option \<times> ('k, 'a) wrappedPacketConn \<times> 'w" where
  "nodtls_tx seal relay_write r [] w = (None, r, w)"
| "nodtls_tx seal relay_write r (p # ps) w =
     (case conn_WriteTo seal relay_write r p w of
        ((_, Some e), r', w') \<Rightarrow> (Some e, r', w')
      | ((_, None), r', w') \<Rightarrow> nodtls_tx seal relay_write r' ps w')"

datatype loop_end = Read_failed wrap_error | Write_failed wrap_error | Pipe_failed | Out_failed

text \<open>runDTLS: from the pipe, which the DTLS connection writes to, to the relay.\<close>

fun dtls_relay_tx :: "'k sealer \<Rightarrow> (nat \<Rightarrow> 'w \<Rightarrow> bytes option \<times> 'w) \<Rightarrow> (bytes \<Rightarrow> 'a \<Rightarrow> 'w \<Rightarrow> (nat \<times> string option) \<times> 'w) \<Rightarrow>
    ('k, 'a) wrappedPacketConn \<Rightarrow> nat \<Rightarrow> 'w \<Rightarrow> loop_end option \<times> ('k, 'a) wrappedPacketConn \<times> 'w" where
  "dtls_relay_tx seal pipe_read relay_write r 0 w = (None, r, w)"
| "dtls_relay_tx seal pipe_read relay_write r (Suc n) w =
     (case pipe_read iPacketBuffMaxSize w of
        (None, w1) \<Rightarrow> (Some Pipe_failed, r, w1)
      | (Some b, w1) \<Rightarrow>
          (case conn_WriteTo seal relay_write r b w1 of
             ((_, Some e), r', w2) \<Rightarrow> (Some (Write_failed e), r', w2)
           | ((_, None), r', w2) \<Rightarrow> dtls_relay_tx seal pipe_read relay_write r' n w2))"

section \<open>Receiving\<close>

text \<open>
  The receiver of runNoDTLS.  \<open>str\<close> is the address as text, \<open>local_peer\<close> the address of the last packet of the local side, \<open>out\<close> the write to
  the local socket.
\<close>

fun nodtls_rx :: "'k opener \<Rightarrow> (nat \<Rightarrow> 'w \<Rightarrow> (bytes \<times> 'a \<times> string option) \<times> 'w) \<Rightarrow> ('a \<Rightarrow> string) \<Rightarrow> ('w \<Rightarrow> string option) \<Rightarrow>
    (bytes \<Rightarrow> string \<Rightarrow> 'w \<Rightarrow> bool \<times> 'w) \<Rightarrow> ('k, 'a) wrappedPacketConn \<Rightarrow> nat \<Rightarrow> bytes \<Rightarrow> 'w \<Rightarrow> loop_end option \<times> 'w" where
  "nodtls_rx opn relay_read str local_peer out r 0 buf w = (None, w)"
| "nodtls_rx opn relay_read str local_peer out r (Suc n) buf w =
     (case conn_ReadFrom opn relay_read r buf w of
        ((m, from, Some e), buf', w1) \<Rightarrow> (Some (Read_failed e), w1)
      | ((m, from, None), buf', w1) \<Rightarrow>
          if str from = str (peer r) then
            (case local_peer w1 of
               None \<Rightarrow> nodtls_rx opn relay_read str local_peer out r n buf' w1
             | Some addr \<Rightarrow>
                 (case out (take m buf') addr w1 of
                    (False, w2) \<Rightarrow> (Some Out_failed, w2)
                  | (True, w2) \<Rightarrow> nodtls_rx opn relay_read str local_peer out r n buf' w2))
          else nodtls_rx opn relay_read str local_peer out r n buf' w1)"

text \<open>runDTLS: from the relay to the pipe, which the DTLS connection reads from.\<close>

fun dtls_relay_rx :: "'k opener \<Rightarrow> (nat \<Rightarrow> 'w \<Rightarrow> (bytes \<times> 'a \<times> string option) \<times> 'w) \<Rightarrow> ('a \<Rightarrow> string) \<Rightarrow> (bytes \<Rightarrow> 'w \<Rightarrow> bool \<times> 'w) \<Rightarrow>
    ('k, 'a) wrappedPacketConn \<Rightarrow> nat \<Rightarrow> bytes \<Rightarrow> 'w \<Rightarrow> loop_end option \<times> 'w" where
  "dtls_relay_rx opn relay_read str pipe_write r 0 buf w = (None, w)"
| "dtls_relay_rx opn relay_read str pipe_write r (Suc n) buf w =
     (case conn_ReadFrom opn relay_read r buf w of
        ((m, from, Some e), buf', w1) \<Rightarrow> (Some (Read_failed e), w1)
      | ((m, from, None), buf', w1) \<Rightarrow>
          if str from = str (peer r) then
            (case pipe_write (take m buf') w1 of
               (False, w2) \<Rightarrow> (Some Pipe_failed, w2)
             | (True, w2) \<Rightarrow> dtls_relay_rx opn relay_read str pipe_write r n buf' w2)
          else dtls_relay_rx opn relay_read str pipe_write r n buf' w1)"

section \<open>A relay as two queues\<close>

text \<open>
  What a relay that works does: it takes every datagram, and hands over those that arrived, each with its sender.  A read with an empty queue
  stands for the end of the connection.
\<close>

record 'a queues =
  q_sent :: "bytes list"
  q_arrived :: "(bytes \<times> 'a) list"
  q_out :: "bytes list"

definition q_write :: "bytes \<Rightarrow> 'a \<Rightarrow> 'a queues \<Rightarrow> (nat \<times> string option) \<times> 'a queues" where
  "q_write d a w = ((length d, None), w\<lparr>q_sent := q_sent w @ [d]\<rparr>)"

text \<open>A datagram longer than the buffer is cut.\<close>

definition q_read :: "'a \<Rightarrow> nat \<Rightarrow> 'a queues \<Rightarrow> (bytes \<times> 'a \<times> string option) \<times> 'a queues" where
  "q_read nobody n w =
     (case q_arrived w of
        [] \<Rightarrow> (([], nobody, Some ''closed''), w)
      | (d, a) # ds \<Rightarrow> ((take n d, a, None), w\<lparr>q_arrived := ds\<rparr>))"

definition q_out_write :: "bytes \<Rightarrow> string \<Rightarrow> 'a queues \<Rightarrow> bool \<times> 'a queues" where
  "q_out_write b addr w = (True, w\<lparr>q_out := q_out w @ [b]\<rparr>)"

section \<open>Lemmas\<close>

lemma unwrap_sealed:
  assumes "aead_tag seal" and "aead_correct seal opn" and "length hdr = 24" and "length p \<le> length buf"
  shows "unwrapPacket opn c (hdr @ seal (aead c) (take 12 (drop 12 hdr)) p hdr) buf = Inr (length p, p @ drop (length p) buf)"
  using assms by (auto simp: unwrapPacket_def tg_consts aead_tag_def aead_correct_def overwrite_def)

lemma wire_sealed:
  assumes "wf_conn c"
  shows "wrap_wire seal c p = wrap_header c @ seal (aead c) (take 12 (drop 12 (wrap_header c))) p (wrap_header c)"
  using assms by (simp add: wrap_wire_def wrap_header_def wrap_nonce_def wf_conn_def)

text \<open>The sender puts the run of \<open>wrap_run\<close> on a relay that works.\<close>

lemma tx_run:
  assumes "wf_conn c" and "aead_tag seal" and "wc r = Some c"
  shows "nodtls_tx seal q_write r ps w =
    (None, r\<lparr>wc := Some ((wrap_advance ^^ length ps) c)\<rparr>, w\<lparr>q_sent := q_sent w @ wrap_run seal c ps\<rparr>)"
  using assms
proof (induction ps arbitrary: c r w)
  case Nil
  then show ?case by (cases r) simp
next
  case (Cons p ps)
  have w: "conn_WriteTo seal q_write r p w = ((length p, None), r\<lparr>wc := Some (wrap_advance c)\<rparr>, w\<lparr>q_sent := q_sent w @ [wrap_wire seal c p]\<rparr>)"
    using Cons.prems by (simp add: conn_WriteTo_def q_write_def wrapInto_fresh length_wrap_wire)
  have "wf_conn (wrap_advance c)" using Cons.prems(1) by simp
  note IH = Cons.IH [OF this Cons.prems(2), of "r\<lparr>wc := Some (wrap_advance c)\<rparr>" "w\<lparr>q_sent := q_sent w @ [wrap_wire seal c p]\<rparr>"]
  show ?case using w IH Cons.prems(1,2)
    by (simp add: wrapInto_fresh length_wrap_wire funpow_swap1)
qed

lemma log_cut: "(\<forall>x \<in> set (sys_log s). length (snd x) \<le> iPacketBuffMaxSize) \<Longrightarrow> x \<in> set (sys_log (hub_run evs s)) \<Longrightarrow> length (snd x) \<le> iPacketBuffMaxSize"
  unfolding hub_run_def
proof (induction evs arbitrary: s)
  case (Cons e evs)
  have "\<forall>x \<in> set (sys_log (hub_event_step e s)). length (snd x) \<le> iPacketBuffMaxSize"
    using Cons.prems(1) by (cases e) (auto split: prod.splits list.splits)
  then show ?case using Cons.IH Cons.prems(2) by simp
qed simp

lemma sent_accepted:
  assumes "s = hub_run evs (hub_start n)" and "j < n"
  shows "prefix (sent_by j s) (accepted j s)" "p \<in> set (sent_by j s) \<Longrightarrow> length p \<le> iPacketBuffMaxSize"
proof -
  have "hub_inv n s" using hub_inv_run [OF hub_inv_start] assms(1) by simp
  then have a: "accepted j s = sent_by j s @ st_in (hub_streams (sys_hub s) ! j)" using assms(2) by (simp add: hub_inv_def)
  then show "prefix (sent_by j s) (accepted j s)" by simp
  assume "p \<in> set (sent_by j s)"
  then have "p \<in> set (accepted j s)" using a by simp
  then obtain x where "x \<in> set (sys_log s)" "p = snd x" by (auto simp: accepted_def)
  then show "length p \<le> iPacketBuffMaxSize" using log_cut [of "hub_start n" x evs] assms(1) by (simp add: hub_start_def)
qed

text \<open>The receivers of both modes treat the relay alike, so what is shown of the one below holds of the other with the pipe as the socket.\<close>

definition as_pipe :: "loop_end option \<Rightarrow> loop_end option" where
  "as_pipe r = (if r = Some Out_failed then Some Pipe_failed else r)"

lemma dtls_rx_same:
  "dtls_relay_rx opn relay_read str pipe_write r n buf w =
    (case nodtls_rx opn relay_read str (\<lambda>_. Some []) (\<lambda>b _. pipe_write b) r n buf w of (res, w') \<Rightarrow> (as_pipe res, w'))"
proof (induction n arbitrary: buf w)
  case (Suc n)
  then show ?case by (simp add: as_pipe_def split: prod.split option.split bool.split)
qed (simp add: as_pipe_def)

text \<open>Whether a datagram is a sealed payload, and which.\<close>

definition opens_as :: "'k sealer \<Rightarrow> 'k \<Rightarrow> bytes \<Rightarrow> bytes \<Rightarrow> bool" where
  "opens_as seal k d p \<longleftrightarrow> (\<exists>hdr. length hdr = 24 \<and> d = hdr @ seal k (take 12 (drop 12 hdr)) p hdr)"

lemma opens_length: "aead_tag seal \<Longrightarrow> opens_as seal k d p \<Longrightarrow> length d = wrapMaxWire (length p)"
  by (auto simp: opens_as_def aead_tag_def wrapMaxWire_def tg_consts)

lemma wire_opens: "wf_conn c \<Longrightarrow> opens_as seal (aead c) (wrap_wire seal c p) p"
  unfolding opens_as_def by (rule exI [of _ "wrap_header c"]) (simp add: wire_sealed)

lemma read_opened:
  assumes "aead_tag seal" and "aead_correct seal opn" and "wc r = Some c" and "opens_as seal (aead c) d p" and "length p \<le> length buf"
    and "q_arrived w = (d, a) # ds"
  shows "conn_ReadFrom opn (q_read nobody) r buf w = ((length p, a, None), p @ drop (length p) buf, w\<lparr>q_arrived := ds\<rparr>)"
proof -
  obtain hdr where h: "length hdr = 24" "d = hdr @ seal (aead c) (take 12 (drop 12 hdr)) p hdr" using assms(4) by (auto simp: opens_as_def)
  have "length d \<le> wrapMaxWire (length buf)" using opens_length [OF assms(1,4)] assms(5) by (simp add: wrapMaxWire_def)
  then show ?thesis using assms(3,6) unwrap_sealed [OF assms(1,2) h(1) assms(5), of c] h(2) by (simp add: conn_ReadFrom_def q_read_def)
qed

lemma read_forged:
  assumes "aead_unique seal opn" and "wc r = Some c" and "\<nexists>p. opens_as seal (aead c) (take (wrapMaxWire (length buf)) d) p"
    and "q_arrived w = (d, a) # ds"
  shows "\<exists>e. conn_ReadFrom opn (q_read nobody) r buf w = ((0, a, Some e), buf, w\<lparr>q_arrived := ds\<rparr>)"
proof -
  let ?x = "take (wrapMaxWire (length buf)) d"
  have "\<exists>e. unwrapPacket opn c ?x buf = Inl e"
  proof (cases "length ?x < wrapOverhead")
    case True
    then show ?thesis by (simp add: unwrapPacket_def)
  next
    case False
    then have l: "length (take 24 ?x) = 24" by (simp add: tg_consts)
    have "opn (aead c) (take 12 (drop 12 ?x)) (drop 24 ?x) (take 24 ?x) = None"
    proof (rule ccontr)
      assume "opn (aead c) (take 12 (drop 12 ?x)) (drop 24 ?x) (take 24 ?x) \<noteq> None"
      then obtain p where "opn (aead c) (take 12 (drop 12 ?x)) (drop 24 ?x) (take 24 ?x) = Some p" by blast
      then have "drop 24 ?x = seal (aead c) (take 12 (drop 12 ?x)) p (take 24 ?x)" using assms(1) unfolding aead_unique_def by blast
      moreover have "take 12 (drop 12 (take 24 ?x)) = take 12 (drop 12 ?x)" by (simp add: drop_take min_def)
      ultimately have "?x = take 24 ?x @ seal (aead c) (take 12 (drop 12 (take 24 ?x))) p (take 24 ?x)" by (metis append_take_drop_id)
      then show False using assms(3) l unfolding opens_as_def by blast
    qed
    then show ?thesis using False by (simp add: unwrapPacket_def tg_consts)
  qed
  then show ?thesis using assms(2,4) by (auto simp: conn_ReadFrom_def q_read_def)
qed

text \<open>The payloads of the datagrams that come from the peer.\<close>

definition from_peer :: "('a \<Rightarrow> string) \<Rightarrow> 'a \<Rightarrow> (bytes \<times> 'a) list \<Rightarrow> bytes list \<Rightarrow> bytes list" where
  "from_peer str a ds ps = map snd (filter (\<lambda>((d, g), p). str g = str a) (zip ds ps))"

lemma from_peer_Cons: "from_peer str a ((d, g) # ds) (p # ps) = (if str g = str a then [p] else []) @ from_peer str a ds ps"
  by (simp add: from_peer_def)

lemma rx_opened:
  assumes "aead_tag seal" and "aead_correct seal opn" and "wc r = Some c"
    and "list_all2 (\<lambda>(d, g) p. opens_as seal (aead c) d p \<and> length p \<le> length buf) ds ps" and "q_arrived w = ds @ rest"
  shows "\<exists>buf'. length buf' = length buf \<and>
    nodtls_rx opn (q_read nobody) str (\<lambda>_. Some addr) q_out_write r (length ds + n) buf w =
    nodtls_rx opn (q_read nobody) str (\<lambda>_. Some addr) q_out_write r n buf' (w\<lparr>q_arrived := rest, q_out := q_out w @ from_peer str (peer r) ds ps\<rparr>)"
  using assms(4,5)
proof (induction ds arbitrary: ps buf w)
  case Nil
  then have "w\<lparr>q_arrived := rest, q_out := q_out w @ from_peer str (peer r) [] ps\<rparr> = w" by (cases w) (simp add: from_peer_def)
  then show ?case by auto
next
  case (Cons x ds)
  obtain d g where x: "x = (d, g)" by fastforce
  obtain p qs where ps: "ps = p # qs" and p: "opens_as seal (aead c) d p" "length p \<le> length buf"
    and rest: "list_all2 (\<lambda>(d, g) p. opens_as seal (aead c) d p \<and> length p \<le> length buf) ds qs"
    using Cons.prems(1) x by (auto simp: list_all2_Cons1)
  let ?buf = "p @ drop (length p) buf"
  let ?w = "w\<lparr>q_arrived := ds @ rest, q_out := q_out w @ (if str g = str (peer r) then [p] else [])\<rparr>"
  have r: "conn_ReadFrom opn (q_read nobody) r buf w = ((length p, g, None), ?buf, w\<lparr>q_arrived := ds @ rest\<rparr>)"
    using read_opened [OF assms(1-3) p] Cons.prems(2) x by simp
  have 1: "nodtls_rx opn (q_read nobody) str (\<lambda>_. Some addr) q_out_write r (length (x # ds) + n) buf w =
      nodtls_rx opn (q_read nobody) str (\<lambda>_. Some addr) q_out_write r (length ds + n) ?buf ?w"
    using r by (simp add: q_out_write_def)
  have l: "length ?buf = length buf" using p(2) by simp
  obtain buf' where "length buf' = length ?buf" "nodtls_rx opn (q_read nobody) str (\<lambda>_. Some addr) q_out_write r (length ds + n) ?buf ?w =
      nodtls_rx opn (q_read nobody) str (\<lambda>_. Some addr) q_out_write r n buf' (?w\<lparr>q_arrived := rest, q_out := q_out ?w @ from_peer str (peer r) ds qs\<rparr>)"
    using Cons.IH [of ?buf qs ?w] rest l by auto
  then show ?case using 1 l by (intro exI [of _ buf']) (simp add: x ps from_peer_Cons)
qed

lemma rx_plain:
  assumes "wc r = None" and "q_arrived w = ds @ rest" and "\<forall>(d, g) \<in> set ds. length d \<le> length buf"
  shows "\<exists>buf'. length buf' = length buf \<and>
    nodtls_rx opn (q_read nobody) str (\<lambda>_. Some addr) q_out_write r (length ds + n) buf w =
    nodtls_rx opn (q_read nobody) str (\<lambda>_. Some addr) q_out_write r n buf' (w\<lparr>q_arrived := rest, q_out := q_out w @ from_peer str (peer r) ds (map fst ds)\<rparr>)"
  using assms(2,3)
proof (induction ds arbitrary: buf w)
  case Nil
  then have "w\<lparr>q_arrived := rest, q_out := q_out w @ from_peer str (peer r) [] (map fst [])\<rparr> = w" by (cases w) (simp add: from_peer_def)
  then show ?case by auto
next
  case (Cons x ds)
  obtain d g where x: "x = (d, g)" by fastforce
  then have d: "length d \<le> length buf" using Cons.prems(2) by auto
  let ?buf = "d @ drop (length d) buf"
  let ?w = "w\<lparr>q_arrived := ds @ rest, q_out := q_out w @ (if str g = str (peer r) then [d] else [])\<rparr>"
  have r: "conn_ReadFrom opn (q_read nobody) r buf w = ((length d, g, None), ?buf, w\<lparr>q_arrived := ds @ rest\<rparr>)"
    using assms(1) Cons.prems(1) x d by (simp add: conn_ReadFrom_def q_read_def overwrite_def)
  have 1: "nodtls_rx opn (q_read nobody) str (\<lambda>_. Some addr) q_out_write r (length (x # ds) + n) buf w =
      nodtls_rx opn (q_read nobody) str (\<lambda>_. Some addr) q_out_write r (length ds + n) ?buf ?w"
    using r by (simp add: q_out_write_def)
  have l: "length ?buf = length buf" using d by simp
  obtain buf' where "length buf' = length ?buf" "nodtls_rx opn (q_read nobody) str (\<lambda>_. Some addr) q_out_write r (length ds + n) ?buf ?w =
      nodtls_rx opn (q_read nobody) str (\<lambda>_. Some addr) q_out_write r n buf' (?w\<lparr>q_arrived := rest, q_out := q_out ?w @ from_peer str (peer r) ds (map fst ds)\<rparr>)"
    using Cons.IH [of ?w ?buf] Cons.prems(2) l by auto
  then show ?case using 1 l by (intro exI [of _ buf']) (simp add: x from_peer_Cons)
qed

section \<open>Properties\<close>

text \<open>
  From the local socket to the other end: without DTLS, what a stream sends is a prefix of what the hub gave it; on a relay that works the sender
  does not stop and puts one datagram a packet on it; whichever of them arrives, in whatever order and how often, an end with the same key
  reads that packet from it, byte for byte, since no packet exceeds the buffer; and no two of them have the same nonce.
\<close>

theorem tunnel_delivers:
  assumes "rand_fills rand" and "newWrapConn aead_new rand key False w0 = (Inr c, w1)" and "newWrapConn aead_new rand key True w2 = (Inr srv, w3)"
    and "aead_tag seal" and "aead_correct seal opn" and "s = hub_run evs (hub_start n)" and "j < n"
    and "nodtls_tx seal q_write \<lparr>peer = a, wc = Some c\<rparr> (sent_by j s) w = (e, r, w')"
  shows "e = None \<and> prefix (sent_by j s) (accepted j s) \<and>
    (\<exists>wires. q_sent w' = q_sent w @ wires \<and> length wires = length (sent_by j s) \<and>
      (\<forall>i < length wires. \<forall>b nobody buf u ds. length buf = iPacketBuffMaxSize \<and> q_arrived u = (wires ! i, a) # ds \<longrightarrow>
        conn_ReadFrom opn (q_read nobody) \<lparr>peer = b, wc = Some srv\<rparr> buf u =
          ((length (sent_by j s ! i), a, None), sent_by j s ! i @ drop (length (sent_by j s ! i)) buf, u\<lparr>q_arrived := ds\<rparr>)) \<and>
      (length wires \<le> 2 ^ 64 \<longrightarrow> distinct (map wire_nonce wires)))"
proof -
  let ?ps = "sent_by j s" let ?ws = "wrap_run seal c ?ps"
  have c: "wf_conn c" "aead_new key = Some (aead c)" and k: "aead_new key = Some (aead srv)"
    using newWrapConn_Inr [OF assms(2,1)] newWrapConn_Inr [OF assms(3,1)] by auto
  have k': "aead srv = aead c" using c(2) k by simp
  have t: "e = None" "q_sent w' = q_sent w @ ?ws" using tx_run [OF c(1) assms(4), of "\<lparr>peer = a, wc = Some c\<rparr>" ?ps w] assms(8) by auto
  note len = length_wrap_run [OF c(1) assms(4), of ?ps]
  have "conn_ReadFrom opn (q_read nobody) \<lparr>peer = b, wc = Some srv\<rparr> buf u = ((length (?ps ! i), a, None), ?ps ! i @ drop (length (?ps ! i)) buf, u\<lparr>q_arrived := ds\<rparr>)"
    if "i < length ?ws" "length buf = iPacketBuffMaxSize" "q_arrived u = (?ws ! i, a) # ds" for i b nobody buf u ds
  proof (rule read_opened [OF assms(4,5)])
    have "wf_conn ((wrap_advance ^^ i) c)" using c(1) by (simp add: tg_frame)
    then show "opens_as seal (aead srv) (?ws ! i) (?ps ! i)"
      using wire_opens [of "(wrap_advance ^^ i) c" seal "?ps ! i"] wrap_run_nth [OF c(1) assms(4), of i ?ps] that(1) len k' by (simp add: tg_frame)
    have "?ps ! i \<in> set ?ps" using that(1) len by simp
    then show "length (?ps ! i) \<le> length buf" using sent_accepted(2) [OF assms(6,7)] that(2) by simp
  qed (use that(3) in simp_all)
  moreover have "distinct (map wire_nonce ?ws)" if "length ?ws \<le> 2 ^ 64" using distinct_nonces [OF c(1) assms(4)] that len by simp
  ultimately show ?thesis using t len sent_accepted(1) [OF assms(6,7)] by blast
qed

definition zero_rand :: "nat \<Rightarrow> unit \<Rightarrow> bytes option \<times> unit" where
  "zero_rand n w = (Some (replicate n 0), w)"

theorem tunnel_delivers_witness:
  "let s = hub_run [Up 0, Packet [1, 2] ''a'', Packet [3] ''a'', Take 0] (hub_start 1) in
   \<exists>c srv w' d u. newWrapConn (\<lambda>_. Some ()) zero_rand (replicate 32 0) False () = (Inr c, ()) \<and>
     newWrapConn (\<lambda>_. Some ()) zero_rand (replicate 32 0) True () = (Inr srv, ()) \<and> sent_by 0 s = [[1, 2]] \<and>
     snd (snd (nodtls_tx null_seal q_write \<lparr>peer = (), wc = Some c\<rparr> (sent_by 0 s) \<lparr>q_sent = [], q_arrived = [], q_out = []\<rparr>)) = w' \<and> q_sent w' = [d] \<and>
     conn_ReadFrom null_open (q_read ()) \<lparr>peer = (), wc = Some srv\<rparr> (replicate iPacketBuffMaxSize 0) \<lparr>q_sent = [], q_arrived = [(d, ())], q_out = []\<rparr> =
       ((2, (), None), [1, 2] @ drop 2 (replicate iPacketBuffMaxSize 0), u)"
proof -
  let ?s = "hub_run [Up 0, Packet [1, 2] ''a'', Packet [3] ''a'', Take 0] (hub_start 1)"
  let ?w = "\<lparr>q_sent = [], q_arrived = [], q_out = []\<rparr> :: unit queues"
  have r: "rand_fills zero_rand" by (simp add: rand_fills_def zero_rand_def)
  obtain c srv where c: "newWrapConn (\<lambda>_. Some ()) zero_rand (replicate 32 0) False () = (Inr c, ())"
    and v: "newWrapConn (\<lambda>_. Some ()) zero_rand (replicate 32 0) True () = (Inr srv, ())"
    by (simp add: newWrapConn_def tg_consts zero_rand_def)
  have sent: "sent_by 0 ?s = [[1, 2]]" by code_simp
  obtain e q w' where t: "nodtls_tx null_seal q_write \<lparr>peer = (), wc = Some c\<rparr> (sent_by 0 ?s) ?w = (e, q, w')" by (metis prod_cases3)
  have "(0 :: nat) < 1" by simp
  note all = tunnel_delivers [OF r c v null_aead(1,2) refl this t]
  then obtain wires where wires: "q_sent w' = q_sent ?w @ wires" "length wires = length (sent_by 0 ?s)"
    and read: "\<And>i b nobody buf u ds. i < length wires \<Longrightarrow> length buf = iPacketBuffMaxSize \<and> q_arrived u = (wires ! i, ()) # ds \<Longrightarrow>
      conn_ReadFrom null_open (q_read nobody) \<lparr>peer = b, wc = Some srv\<rparr> buf u =
        ((length (sent_by 0 ?s ! i), (), None), sent_by 0 ?s ! i @ drop (length (sent_by 0 ?s ! i)) buf, u\<lparr>q_arrived := ds\<rparr>)" by blast
  have w1: "wires = [wires ! 0]" using wires(2) sent by (cases wires) auto
  have "conn_ReadFrom null_open (q_read ()) \<lparr>peer = (), wc = Some srv\<rparr> (replicate iPacketBuffMaxSize 0) (?w\<lparr>q_arrived := [(wires ! 0, ())]\<rparr>) =
      ((2, (), None), [1, 2] @ drop 2 (replicate iPacketBuffMaxSize 0), ?w\<lparr>q_arrived := [(wires ! 0, ())], q_arrived := []\<rparr>)"
    using read [of 0 "replicate iPacketBuffMaxSize 0" "?w\<lparr>q_arrived := [(wires ! 0, ())]\<rparr>" "[]" "()" "()"] wires(2) sent by simp
  moreover have "q_sent w' = [wires ! 0]" using wires(1) w1 by simp
  moreover have "snd (snd (nodtls_tx null_seal q_write \<lparr>peer = (), wc = Some c\<rparr> (sent_by 0 ?s) ?w)) = w'" unfolding t by simp
  ultimately show ?thesis unfolding Let_def using c v sent by fastforce
qed

text \<open>
  C3.  From the other end to the local socket: the receiver without DTLS hands on the payloads of the datagrams that come from the peer, in the order in
  which they arrive and as often as they arrive; but with a wrap key the first datagram that does not open, whoever sent it, ends the receiver
  and so the connection of the stream, and what arrives after it stays unread, while without a key the receiver
  goes on and a datagram of a stranger is dropped.
\<close>

theorem receive_until_forged:
  assumes "aead_tag seal" and "aead_correct seal opn" and "aead_unique seal opn" and "wc r = Some c" and "length buf = iPacketBuffMaxSize"
    and "list_all2 (\<lambda>(d, g) p. opens_as seal (aead c) d p \<and> length p \<le> length buf) ds ps"
    and "\<nexists>p. opens_as seal (aead c) (take (wrapMaxWire (length buf)) x) p" and "q_arrived w = ds @ (x, g) # rest"
  shows "(\<exists>e. nodtls_rx opn (q_read nobody) str (\<lambda>_. Some addr) q_out_write r (Suc (length ds + n)) buf w =
      (Some (Read_failed e), w\<lparr>q_arrived := rest, q_out := q_out w @ from_peer str (peer r) ds ps\<rparr>)) \<and>
    ((\<forall>(d, g) \<in> set (q_arrived w). length d \<le> length buf) \<longrightarrow> str g \<noteq> str (peer r) \<longrightarrow>
      nodtls_rx opn (q_read nobody) str (\<lambda>_. Some addr) q_out_write (r\<lparr>wc := None\<rparr>) (length (q_arrived w)) buf w =
      (None, w\<lparr>q_arrived := [], q_out := q_out w @ from_peer str (peer r) ds (map fst ds) @ from_peer str (peer r) rest (map fst rest)\<rparr>))"
proof (intro conjI impI)
  let ?w = "w\<lparr>q_arrived := (x, g) # rest, q_out := q_out w @ from_peer str (peer r) ds ps\<rparr>"
  obtain buf' where b: "length buf' = length buf" "nodtls_rx opn (q_read nobody) str (\<lambda>_. Some addr) q_out_write r (length ds + Suc n) buf w =
      nodtls_rx opn (q_read nobody) str (\<lambda>_. Some addr) q_out_write r (Suc n) buf' ?w"
    using rx_opened [OF assms(1,2,4,6,8), of nobody str addr "Suc n"] by blast
  have "\<nexists>p. opens_as seal (aead c) (take (wrapMaxWire (length buf')) x) p" using assms(7) b(1) by simp
  then obtain e where "conn_ReadFrom opn (q_read nobody) r buf' ?w = ((0, g, Some e), buf', ?w\<lparr>q_arrived := rest\<rparr>)"
    using read_forged [OF assms(3,4), of buf' x ?w g rest nobody] by auto
  then show "\<exists>e. nodtls_rx opn (q_read nobody) str (\<lambda>_. Some addr) q_out_write r (Suc (length ds + n)) buf w =
      (Some (Read_failed e), w\<lparr>q_arrived := rest, q_out := q_out w @ from_peer str (peer r) ds ps\<rparr>)"
    using b(2) by simp
next
  assume "\<forall>(d, g) \<in> set (q_arrived w). length d \<le> length buf" and f: "str g \<noteq> str (peer r)"
  then show "nodtls_rx opn (q_read nobody) str (\<lambda>_. Some addr) q_out_write (r\<lparr>wc := None\<rparr>) (length (q_arrived w)) buf w =
      (None, w\<lparr>q_arrived := [], q_out := q_out w @ from_peer str (peer r) ds (map fst ds) @ from_peer str (peer r) rest (map fst rest)\<rparr>)"
    using rx_plain [of "r\<lparr>wc := None\<rparr>" w "q_arrived w" "[]" buf opn nobody str addr 0]
    by (simp add: assms(8) from_peer_def zip_append split: if_splits)
qed

theorem receive_until_forged_witness:
  "\<exists>e w'. nodtls_rx null_open (q_read ()) (\<lambda>_. ''s'') (\<lambda>_. Some ''l'') q_out_write \<lparr>peer = (), wc = Some (zero_conn False)\<rparr> 3 (replicate iPacketBuffMaxSize 0)
     \<lparr>q_sent = [], q_arrived = [(wrap_wire null_seal (zero_conn True) [1, 2], ()), ([9], ()), ([8], ())], q_out = []\<rparr> = (Some (Read_failed e), w') \<and>
     q_out w' = [[1, 2]] \<and> q_arrived w' = [([8], ())]"
proof -
  let ?d = "wrap_wire null_seal (zero_conn True) [1, 2]" and ?buf = "replicate iPacketBuffMaxSize 0 :: bytes"
  let ?r = "\<lparr>peer = (), wc = Some (zero_conn False)\<rparr>"
  let ?w = "\<lparr>q_sent = [], q_arrived = [(?d, ())] @ ([9], ()) # [([8], ())], q_out = []\<rparr>"
  have o: "list_all2 (\<lambda>(d, g) p. opens_as null_seal (aead (zero_conn False)) d p \<and> length p \<le> length ?buf) [(?d, ())] [[1, 2]]"
    using wire_opens [of "zero_conn True" null_seal "[1, 2]"] by (simp add: iPacketBuffMaxSize_def)
  have f: "\<nexists>p. opens_as null_seal (aead (zero_conn False)) (take (wrapMaxWire (length ?buf)) [9]) p"
  proof (rule notI, elim exE)
    fix p assume "opens_as null_seal (aead (zero_conn False)) (take (wrapMaxWire (length ?buf)) [9]) p"
    then have "length (take (wrapMaxWire (length ?buf)) [9 :: byte]) = wrapMaxWire (length p)" by (rule opens_length [OF null_aead(1)])
    then show False by (simp add: wrapMaxWire_def tg_consts)
  qed
  have a: "q_arrived ?w = [(?d, ())] @ ([9], ()) # [([8], ())]" by simp
  have r: "wc ?r = Some (zero_conn False)" "length ?buf = iPacketBuffMaxSize" by simp_all
  obtain e where e: "nodtls_rx null_open (q_read ()) (\<lambda>_. ''s'') (\<lambda>_. Some ''l'') q_out_write ?r (Suc (length [(?d, ())] + 1)) ?buf ?w =
      (Some (Read_failed e), ?w\<lparr>q_arrived := [([8], ())], q_out := q_out ?w @ from_peer (\<lambda>_. ''s'') (peer ?r) [(?d, ())] [[1, 2]]\<rparr>)"
    using receive_until_forged [OF null_aead r o f a, where n = 1 and nobody = "()" and str = "\<lambda>_. ''s''" and addr = "''l''"] by blast
  have 3: "Suc (length [(?d, ())] + 1) = 3" and o: "q_out ?w @ from_peer (\<lambda>_. ''s'') (peer ?r) [(?d, ())] [[1, 2]] = [[1, 2]]"
    by (simp_all add: from_peer_def)
  show ?thesis using e unfolding 3 o by (simp del: nodtls_rx.simps)
qed

end
