(* ===== verification/Captcha_Manual.thy ===== *)
theory Captcha_Manual
  imports Captcha_Proxy
begin

text \<open>
  Solving a captcha by hand (internal/core/captcha_server.go, browser.go): the script that is put into VK's page, the start of the browser, the local
  server with its way out over the terminal, and the callback server that nothing uses.  The proxy's handler is in Captcha_Proxy.

  Parameters: url.Parse, listening, starting a program, the requests that reach the server while it waits, and fmt.Scanln.
\<close>

section \<open>The injected script\<close>

text \<open>The text of the sources with a backquote, which it does not use, in place of the single quote.\<close>

definition js_text :: "string \<Rightarrow> string" where
  "js_text s = map (\<lambda>c. if c = CHR ''`'' then CHR 0x27 else c) s"

definition webpack_fix :: string where
  "webpack_fix = js_text ''<script>if(typeof window.__webpack_public_path__===`undefined`){window.__webpack_public_path__=``;}if(!document.currentScript){document.currentScript={src:window.location.href};}try{Object.defineProperty(document,`currentScript`,{get:function(){return{src:window.location.href};},configurable:true});}catch(e){}</script>''"

definition script_lines :: "int \<Rightarrow> string list" where
  "script_lines port = map js_text
    [''<script>'',
     ''(function() {'',
     ''    // Intercept XHR to capture success_token'',
     ''    var origOpen = XMLHttpRequest.prototype.open;'',
     ''    var origSend = XMLHttpRequest.prototype.send;'',
     ''    XMLHttpRequest.prototype.open = function(method, url) {'',
     ''        this._captchaUrl = url;'',
     ''        return origOpen.apply(this, arguments);'',
     ''    };'',
     ''    XMLHttpRequest.prototype.send = function() {'',
     ''        var xhr = this;'',
     ''        if (xhr._captchaUrl && (xhr._captchaUrl.indexOf(`captchaNotRobot.check`) !== -1 || xhr._captchaUrl.indexOf(`captchaNotRobot`) !== -1)) {'',
     ''            xhr.addEventListener(`load`, function() {'',
     ''                try {'',
     ''                    var data = JSON.parse(xhr.responseText);'',
     ''                    if (data.response && data.response.success_token) {'',
     ''                        fetch(`http://127.0.0.1:'' @ int_dec port @ ''/captcha_callback?token=` + encodeURIComponent(data.response.success_token));'',
     ''                    }'',
     ''                } catch(e) { console.log(`[TG] XHR parse error:`, e); }'',
     ''            });'',
     ''        }'',
     ''        return origSend.apply(this, arguments);'',
     ''    };'',
     ''    // Also intercept fetch'',
     ''    var origFetch = window.fetch;'',
     ''    if (origFetch) {'',
     ''        window.fetch = function() {'',
     ''            var url = arguments[0];'',
     ''            var urlStr = typeof url === `string` ? url : (url && url.url ? url.url : ``);'',
     ''            if (urlStr.indexOf(`captchaNotRobot`) !== -1) {'',
     ''                return origFetch.apply(this, arguments).then(function(resp) {'',
     ''                    resp.clone().text().then(function(text) {'',
     ''                        try {'',
     ''                            var data = JSON.parse(text);'',
     ''                            if (data.response && data.response.success_token) {'',
     ''                                fetch(`http://127.0.0.1:'' @ int_dec port @ ''/captcha_callback?token=` + encodeURIComponent(data.response.success_token));'',
     ''                            }'',
     ''                        } catch(e) { console.log(`[TG] fetch parse error:`, e); }'',
     ''                    });'',
     ''                    return resp;'',
     ''                });'',
     ''            }'',
     ''            return origFetch.apply(this, arguments);'',
     ''        };'',
     ''    }'',
     ''    // Also watch for success_token in window object (some VK flows set it globally)'',
     ''    var checkToken = setInterval(function() {'',
     ''        if (window.success_token) {'',
     ''            fetch(`http://127.0.0.1:'' @ int_dec port @ ''/captcha_callback?token=` + encodeURIComponent(window.success_token));'',
     ''            clearInterval(checkToken);'',
     ''        }'',
     ''    }, 500);'',
     ''    console.log(`[TurnGuard] Captcha interceptor installed`);'',
     ''})();'',
     ''</script>'']"

definition captcha_script :: "int \<Rightarrow> string" where
  "captcha_script port = webpack_fix @ [CHR 0x0A] @ concat (map (\<lambda>l. l @ [CHR 0x0A]) (script_lines port))"

section \<open>The browser and the terminal\<close>

record 'w manual_env =
  mc_parse :: "string \<Rightarrow> captcha_target option"
  mc_listen :: "'w \<Rightarrow> int option \<times> 'w"
  mc_os :: string
  mc_run :: "string list \<Rightarrow> 'w \<Rightarrow> bool \<times> 'w"
  mc_requests :: "int \<Rightarrow> 'w \<Rightarrow> web_request list \<times> 'w"
  mc_vk :: "web_request \<Rightarrow> web_response option"
  mc_gunzip :: inflate
  mc_unzlib :: inflate
  mc_scan :: "'w \<Rightarrow> string option \<times> 'w"

definition browser_cmd :: "string \<Rightarrow> string \<Rightarrow> string list option" where
  "browser_cmd os url =
     (if os = ''linux'' then Some [''xdg-open'', url]
      else if os = ''windows'' then Some [''rundll32'', ''url.dll,FileProtocolHandler'', url]
      else if os = ''darwin'' then Some [''open'', url]
      else None)"

text \<open>Without success there is only a log line.\<close>

definition openBrowser :: "'w manual_env \<Rightarrow> string \<Rightarrow> 'w \<Rightarrow> 'w" where
  "openBrowser env url w = (case browser_cmd (mc_os env) url of None \<Rightarrow> w | Some cmd \<Rightarrow> snd (mc_run env cmd w))"

text \<open>
  \<open>None\<close> is the panic of the slice \<open>redirectURI[:80]\<close> in the first log line.  \<open>mc_scan\<close> gives no token after an error and when the two minutes are over.
\<close>

definition SolveCaptchaBrowserStdin :: "'w manual_env \<Rightarrow> string \<Rightarrow> 'w \<Rightarrow> string option \<times> 'w" where
  "SolveCaptchaBrowserStdin env redirectURI w =
     (if length redirectURI < 80 then (None, w)
      else (case mc_scan env (openBrowser env redirectURI w) of
          (None, w1) \<Rightarrow> (Some [], w1)
        | (Some token, w1) \<Rightarrow> (Some token, w1)))"

definition SolveCaptchaWithProxy :: "'w manual_env \<Rightarrow> string \<Rightarrow> 'w \<Rightarrow> string option \<times> 'w" where
  "SolveCaptchaWithProxy env redirectURI w =
     (case mc_parse env redirectURI of
        None \<Rightarrow> SolveCaptchaBrowserStdin env redirectURI w
      | Some t \<Rightarrow>
          (case mc_listen env w of
             (None, w1) \<Rightarrow> SolveCaptchaBrowserStdin env redirectURI w1
           | (Some port, w1) \<Rightarrow>
               (case mc_requests env port (openBrowser env (''http://127.0.0.1:'' @ int_dec port @ ''/'') w1) of
                  (rs, w2) \<Rightarrow> (Some (proxy_token (mc_vk env) (mc_gunzip env) (mc_unzlib env) (captcha_script port) t rs), w2))))"

definition SolveCaptchaBrowser :: "'w manual_env \<Rightarrow> string \<Rightarrow> 'w \<Rightarrow> string option \<times> 'w" where
  "SolveCaptchaBrowser env redirectURI w = SolveCaptchaWithProxy env redirectURI w"

text \<open>
  The handler of StartCallbackServer: the answer, whether it returns, and the channel of capacity 1; there is no way out for a full channel.
\<close>

definition serve_callback :: "web_request \<Rightarrow> string option \<Rightarrow> web_response \<times> bool \<times> string option" where
  "serve_callback r chan =
     (let token = query_get (wr_query r) ''success_token'' in
      if token \<noteq> [] then (\<lparr>ws_code = 200, ws_hdrs = [], ws_body = ''OK''\<rparr>, chan = None, (case chan of None \<Rightarrow> Some token | Some _ \<Rightarrow> chan))
      else (\<lparr>ws_code = 400, ws_hdrs = [], ws_body = ''Missing success_token''\<rparr>, True, chan))"

section \<open>Properties\<close>

lemma js_text_append: "js_text (a @ b) = js_text a @ js_text b"
  by (simp add: js_text_def)

lemma js_text_int: "js_text (int_dec i) = int_dec i"
proof -
  have "(of_char (CHR ''`'') :: nat) = 96" by code_simp
  then have "CHR ''`'' \<notin> set (int_dec i)" using nat_dec_digits [of "CHR ''`''"] by (auto simp: int_dec_def)
  then have "c \<in> set (int_dec i) \<Longrightarrow> c \<noteq> CHR ''`''" for c by metis
  then show ?thesis by (simp add: js_text_def map_idI)
qed

text \<open>What the script calls with a token, and the request that this is; encodeURIComponent works on the bytes of UTF-8.\<close>

definition callback_url :: "int \<Rightarrow> string" where
  "callback_url port = ''http://127.0.0.1:'' @ int_dec port @ ''/captcha_callback?token=''"

definition uri_char :: "char \<Rightarrow> string" where
  "uri_char c = (let n = of_char c :: nat in
     if unreserved c \<or> n \<in> {33, 39, 40, 41, 42} then [c] else [CHR 0x25, upper_hex (n div 16), upper_hex (n mod 16)])"

definition encodeURIComponent :: "string \<Rightarrow> string" where
  "encodeURIComponent s = concat (map uri_char s)"

definition script_callback :: "string \<Rightarrow> headers \<Rightarrow> web_request" where
  "script_callback x hs = \<lparr>wr_verb = ''GET'', wr_path = ''/captcha_callback'', wr_query = ''token='' @ encodeURIComponent x, wr_headers = hs\<rparr>"

lemma uri_char_props:
  "query_unescape (uri_char c @ s) = map_option ((#) c) (query_unescape s)"
  "x \<in> set (uri_char c) \<Longrightarrow> x \<noteq> CHR ''&'' \<and> x \<noteq> CHR '';''"
proof -
  have "(of_char c :: nat) < 256" by (rule nat_of_char_less_256)
  then have h: "(of_char c :: nat) div 16 < 16" by (simp add: less_mult_imp_div_less)
  have k: "(of_char (CHR 0x25) :: nat) = 37" "(of_char (CHR ''+'') :: nat) = 43" "(of_char (CHR ''&'') :: nat) = 38" "(of_char (CHR '';'') :: nat) = 59"
    by code_simp+
  then have p: "uri_char c = [c] \<Longrightarrow> c \<noteq> CHR 0x25 \<and> c \<noteq> CHR ''+'' \<and> c \<noteq> CHR ''&'' \<and> c \<noteq> CHR '';''"
    using unreserved_plain [of c] by (auto simp: uri_char_def Let_def split: if_splits)
  show "query_unescape (uri_char c @ s) = map_option ((#) c) (query_unescape s)"
    using h char_of_split [of c] p by (auto simp: uri_char_def Let_def upper_hex_val)
  show "x \<in> set (uri_char c) \<Longrightarrow> x \<noteq> CHR ''&'' \<and> x \<noteq> CHR '';''"
    using h p upper_hex_class [of "of_char c div 16"] upper_hex_class [of "of_char c mod 16"] unreserved_plain [of x]
    by (auto simp: uri_char_def Let_def split: if_splits)
qed

lemma query_unescape_uri: "query_unescape (encodeURIComponent s) = Some s"
proof -
  have "query_unescape (encodeURIComponent s @ []) = Some s"
    by (induction s) (simp_all add: encodeURIComponent_def uri_char_props(1))
  then show ?thesis by simp
qed

lemma script_callback_token: "callback_token (script_callback x hs) = x"
proof -
  have "c \<in> set (encodeURIComponent x) \<Longrightarrow> c \<noteq> CHR ''&'' \<and> c \<noteq> CHR '';''" for c
    using uri_char_props(2) by (auto simp: encodeURIComponent_def)
  then have n: "CHR ''&'' \<notin> set (''token='' @ encodeURIComponent x)" "CHR '';'' \<notin> set (''token='' @ encodeURIComponent x)" by auto
  have c: "cut_at CHR ''='' (''token='' @ encodeURIComponent x) = (''token'', encodeURIComponent x)" by (simp add: cut_at_def)
  have t: "query_unescape ''token'' = Some ''token''" by simp
  have "query_pair (''token='' @ encodeURIComponent x) = Some (''token'', x)"
    unfolding query_pair_def c prod.case t query_unescape_uri option.case using n by simp
  then have "query_get (''token='' @ encodeURIComponent x) ''token'' = x"
    using n by (simp add: query_get_def parse_query_def List.map_filter_simps)
  then show ?thesis by (simp add: callback_token_def script_callback_def)
qed

lemma first_callback:
  assumes "list_all (\<lambda>r. callback_token r = []) rs" and "x \<noteq> []"
  shows "proxy_token vk gunzip unzlib js t (rs @ script_callback x hs # rs') = x"
  using assms
proof (induction rs)
  case Nil
  then show ?case by (simp add: proxy_token_def handle_none script_callback_token handle_all_taken)
next
  case (Cons r rs)
  then show ?case by (simp add: proxy_token_def handle_none)
qed

lemma script_calls:
  "sublist (js_text ''fetch(`'' @ callback_url port @ js_text ''` + encodeURIComponent(data.response.success_token));'') (captcha_script port)"
proof -
  let ?c = "js_text ''fetch(`'' @ callback_url port @ js_text ''` + encodeURIComponent(data.response.success_token));''"
  have j: "js_text ''http://127.0.0.1:'' = ''http://127.0.0.1:''" "js_text ''/captcha_callback?token='' = ''/captcha_callback?token=''"
    by (simp_all add: js_text_def)
  have "js_text (''                        '' @ ''fetch(`'' @ ''http://127.0.0.1:'' @ int_dec port @ ''/captcha_callback?token='' @ ''` + encodeURIComponent(data.response.success_token));'') =
      js_text ''                        '' @ ?c"
    unfolding js_text_append js_text_int j callback_url_def by simp
  moreover have "js_text (''                        '' @ ''fetch(`'' @ ''http://127.0.0.1:'' @ int_dec port @ ''/captcha_callback?token='' @ ''` + encodeURIComponent(data.response.success_token));'')
     \<in> set (script_lines port)" by (simp add: script_lines_def)
  ultimately have l: "js_text ''                        '' @ ?c \<in> set (script_lines port)" by simp
  then obtain xs ys where "script_lines port = xs @ (js_text ''                        '' @ ?c) # ys" by (meson split_list)
  then have "captcha_script port = (webpack_fix @ [CHR 0x0A] @ concat (map (\<lambda>l. l @ [CHR 0x0A]) xs) @ js_text ''                        '') @ ?c @
      ([CHR 0x0A] @ concat (map (\<lambda>l. l @ [CHR 0x0A]) ys))" by (simp add: captcha_script_def)
  then show ?thesis by (metis sublist_appendI)
qed

text \<open>
  C38.  The captcha solved by hand: the page's script calls the local server, which waits, with the token that VK gave it, whatever bytes this has, and the first of these calls is the
  token that the solver gets.  Without a server the user is asked for the token, and there the solver panics for an address of less than 80 bytes, and never otherwise.
\<close>

theorem manual_captcha:
  "(fst (SolveCaptchaBrowser env uri w) = None \<longleftrightarrow> length uri < 80 \<and> (mc_parse env uri = None \<or> fst (mc_listen env w) = None)) \<and>
   (mc_parse env uri = Some t \<longrightarrow> mc_listen env w = (Some port, w1) \<longrightarrow>
    mc_requests env port (openBrowser env (''http://127.0.0.1:'' @ int_dec port @ ''/'') w1) = (rs @ script_callback x hs # rs', w2) \<longrightarrow>
    list_all (\<lambda>r. callback_token r = []) rs \<longrightarrow> x \<noteq> [] \<longrightarrow> SolveCaptchaBrowser env uri w = (Some x, w2)) \<and>
   sublist (js_text ''fetch(`'' @ callback_url port @ js_text ''` + encodeURIComponent(data.response.success_token));'') (captcha_script port)"
proof (intro conjI)
  have "fst (SolveCaptchaBrowserStdin env uri v) = None \<longleftrightarrow> length uri < 80" for v
    by (auto simp: SolveCaptchaBrowserStdin_def split: prod.split option.split)
  then show "fst (SolveCaptchaBrowser env uri w) = None \<longleftrightarrow> length uri < 80 \<and> (mc_parse env uri = None \<or> fst (mc_listen env w) = None)"
    by (auto simp: SolveCaptchaBrowser_def SolveCaptchaWithProxy_def split: prod.split option.split)
  show "mc_parse env uri = Some t \<longrightarrow> mc_listen env w = (Some port, w1) \<longrightarrow>
    mc_requests env port (openBrowser env (''http://127.0.0.1:'' @ int_dec port @ ''/'') w1) = (rs @ script_callback x hs # rs', w2) \<longrightarrow>
    list_all (\<lambda>r. callback_token r = []) rs \<longrightarrow> x \<noteq> [] \<longrightarrow> SolveCaptchaBrowser env uri w = (Some x, w2)"
    by (simp add: SolveCaptchaBrowser_def SolveCaptchaWithProxy_def first_callback)
  show "sublist (js_text ''fetch(`'' @ callback_url port @ js_text ''` + encodeURIComponent(data.response.success_token));'') (captcha_script port)"
    by (rule script_calls)
qed

definition manual_test_env :: "nat manual_env" where
  "manual_test_env = \<lparr>mc_parse = (\<lambda>s. if s = [] then None else Some test_target), mc_listen = (\<lambda>w. (Some 4000, w + 1)), mc_os = ''linux'', mc_run = (\<lambda>c w. (True, w + 10)),
     mc_requests = (\<lambda>port w. ([root_request, script_callback ''a b'' []], w + 100)), mc_vk = (\<lambda>_. Some test_page), mc_gunzip = (\<lambda>_. None), mc_unzlib = (\<lambda>_. None),
     mc_scan = (\<lambda>w. (None, w))\<rparr>"

theorem manual_captcha_witness:
  "fst (SolveCaptchaBrowser manual_test_env [] 0) = None \<and> SolveCaptchaBrowser manual_test_env ''https://id.vk.ru/'' 0 = (Some ''a b'', 111)"
proof
  show "fst (SolveCaptchaBrowser manual_test_env [] 0) = None"
    by (rule iffD2 [OF conjunct1 [OF manual_captcha]]) (simp add: manual_test_env_def)
  have "callback_token root_request = []" by (simp add: callback_token_def root_request_def)
  then show "SolveCaptchaBrowser manual_test_env ''https://id.vk.ru/'' 0 = (Some ''a b'', 111)"
    using conjunct1 [OF conjunct2 [OF manual_captcha [where env = manual_test_env and uri = "''https://id.vk.ru/''" and w = 0 and t = test_target and port = 4000
      and ?w1.0 = 1 and rs = "[root_request]" and x = "''a b''" and hs = "[]" and rs' = "[]" and ?w2.0 = 111]]]
    by (simp add: manual_test_env_def openBrowser_def browser_cmd_def)
qed

end
