(* ===== verification/Dns_Package.thy ===== *)
theory Dns_Package
  imports Vk_Hosts
begin

text \<open>
  The package internal/dns: a copy of the resolver and the host manager of internal/core that does not know the persistent cache.  Line for line
  the copy differs in Resolve, ResolveAll, VkHosts.Resolve, which do not mark the cache dirty, and in loadCABundle; the other functions are
  modelled by the definitions of Dns_Wire, Resolver and Vk_Hosts, over the same states, with a dirty flag that is never set.  Those that call
  the three are here again.
\<close>

section \<open>The operations that differ\<close>

definition pkg_Resolve ::
  "'w dns_net \<Rightarrow> string \<Rightarrow> 'w \<times> dns_state \<Rightarrow> (resolve_error, string) result \<times> 'w \<times> dns_state" where
  "pkg_Resolve net domain ws =
     (case ws of (w, s) \<Rightarrow>
      case cache_ips s domain of
        Some cached \<Rightarrow> (Inr cached, w, s)
      | None \<Rightarrow>
        (case resolveWithOrderedServers net domain (w, s) of
           (Inl e, w, s) \<Rightarrow> (Inl e, w, s)
         | (Inr ip, w, s) \<Rightarrow> (Inr ip, w, s\<lparr>cache_ips := (cache_ips s)(domain \<mapsto> ip)\<rparr>)))"

definition pkg_save_all :: "string \<Rightarrow> string list \<Rightarrow> dns_state \<Rightarrow> dns_state" where
  "pkg_save_all domain ips s =
     (let s = s\<lparr>cache_allIps := (cache_allIps s)(domain \<mapsto> ips)\<rparr>
      in if length ips > 0 then s\<lparr>cache_ips := (cache_ips s)(domain \<mapsto> hd ips)\<rparr> else s)"

definition pkg_ResolveAll ::
  "'w dns_net \<Rightarrow> string \<Rightarrow> 'w \<times> dns_state \<Rightarrow> (resolve_error, string list) result \<times> 'w \<times> dns_state" where
  "pkg_ResolveAll net domain ws =
     (case ws of (w, s) \<Rightarrow>
      case cached_all s domain of
        Some cached \<Rightarrow> (Inr cached, w, s)
      | None \<Rightarrow>
        (case resolveWithOrderedServersAll net domain (w, s) of (r, w, s) \<Rightarrow>
         (case (case r of
                  Inr ips \<Rightarrow> if length ips = 0 then None else Some ips
                | Inl e \<Rightarrow> None) of
            Some ips \<Rightarrow> (Inr ips, w, pkg_save_all domain ips s)
          | None \<Rightarrow>
            (case pkg_Resolve net domain (w, s) of
               (Inl e2, w, s) \<Rightarrow> (Inl e2, w, s)
             | (Inr ip, w, s) \<Rightarrow> (Inr [ip], w, pkg_save_all domain [ip] s)))))"

definition pkg_vk_Resolve ::
  "'w dns_net \<Rightarrow> string \<Rightarrow> 'w \<times> vk_hosts \<Rightarrow> (vk_error, string) result \<times> 'w \<times> vk_hosts" where
  "pkg_vk_Resolve net domain ws =
     (case ws of (w, vh) \<Rightarrow>
      if dnsOK vh then
        (case pkg_ResolveAll net domain (w, hostCache vh) of (r, w, h) \<Rightarrow>
         let vh = vh\<lparr>hostCache := h\<rparr> in
         (case (case r of Inr ips \<Rightarrow> if length ips > 0 then Some ips else None | Inl e \<Rightarrow> None) of
            Some ips \<Rightarrow>
              (let old = dynamic_of vh domain;
                   vh = vh\<lparr>vk_dynamic := (vk_dynamic vh)(domain \<mapsto> mergeUnique old ips)\<rparr>;
                   vh = vh\<lparr>dnsOK := True, lastDNS := net_now net w\<rparr>
               in (selectBestIP (net_now net w) vh domain, w, vh))
          | None \<Rightarrow>
              (let vh = vh\<lparr>dnsOK := False\<rparr>
               in (selectBestIP (net_now net w) vh domain, w, vh))))
      else (selectBestIP (net_now net w) vh domain, w, vh))"

section \<open>The operations that call them\<close>

definition pkg_resolveAllViaDNS ::
  "'w dns_net \<Rightarrow> string \<Rightarrow> 'w \<times> dns_state \<Rightarrow> (resolve_error, string list) result \<times> 'w \<times> dns_state" where
  "pkg_resolveAllViaDNS net domain ws = pkg_ResolveAll net domain ws"

fun pkg_collect_dns ::
  "'w dns_net \<Rightarrow> 'w dns_net \<Rightarrow> string list \<Rightarrow> 'w \<times> vk_hosts \<Rightarrow> bool \<times> 'w \<times> vk_hosts" where
  "pkg_collect_dns net bg [] (w, vh) = (True, w, vh)"
| "pkg_collect_dns net bg (domain # order) (w, vh) =
     (case net_ctx net w of
        Some e \<Rightarrow> (False, w, vh)
      | None \<Rightarrow>
        (case pkg_resolveAllViaDNS bg domain (w, hostCache vh) of (r, w, h) \<Rightarrow>
         let vh = vh\<lparr>hostCache := h\<rparr>;
             vh = (case r of
               Inr ips \<Rightarrow> if length ips > 0
                 then MarkDNSWorking (net_now net w) (UpdateDynamic (net_now net w) domain ips vh) else vh
             | Inl e \<Rightarrow> vh)
         in pkg_collect_dns net bg order (w, vh)))"

definition pkg_collectMetrics ::
  "'w dns_net \<Rightarrow> 'w dns_net \<Rightarrow> 'w prober \<Rightarrow> string list \<Rightarrow> string list \<Rightarrow> 'w \<times> vk_hosts \<Rightarrow> 'w \<times> vk_hosts" where
  "pkg_collectMetrics net bg dial order order2 ws =
     (case ws of (w, vh) \<Rightarrow>
      let domains = (\<lambda>domain. allIPs vh domain)
      in case pkg_collect_dns net bg order (w, vh) of (go, w, vh) \<Rightarrow>
           if \<not> go then (w, vh)
           else collect_probes net dial
                  (concat (map (\<lambda>domain. map (\<lambda>ip. (domain, ip)) (domains domain)) order2)) (w, vh))"

section \<open>Equivalence\<close>

text \<open>A state of the core without what only the core has.\<close>

definition undirty :: "dns_state \<Rightarrow> dns_state" where
  "undirty s = s\<lparr>persist_dirty := False\<rparr>"

definition undirty_vh :: "vk_hosts \<Rightarrow> vk_hosts" where
  "undirty_vh vh = vh\<lparr>hostCache := undirty (hostCache vh)\<rparr>"

lemma undirty_fields [simp]:
  "cache_ips (undirty s) = cache_ips s" "cache_allIps (undirty s) = cache_allIps s" "dnsServers (undirty s) = dnsServers s"
  "lastSuccessfulIndex (undirty s) = lastSuccessfulIndex s" "persist_dirty (undirty s) = False" "undirty (undirty s) = undirty s"
  by (simp_all add: undirty_def)

lemma undirty_upd:
  "undirty (s\<lparr>lastSuccessfulIndex := i\<rparr>) = (undirty s)\<lparr>lastSuccessfulIndex := i\<rparr>"
  "undirty (s\<lparr>cache_ips := m\<rparr>) = (undirty s)\<lparr>cache_ips := m\<rparr>"
  "undirty (s\<lparr>cache_allIps := a\<rparr>) = (undirty s)\<lparr>cache_allIps := a\<rparr>"
  "undirty (MarkDirty s) = undirty s"
  by (simp_all add: undirty_def MarkDirty_def)

lemma ordered_loop_undirty:
  "ordered_loop net d st is (w, undirty s) = (case ordered_loop net d st is (w, s) of (r, w', s') \<Rightarrow> (r, w', undirty s'))"
  by (induction "is" arbitrary: w) (auto simp: Let_def undirty_upd split: option.split prod.split sum.split)

lemma ordered_loop_all_undirty:
  "ordered_loop_all net d st is acc frst (w, undirty s) = (case ordered_loop_all net d st is acc frst (w, s) of (r, w', s') \<Rightarrow> (r, w', undirty s'))"
proof (induction "is" arbitrary: w s acc frst)
  case (Cons i "is")
  have "(if frst then (undirty s)\<lparr>lastSuccessfulIndex := j\<rparr> else undirty s) = undirty (if frst then s\<lparr>lastSuccessfulIndex := j\<rparr> else s)" for j
    by (simp add: undirty_upd)
  then show ?case using Cons by (cases frst) (auto simp: Let_def simp flip: undirty_upd(1) split: prod.split sum.split)
qed simp

lemma resolve_undirty:
  "resolveWithOrderedServers net d (w, undirty s) = (case resolveWithOrderedServers net d (w, s) of (r, w', s') \<Rightarrow> (r, w', undirty s'))"
  "resolveWithOrderedServersAll net d (w, undirty s) = (case resolveWithOrderedServersAll net d (w, s) of (r, w', s') \<Rightarrow> (r, w', undirty s'))"
  by (simp_all add: resolveWithOrderedServers_def resolveWithOrderedServersAll_def ordered_loop_undirty ordered_loop_all_undirty Let_def split: prod.split)

lemma save_undirty: "pkg_save_all d ips (undirty s) = undirty (save_all d ips s)"
  by (simp add: pkg_save_all_def save_all_def undirty_upd Let_def)

lemma pkg_Resolve_undirty:
  "pkg_Resolve net d (w, undirty s) = (case cache_Resolve net d (w, s) of (r, w', s') \<Rightarrow> (r, w', undirty s'))"
  by (simp add: pkg_Resolve_def cache_Resolve_def resolve_undirty undirty_upd split: option.split prod.split sum.split)

lemma pkg_ResolveAll_undirty:
  "pkg_ResolveAll net d (w, undirty s) = (case cache_ResolveAll net d (w, s) of (r, w', s') \<Rightarrow> (r, w', undirty s'))"
proof -
  have "cached_all (undirty s) d = cached_all s d" by (simp add: cached_all_def)
  then show ?thesis
    by (auto simp: pkg_ResolveAll_def cache_ResolveAll_def resolve_undirty pkg_Resolve_undirty save_undirty split: option.split prod.split sum.split)
qed

text \<open>What the host manager does of its own does not touch the host cache.\<close>

lemma selectBestIP_cong:
  assumes "vk_metrics vh = vk_metrics vh'" and "vk_dynamic vh = vk_dynamic vh'"
  shows "selectBestIP now vh d = selectBestIP now vh' d" "allIPs vh d = allIPs vh' d"
proof -
  have i: "ip_score now vh d = ip_score now vh' d" using assms by (simp add: ip_score_def fun_eq_iff)
  show a: "allIPs vh d = allIPs vh' d" using assms by (simp add: allIPs_def dynamic_of_def)
  show "selectBestIP now vh d = selectBestIP now vh' d" by (simp add: selectBestIP_def i a Let_def)
qed

lemma vh_cache:
  "UpdateDynamic now d ips (vh\<lparr>hostCache := h\<rparr>) = (UpdateDynamic now d ips vh)\<lparr>hostCache := h\<rparr>"
  "MarkDNSWorking now (vh\<lparr>hostCache := h\<rparr>) = (MarkDNSWorking now vh)\<lparr>hostCache := h\<rparr>"
  "RecordSuccess now d ip rtt (vh\<lparr>hostCache := h\<rparr>) = (RecordSuccess now d ip rtt vh)\<lparr>hostCache := h\<rparr>"
  "RecordFailure d ip (vh\<lparr>hostCache := h\<rparr>) = (RecordFailure d ip vh)\<lparr>hostCache := h\<rparr>"
  by (simp_all add: UpdateDynamic_def MarkDNSWorking_def RecordSuccess_def RecordFailure_def update_metric_def Let_def)

lemma hostCache_kept:
  "hostCache (UpdateDynamic now d ips vh) = hostCache vh" "hostCache (MarkDNSWorking now vh) = hostCache vh"
  "hostCache (RecordSuccess now d ip rtt vh) = hostCache vh" "hostCache (RecordFailure d ip vh) = hostCache vh"
  by (simp_all add: UpdateDynamic_def MarkDNSWorking_def RecordSuccess_def RecordFailure_def update_metric_def Let_def)

lemma undirty_vh_upd:
  "undirty_vh (vh\<lparr>hostCache := h\<rparr>) = vh\<lparr>hostCache := undirty h\<rparr>" "hostCache (undirty_vh vh) = undirty (hostCache vh)"
  "dnsOK (undirty_vh vh) = dnsOK vh" "vk_dynamic (undirty_vh vh) = vk_dynamic vh"
  by (simp_all add: undirty_vh_def)


lemma pkg_vk_Resolve_undirty:
  "pkg_vk_Resolve net d (w, undirty_vh vh) = (case vk_Resolve net d (w, vh) of (r, w', vh') \<Rightarrow> (r, w', undirty_vh vh'))"
proof (cases "dnsOK vh")
  case True
  obtain r w1 h where c: "cache_ResolveAll net d (w, hostCache vh) = (r, w1, h)" by (metis prod_cases3)
  then show ?thesis using True
    by (cases r) (auto simp: pkg_vk_Resolve_def vk_Resolve_def undirty_vh_def pkg_ResolveAll_undirty dynamic_of_def undirty_upd Let_def intro: selectBestIP_cong)
next
  case False
  then show ?thesis by (auto simp: pkg_vk_Resolve_def vk_Resolve_def undirty_vh_def intro: selectBestIP_cong)
qed

lemma pkg_collect_dns_undirty:
  "pkg_collect_dns net bg order (w, undirty_vh vh) = (case collect_dns net bg order (w, vh) of (go, w', vh') \<Rightarrow> (go, w', undirty_vh vh'))"
proof (induction order arbitrary: w vh)
  case (Cons d order)
  obtain r w1 h where c: "cache_ResolveAll bg d (w, hostCache vh) = (r, w1, h)" by (metis prod_cases3)
  have e: "(undirty_vh vh)\<lparr>hostCache := undirty h\<rparr> = undirty_vh (vh\<lparr>hostCache := h\<rparr>)"
    "MarkDNSWorking now (UpdateDynamic now d ips (undirty_vh v)) = undirty_vh (MarkDNSWorking now (UpdateDynamic now d ips v))"
    for now ips v by (simp_all add: undirty_vh_def vh_cache hostCache_kept)
  then show ?case using c
    by (cases r) (simp_all add: pkg_resolveAllViaDNS_def resolveAllViaDNS_def undirty_vh_upd(2) pkg_ResolveAll_undirty Cons.IH e Let_def split: option.split)
qed simp

lemma collect_probes_undirty:
  "collect_probes net dial ps (w, undirty_vh vh) = (case collect_probes net dial ps (w, vh) of (w', vh') \<Rightarrow> (w', undirty_vh vh'))"
proof (induction ps arbitrary: w vh)
  case (Cons p ps)
  obtain d ip where p: "p = (d, ip)" by fastforce
  have "probeIP net dial d ip (w, undirty_vh vh) = (case probeIP net dial d ip (w, vh) of (w', vh') \<Rightarrow> (w', undirty_vh vh'))"
    by (auto simp: probeIP_def undirty_vh_def vh_cache RecordSuccess_def RecordFailure_def update_metric_def Let_def split: prod.split)
  then show ?case using Cons.IH by (auto simp: p split: option.split prod.split)
qed simp

lemma pkg_collectMetrics_undirty:
  "pkg_collectMetrics net bg dial order order2 (w, undirty_vh vh) = (case collectMetrics net bg dial order order2 (w, vh) of (w', vh') \<Rightarrow> (w', undirty_vh vh'))"
proof -
  have "allIPs (undirty_vh vh) d = allIPs vh d" for d by (rule selectBestIP_cong) (simp_all add: undirty_vh_def)
  then show ?thesis by (simp add: pkg_collectMetrics_def collectMetrics_def pkg_collect_dns_undirty collect_probes_undirty Let_def split: prod.split)
qed

section \<open>Runs\<close>

datatype host_call = Call_resolve string | Call_all string | Call_vk string | Call_collect "string list" "string list" | Call_clear | Call_servers "string list"
datatype host_answer = Got_address "(resolve_error, string) result" | Got_addresses "(resolve_error, string list) result" | Got_best "(vk_error, string) result" | Got_nothing

definition on_cache :: "('r \<Rightarrow> host_answer) \<Rightarrow> ('w \<times> dns_state \<Rightarrow> 'r \<times> 'w \<times> dns_state) \<Rightarrow> 'w \<times> vk_hosts \<Rightarrow> host_answer \<times> 'w \<times> vk_hosts" where
  "on_cache f op ws = (case op (fst ws, hostCache (snd ws)) of (r, w', h) \<Rightarrow> (f r, w', (snd ws)\<lparr>hostCache := h\<rparr>))"

definition plain_call :: "(dns_state \<Rightarrow> dns_state) \<Rightarrow> 'w \<times> dns_state \<Rightarrow> unit \<times> 'w \<times> dns_state" where
  "plain_call op ws = ((), fst ws, op (snd ws))"

definition core_call :: "'w dns_net \<Rightarrow> 'w dns_net \<Rightarrow> 'w prober \<Rightarrow> host_call \<Rightarrow> 'w \<times> vk_hosts \<Rightarrow> host_answer \<times> 'w \<times> vk_hosts" where
  "core_call net bg dial c ws = (case c of
     Call_resolve d \<Rightarrow> on_cache Got_address (cache_Resolve net d) ws
   | Call_all d \<Rightarrow> on_cache Got_addresses (cache_ResolveAll net d) ws
   | Call_vk d \<Rightarrow> (case vk_Resolve net d ws of (r, ws') \<Rightarrow> (Got_best r, ws'))
   | Call_collect o1 o2 \<Rightarrow> (Got_nothing, collectMetrics net bg dial o1 o2 ws)
   | Call_clear \<Rightarrow> on_cache (\<lambda>_. Got_nothing) (plain_call ClearCache) ws
   | Call_servers ips \<Rightarrow> on_cache (\<lambda>_. Got_nothing) (plain_call (InitSystemDns ips)) ws)"

definition pkg_call :: "'w dns_net \<Rightarrow> 'w dns_net \<Rightarrow> 'w prober \<Rightarrow> host_call \<Rightarrow> 'w \<times> vk_hosts \<Rightarrow> host_answer \<times> 'w \<times> vk_hosts" where
  "pkg_call net bg dial c ws = (case c of
     Call_resolve d \<Rightarrow> on_cache Got_address (pkg_Resolve net d) ws
   | Call_all d \<Rightarrow> on_cache Got_addresses (pkg_ResolveAll net d) ws
   | Call_vk d \<Rightarrow> (case pkg_vk_Resolve net d ws of (r, ws') \<Rightarrow> (Got_best r, ws'))
   | Call_collect o1 o2 \<Rightarrow> (Got_nothing, pkg_collectMetrics net bg dial o1 o2 ws)
   | Call_clear \<Rightarrow> on_cache (\<lambda>_. Got_nothing) (plain_call ClearCache) ws
   | Call_servers ips \<Rightarrow> on_cache (\<lambda>_. Got_nothing) (plain_call (InitSystemDns ips)) ws)"

fun host_calls :: "(host_call \<Rightarrow> 'w \<times> vk_hosts \<Rightarrow> host_answer \<times> 'w \<times> vk_hosts) \<Rightarrow> host_call list \<Rightarrow> 'w \<times> vk_hosts \<Rightarrow> host_answer list \<times> 'w \<times> vk_hosts" where
  "host_calls call [] ws = ([], ws)"
| "host_calls call (c # cs) ws = (case call c ws of (a, ws') \<Rightarrow> case host_calls call cs ws' of (as, ws'') \<Rightarrow> (a # as, ws''))"

lemma pkg_call_undirty:
  "pkg_call net bg dial c (w, undirty_vh vh) = (case core_call net bg dial c (w, vh) of (a, w', vh') \<Rightarrow> (a, w', undirty_vh vh'))"
proof -
  have s: "(undirty_vh vh)\<lparr>hostCache := undirty h\<rparr> = undirty_vh (vh\<lparr>hostCache := h\<rparr>)" for h by (simp add: undirty_vh_def)
  have u: "ClearCache (undirty t) = undirty (ClearCache t)" "InitSystemDns ips (undirty t) = undirty (InitSystemDns ips t)" for ips t
    by (simp_all add: ClearCache_def InitSystemDns_def undirty_def)
  show ?thesis
    by (cases c) (simp_all add: pkg_call_def core_call_def on_cache_def plain_call_def undirty_vh_upd(2) pkg_Resolve_undirty pkg_ResolveAll_undirty
      pkg_vk_Resolve_undirty pkg_collectMetrics_undirty s u split: prod.split)
qed

lemma host_calls_undirty:
  "host_calls (pkg_call net bg dial) cs (w, undirty_vh vh) = (case host_calls (core_call net bg dial) cs (w, vh) of (as, w', vh') \<Rightarrow> (as, w', undirty_vh vh'))"
proof (induction cs arbitrary: w vh)
  case (Cons c cs)
  then show ?case by (simp add: pkg_call_undirty split: prod.split)
qed simp

text \<open>
  C24.  The copy in internal/dns does what the core does: the same calls, in any order and against the same network, give the same answers, use the network in the
  same way and leave the same addresses, metrics and servers; only that the copy never tells the persistent cache that there is something to save.
\<close>

theorem dns_package_same:
  "host_calls (pkg_call net bg dial) cs (w, init_vk) = (as, w', vh') \<longleftrightarrow>
     (\<exists>vh. host_calls (core_call net bg dial) cs (w, init_vk) = (as, w', vh) \<and> vh' = vh\<lparr>hostCache := (hostCache vh)\<lparr>persist_dirty := False\<rparr>\<rparr>)"
proof -
  have "undirty_vh init_vk = init_vk" by (simp add: undirty_vh_def undirty_def init_vk_def init_dns_def)
  then have "host_calls (pkg_call net bg dial) cs (w, init_vk) = (case host_calls (core_call net bg dial) cs (w, init_vk) of (as, w', vh') \<Rightarrow> (as, w', undirty_vh vh'))"
    using host_calls_undirty [of net bg dial cs w init_vk] by simp
  then show ?thesis by (auto simp: undirty_vh_def undirty_def split: prod.splits)
qed

section \<open>Root certificates\<close>

text \<open>
  loadCABundle of both packages.  Parameters: the variable, reading a file, AppendCertsFromPEM on a new pool (none when nothing was added), the system's
  pool, and the number of its certificates.
\<close>

record 'p ca_env =
  ca_file :: string
  ca_read :: "string \<Rightarrow> string option"
  ca_parse :: "string \<Rightarrow> 'p option"
  ca_empty :: 'p
  ca_system :: "'p option"
  ca_subjects :: "'p \<Rightarrow> nat"
  ca_os :: string

definition env_pool :: "'p ca_env \<Rightarrow> 'p option" where
  "env_pool env = (if ca_file env \<noteq> [] then Option.bind (ca_read env (ca_file env)) (ca_parse env) else None)"

definition embedded_pool :: "'p ca_env \<Rightarrow> string \<Rightarrow> 'p" where
  "embedded_pool env pem = (case ca_parse env pem of None \<Rightarrow> ca_empty env | Some pool \<Rightarrow> pool)"

definition loadCABundle :: "'p ca_env \<Rightarrow> string \<Rightarrow> 'p" where
  "loadCABundle env pem =
     (case env_pool env of
        Some pool \<Rightarrow> pool
      | None \<Rightarrow>
          (case (if ca_os env \<noteq> ''android'' then ca_system env else None) of
             Some sys \<Rightarrow> sys
           | None \<Rightarrow> embedded_pool env pem))"

definition pkg_loadCABundle :: "'p ca_env \<Rightarrow> string \<Rightarrow> 'p" where
  "pkg_loadCABundle env pem =
     (case env_pool env of
        Some pool \<Rightarrow> pool
      | None \<Rightarrow>
          (case ca_system env of
             Some sys \<Rightarrow> if ca_subjects env sys > 0 then sys else embedded_pool env pem
           | None \<Rightarrow> embedded_pool env pem))"

text \<open>
  Where the two differ: without the variable, on a desktop system whose pool is there and empty, the core trusts no certificate at all, and never comes to the
  bundle that is embedded for this case; the copy does.  On Android the core takes the bundle even when the system has certificates.
\<close>

lemma ca_bundle_packages:
  assumes "env_pool env = None"
  shows "ca_os env \<noteq> ''android'' \<Longrightarrow> ca_system env = Some sys \<Longrightarrow> ca_subjects env sys = 0 \<Longrightarrow>
      loadCABundle env pem = sys \<and> pkg_loadCABundle env pem = embedded_pool env pem"
    and "ca_os env \<noteq> ''android'' \<Longrightarrow> \<forall>sys. ca_system env = Some sys \<longrightarrow> 0 < ca_subjects env sys \<Longrightarrow> loadCABundle env pem = pkg_loadCABundle env pem"
    and "ca_os env = ''android'' \<Longrightarrow> loadCABundle env pem = embedded_pool env pem"
  using assms by (auto simp: loadCABundle_def pkg_loadCABundle_def split: option.split)

end
