(* ===== verification/Web_Page.thy ===== *)
theory Web_Page
  imports Web_Ui
begin

text \<open>
  The web interface as a whole (internal/core/webui.go): the server with its routes, and the script of the page, which is the client of the
  handlers of Web_Ui.

  Parameters: listening, the parse of a body, and the texts of the browser's exceptions.  Strings are UTF-8.  The page's HTML stands for its
  first state; its style is not modelled, nor are the times in the log.
\<close>

section \<open>The server\<close>

text \<open>Start: the port of the error, or the port that is served then, which GetPort tells.\<close>

record web_server =
  srv_port :: int
  srv_up :: bool

definition NewWebServer :: "int \<Rightarrow> web_server" where
  "NewWebServer port = \<lparr>srv_port = port, srv_up = False\<rparr>"

definition web_Start :: "(string \<Rightarrow> 'w \<Rightarrow> int option \<times> 'w) \<Rightarrow> web_server \<Rightarrow> 'w \<Rightarrow> (int, web_server) result \<times> 'w" where
  "web_Start listen srv w =
     (case listen (''127.0.0.1:'' @ int_dec (srv_port srv)) w of
        (None, w') \<Rightarrow> (Inl (srv_port srv), w')
      | (Some port, w') \<Rightarrow> (Inr \<lparr>srv_port = port, srv_up = True\<rparr>, w'))"

definition GetPort :: "web_server \<Rightarrow> int" where "GetPort srv = srv_port srv"

definition GetStatus :: "web_ui \<Rightarrow> string" where "GetStatus s = wu_status s"

text \<open>What a request makes the process do, besides the change of the state.\<close>

datatype web_reply = Html string string | Api web_answer
datatype web_effect = No_effect | Starts start_params | Stops

definition handleIndex :: "string \<Rightarrow> web_reply" where
  "handleIndex page = Html ''text/html; charset=utf-8'' page"

text \<open>The routes, for a path in clean form; the mux redirects another path to its clean form.\<close>

definition serve_mux :: "(string \<Rightarrow> json option) \<Rightarrow> (update_error \<Rightarrow> string) \<Rightarrow> 'w upd_env \<Rightarrow> string \<Rightarrow> int \<Rightarrow> string \<Rightarrow> string \<Rightarrow> string \<Rightarrow>
    web_ui \<times> files \<times> 'w \<Rightarrow> web_reply \<times> web_effect \<times> web_ui \<times> files \<times> 'w" where
  "serve_mux parse msg env page now verb path body st =
     (case st of (s, fw) \<Rightarrow>
        if path = ''/api/status'' then (Api (handleStatus now s), No_effect, s, fw)
        else if path = ''/api/start'' then
          (case handleStart parse now verb body s of (a, s', p) \<Rightarrow> (Api a, (case p of None \<Rightarrow> No_effect | Some p \<Rightarrow> Starts p), s', fw))
        else if path = ''/api/stop'' then (case handleStop now s of (a, s') \<Rightarrow> (Api a, Stops, s', fw))
        else if path = ''/api/config'' then (Api (handleConfig verb), No_effect, s, fw)
        else if path = ''/api/check-update'' then (case handleCheckUpdate msg env fw of (a, fw') \<Rightarrow> (Api a, No_effect, s, fw'))
        else (handleIndex page, No_effect, s, fw))"

section \<open>The page\<close>

text \<open>The elements that the script reads and writes, the timers that run, with the number of those made so far, and the script's variable.\<close>

record page_inputs =
  in_vk_link :: string
  in_peer :: string
  in_listen :: string
  in_wrap_key :: string
  in_streams :: int
  in_udp :: bool
  in_mode :: string
  in_peer_type :: string

record page =
  pg_log :: "string list"
  pg_start_off :: bool
  pg_stop_off :: bool
  pg_class :: string
  pg_badge :: string
  pg_uptime :: string
  pg_wrap :: string
  pg_version :: string
  pg_timers :: "nat list"
  pg_made :: nat
  statusInterval :: "nat option"

definition em_dash :: string where "em_dash = [CHR 0xE2, CHR 0x80, CHR 0x94]"

definition page_html :: page where
  "page_html = \<lparr>pg_log = [], pg_start_off = False, pg_stop_off = True, pg_class = ''status-badge status-stopped'', pg_badge = ''Stopped'',
     pg_uptime = em_dash, pg_wrap = ''Disabled'', pg_version = ''v0.3.1'', pg_timers = [], pg_made = 0, statusInterval = None\<rparr>"

definition page_log :: "string \<Rightarrow> page \<Rightarrow> page" where
  "page_log msg pg = pg\<lparr>pg_log := pg_log pg @ [msg]\<rparr>"

text \<open>
  What a request of the page ends with: an exception of fetch, or an answer with the value of its JSON text or the exception of \<open>res.json()\<close>.
\<close>

datatype fetched = Unreachable string | Arrived nat json | Not_json nat string

definition res_ok :: "nat \<Rightarrow> bool" where "res_ok code \<longleftrightarrow> 200 \<le> code \<and> code < 300"

text \<open>Values as text and as conditions, for those that the handlers send.\<close>

definition js_text_of :: "json \<Rightarrow> string" where
  "js_text_of j = (case j of JString s \<Rightarrow> s | JBool b \<Rightarrow> if b then ''true'' else ''false'' | JInt i \<Rightarrow> int_dec i | JNull \<Rightarrow> ''null'' | _ \<Rightarrow> ''[object Object]'')"

definition js_field :: "json \<Rightarrow> string \<Rightarrow> json option" where
  "js_field j k = (case j of JObj m \<Rightarrow> map_of m k | _ \<Rightarrow> None)"

definition js_show :: "json option \<Rightarrow> string" where
  "js_show v = (case v of None \<Rightarrow> ''undefined'' | Some j \<Rightarrow> js_text_of j)"

definition js_truthy :: "json option \<Rightarrow> bool" where
  "js_truthy v = (case v of None \<Rightarrow> False | Some j \<Rightarrow> (case j of JNull \<Rightarrow> False | JBool b \<Rightarrow> b | JInt i \<Rightarrow> i \<noteq> 0 | JNumber q \<Rightarrow> q \<noteq> 0 | JString s \<Rightarrow> s \<noteq> [] | _ \<Rightarrow> True))"

definition js_or :: "json option \<Rightarrow> string \<Rightarrow> string" where
  "js_or v d = (if js_truthy v then js_show v else d)"

definition page_json :: "page_inputs \<Rightarrow> json" where
  "page_json i = JObj [(''vk_link'', JString (in_vk_link i)), (''peer'', JString (in_peer i)), (''listen'', JString (in_listen i)),
     (''wrap_key'', JString (in_wrap_key i)), (''streams'', JInt (in_streams i)), (''udp'', JBool (in_udp i)),
     (''mode'', JString (in_mode i)), (''peer_type'', JString (in_peer_type i))]"

text \<open>The form: the texts, and what the lists offer.\<close>

definition form_ok :: "page_inputs \<Rightarrow> bool" where
  "form_ok i \<longleftrightarrow> in_streams i \<in> {1, 2, 3, 4} \<and> in_mode i \<in> {''vk_link'', ''wb''} \<and> in_peer_type i \<in> {''proxy_v1'', ''wireguard''}"

definition startProxy :: "page_inputs \<Rightarrow> page \<Rightarrow> page \<times> json option" where
  "startProxy i pg =
     (if in_vk_link i = [] \<or> in_peer i = [] then (page_log ''Error: VK Link and Peer are required'' pg, None)
      else ((page_log ''Starting proxy...'' pg)\<lparr>pg_start_off := True\<rparr>, Some (page_json i)))"

text \<open>After \<open>startStatusPolling\<close> the status is asked for at once.\<close>

definition startStatusPolling :: "page \<Rightarrow> page" where
  "startStatusPolling pg = pg\<lparr>pg_timers := pg_timers pg @ [pg_made pg], statusInterval := Some (pg_made pg), pg_made := Suc (pg_made pg)\<rparr>"

definition stopStatusPolling :: "page \<Rightarrow> page" where
  "stopStatusPolling pg = (case statusInterval pg of None \<Rightarrow> pg | Some t \<Rightarrow> pg\<lparr>pg_timers := removeAll t (pg_timers pg)\<rparr>)"

definition start_answered :: "fetched \<Rightarrow> page \<Rightarrow> page" where
  "start_answered f pg =
     (case f of
        Unreachable e \<Rightarrow> (page_log (''Error: '' @ e) pg)\<lparr>pg_start_off := False\<rparr>
      | Not_json code e \<Rightarrow> (page_log (''Error: '' @ e) pg)\<lparr>pg_start_off := False\<rparr>
      | Arrived code j \<Rightarrow>
          if res_ok code then startStatusPolling (page_log (''Proxy starting on '' @ js_show (js_field j ''listen'')) pg)
          else (page_log (''Error: '' @ js_show (js_field j ''error'')) pg)\<lparr>pg_start_off := False\<rparr>)"

definition capitalized :: "string \<Rightarrow> string" where
  "capitalized s = (case s of [] \<Rightarrow> [] | c # s \<Rightarrow> to_upper_char c # s)"

definition updateUI :: "string \<Rightarrow> json option \<Rightarrow> page \<Rightarrow> page" where
  "updateUI status data pg =
     (let pg = pg\<lparr>pg_class := ''status-badge status-'' @ status, pg_badge := capitalized status\<rparr>;
          pg = (case data of
            None \<Rightarrow> pg
          | Some d \<Rightarrow> pg\<lparr>pg_uptime := js_or (js_field d ''uptime'') em_dash,
              pg_wrap := (if js_truthy (js_field d ''wrap'') then ''Enabled'' else ''Disabled''),
              pg_version := js_or (js_field d ''version'') ''v0.3.1''\<rparr>);
          isRunning = (status = ''running'' \<or> status = ''starting'')
      in pg\<lparr>pg_start_off := isRunning, pg_stop_off := \<not> isRunning\<rparr>)"

text \<open>An answer without a status makes the script throw, which is caught, before it writes the badge's text.\<close>

definition updateStatus :: "fetched \<Rightarrow> page \<Rightarrow> page" where
  "updateStatus f pg =
     (case f of
        Arrived code j \<Rightarrow>
          (case js_field j ''status'' of
             Some (JString status) \<Rightarrow> updateUI status (Some j) pg
           | v \<Rightarrow> pg\<lparr>pg_class := ''status-badge status-'' @ js_show v\<rparr>)
      | _ \<Rightarrow> pg)"

definition stopProxy_click :: "page \<Rightarrow> page" where
  "stopProxy_click pg = page_log ''Stopping proxy...'' pg"

definition stop_answered :: "fetched \<Rightarrow> page \<Rightarrow> page" where
  "stop_answered f pg =
     updateUI ''stopped'' None (stopStatusPolling
       (case f of Unreachable e \<Rightarrow> page_log (''Stop error: '' @ e) pg | _ \<Rightarrow> page_log ''Proxy stopped'' pg))"

definition checkUpdate_click :: "page \<Rightarrow> page" where
  "checkUpdate_click pg = page_log ''Checking for updates...'' pg"

definition check_answered :: "fetched \<Rightarrow> page \<Rightarrow> page" where
  "check_answered f pg =
     (case f of
        Unreachable e \<Rightarrow> page_log (''Update check error: '' @ e) pg
      | Not_json code e \<Rightarrow> page_log (''Update check error: '' @ e) pg
      | Arrived code j \<Rightarrow>
          if js_field j ''status'' = Some (JString ''up-to-date'') then page_log (''Up to date (v'' @ js_show (js_field j ''version'') @ '')'') pg
          else if js_field j ''status'' = Some (JString ''update-available'') then
            page_log (''Download: '' @ js_show (js_field j ''downloadUrl''))
              (page_log (''Update available: '' @ js_show (js_field j ''version'') @ '' (current: '' @ js_show (js_field j ''current'') @ '')'') pg)
          else page_log (''Update check failed: '' @ js_show (js_field j ''message'')) pg)"

text \<open>What the script does at the end of its text; it also asks for the status.\<close>

definition page_open :: page where
  "page_open = page_log ''TurnGuard Web UI ready. Configure and press Start.'' page_html"

section \<open>The page and the handlers\<close>

text \<open>An answer of the handlers as the page gets it; \<open>exn\<close> is what \<open>res.json()\<close> throws for a text that is not JSON, as those of http.Error are.\<close>

definition to_page :: "(string \<Rightarrow> string) \<Rightarrow> web_answer \<Rightarrow> fetched" where
  "to_page exn a = (case a of Answer code b \<Rightarrow>
     (case b of Json m \<Rightarrow> Arrived code (JObj m) | Json_config c \<Rightarrow> Arrived code (config_json c) | Plain text \<Rightarrow> Not_json code (exn text)))"

definition form_params :: "page_inputs \<Rightarrow> start_params" where
  "form_params i = \<lparr>sp_VkLink = in_vk_link i, sp_Peer = in_peer i, sp_Listen = in_listen i, sp_WrapKey = in_wrap_key i, sp_Streams = in_streams i,
     sp_UDP = in_udp i, sp_Mode = in_mode i, sp_PeerType = in_peer_type i\<rparr>"

lemma form_decoded:
  assumes "form_ok i"
  shows "dec_obj params_field (page_json i) no_params = Some (form_params i)"
proof -
  have "- (2 ^ 63) \<le> in_streams i" "in_streams i < 2 ^ 63" using assms by (auto simp: form_ok_def)
  then show ?thesis
    by (simp add: dec_obj_def page_json_def dec_fields_simps params_field_def to_lower_def to_lower_char_def dec_same no_params_def form_params_def)
qed

lemma form_handled:
  assumes "form_ok i" and "parse body = Some (page_json i)"
  shows "handleStart parse now ''POST'' body s = accept_start now (form_params i) s"
  using assms form_decoded by (simp add: handleStart_def)

text \<open>The key that the form shows as an example.\<close>

definition wrap_placeholder :: string where
  "wrap_placeholder = ''e979270b5240918e9f3764b0daf9bd825f6d95185481926407435665b37e53ca''"

lemma placeholder_set: "wrap_placeholder \<noteq> []"
  by (simp add: wrap_placeholder_def)

lemma placeholder_refused: "SetWrapKey wrap_placeholder key = (Some LeakedKey, key)"
  by (simp add: SetWrapKey_def wrap_placeholder_def knownLeakedWrapKeys_def)

text \<open>
  C35.  Pressing Start with a link and a server: what the form holds is what the handler starts, with its defaults.  When it accepts, the page
  logs the address, polls the status and leaves the button off; when it refuses, which only the key can make it do, the page logs the exception of parsing the
  answer, never the reason, and one can try again.  The key that the form shows as an example is always refused.
\<close>

theorem page_start_request:
  assumes "form_ok i" and "in_vk_link i \<noteq> []" and "in_peer i \<noteq> []" and "parse body = Some (page_json i)"
    and "startProxy i pg = (pg1, req)" and "serve_mux parse msg env html now ''POST'' ''/api/start'' body (s, fw) = (Api a, eff, s', fw')"
  shows "req = Some (page_json i) \<and> fw' = fw \<and>
    (case eff of
       Starts p \<Rightarrow> p = start_defaults (form_params i) \<and> wu_status s' = ''starting'' \<and>
         (let pg2 = start_answered (to_page exn a) pg1 in pg_log pg2 = pg_log pg1 @ [''Proxy starting on '' @ sp_Listen p] \<and> pg_start_off pg2 \<and>
            statusInterval pg2 = Some (pg_made pg) \<and> pg_timers pg2 = pg_timers pg @ [pg_made pg])
     | No_effect \<Rightarrow> s' = s \<and> fst (SetWrapKey (in_wrap_key i) (wu_key s)) \<noteq> None \<and>
         (let pg2 = start_answered (to_page exn a) pg1 in pg_log pg2 = pg_log pg1 @ [''Error: '' @ exn ''Invalid wrap key''] \<and> \<not> pg_start_off pg2 \<and>
            pg_timers pg2 = pg_timers pg)
     | Stops \<Rightarrow> False) \<and>
    (in_wrap_key i = wrap_placeholder \<longrightarrow> eff = No_effect)"
proof -
  have pg1: "pg1 = (page_log ''Starting proxy...'' pg)\<lparr>pg_start_off := True\<rparr>" "req = Some (page_json i)" using assms(2,3,5) by (auto simp: startProxy_def)
  have h: "handleStart parse now ''POST'' body s = accept_start now (form_params i) s" using form_handled [of i parse body] assms(1,4) by blast
  obtain eo key where k: "(if in_wrap_key i = [] then (None, wu_key s) else SetWrapKey (in_wrap_key i) (wu_key s)) = (eo, key)" by fastforce
  have w: "sp_WrapKey (start_defaults (form_params i)) = in_wrap_key i" "sp_VkLink (form_params i) \<noteq> []" "sp_Peer (form_params i) \<noteq> []"
    using assms(2,3) by (simp_all add: start_defaults_def form_params_def)
  have pl: "in_wrap_key i = wrap_placeholder \<Longrightarrow> eo = Some LeakedKey" using k placeholder_refused [of "wu_key s"] placeholder_set by (auto split: if_splits)
  show ?thesis
  proof (cases eo)
    case None
    then have "accept_start now (form_params i) s = (Answer 200 (Json [(''status'', JString ''starting''), (''listen'', JString (sp_Listen (start_defaults (form_params i)))),
        (''message'', JString ''Proxy starting...'')]), SetStatus ''starting'' now (s\<lparr>wu_key := key\<rparr>), Some (start_defaults (form_params i)))"
      using w k by (cases "in_wrap_key i = []") (simp_all add: accept_start_def Let_def)
    then have e: "a = Answer 200 (Json [(''status'', JString ''starting''), (''listen'', JString (sp_Listen (start_defaults (form_params i)))), (''message'', JString ''Proxy starting...'')])"
      "eff = Starts (start_defaults (form_params i))" "s' = SetStatus ''starting'' now (s\<lparr>wu_key := key\<rparr>)" "fw' = fw"
      using assms(6) h by (auto simp: serve_mux_def)
    show ?thesis using None pl
      by (auto simp: e pg1 to_page_def start_answered_def res_ok_def startStatusPolling_def page_log_def js_field_def js_show_def js_text_of_def SetStatus_def)
  next
    case (Some err)
    have u: "key = wu_key s" "fst (SetWrapKey (in_wrap_key i) (wu_key s)) \<noteq> None" using k Some by (auto simp: SetWrapKey_def split: if_splits option.splits)
    have "accept_start now (form_params i) s = (Answer 400 (Plain ''Invalid wrap key''), s, None)"
      using w k Some u by (cases "in_wrap_key i = []") (simp_all add: accept_start_def Let_def)
    then have e: "a = Answer 400 (Plain ''Invalid wrap key'')" "eff = No_effect" "s' = s" "fw' = fw" using assms(6) h by (auto simp: serve_mux_def)
    show ?thesis using u(2) by (auto simp: e pg1 to_page_def start_answered_def page_log_def)
  qed
qed

definition test_form :: page_inputs where
  "test_form = \<lparr>in_vk_link = ''l'', in_peer = ''1.2.3.4:5'', in_listen = [], in_wrap_key = wrap_placeholder, in_streams = 4, in_udp = False,
     in_mode = ''vk_link'', in_peer_type = ''proxy_v1''\<rparr>"

theorem page_start_request_witness:
  "\<exists>a s' fw'. serve_mux (\<lambda>_. Some (page_json test_form)) (\<lambda>_. []) (test_upd (\<lambda>_. True)) [] 0 ''POST'' ''/api/start'' [] (NewWebUI [], Map.empty, ()) = (Api a, No_effect, s', fw')"
proof -
  obtain a p s' where a: "handleStart (\<lambda>_. Some (page_json test_form)) 0 ''POST'' [] (NewWebUI []) = (a, s', p)" by (metis prod_cases3)
  then have r: "serve_mux (\<lambda>_. Some (page_json test_form)) (\<lambda>_. []) (test_upd (\<lambda>_. True)) [] 0 ''POST'' ''/api/start'' [] (NewWebUI [], Map.empty, ()) =
      (Api a, (case p of None \<Rightarrow> No_effect | Some p \<Rightarrow> Starts p), s', Map.empty, ())" by (simp add: serve_mux_def)
  have f: "form_ok test_form" "in_vk_link test_form \<noteq> []" "in_peer test_form \<noteq> []" "in_wrap_key test_form = wrap_placeholder" by (simp_all add: form_ok_def test_form_def)
  obtain pg1 req where q: "startProxy test_form page_open = (pg1, req)" by fastforce
  have "(case p of None \<Rightarrow> No_effect | Some p \<Rightarrow> Starts p) = No_effect"
    using page_start_request [OF f(1,2,3) _ q r] f(4) by simp
  then show ?thesis using r by auto
qed

section \<open>Polling\<close>

text \<open>What happens to the page, in any order; a button that is off cannot be pressed.\<close>

datatype page_event = Press_start page_inputs | Press_stop | Press_check | Start_ans fetched | Stop_ans fetched | Status_ans fetched | Check_ans fetched

fun page_after :: "page_event \<Rightarrow> page \<Rightarrow> page" where
  "page_after (Press_start i) pg = (if pg_start_off pg then pg else fst (startProxy i pg))"
| "page_after Press_stop pg = (if pg_stop_off pg then pg else stopProxy_click pg)"
| "page_after Press_check pg = checkUpdate_click pg"
| "page_after (Start_ans f) pg = start_answered f pg"
| "page_after (Stop_ans f) pg = stop_answered f pg"
| "page_after (Status_ans f) pg = updateStatus f pg"
| "page_after (Check_ans f) pg = check_answered f pg"

definition accepted_ans :: "fetched \<Rightarrow> bool" where
  "accepted_ans f \<longleftrightarrow> (case f of Arrived code j \<Rightarrow> res_ok code | _ \<Rightarrow> False)"

definition polling :: "page \<Rightarrow> nat list \<times> nat \<times> nat option" where
  "polling pg = (pg_timers pg, pg_made pg, statusInterval pg)"

lemma polling_logs [simp]: "polling (page_log m pg) = polling pg" "polling (pg\<lparr>pg_start_off := b\<rparr>) = polling pg" "polling (pg\<lparr>pg_class := c\<rparr>) = polling pg"
  by (simp_all add: polling_def page_log_def)

lemma polling_ui [simp]: "polling (updateUI st d pg) = polling pg"
  by (simp add: updateUI_def polling_def Let_def split: option.split)

text \<open>Only the answers to start and stop requests change the timers.\<close>

lemma polling_after:
  "polling (page_after e pg) = (case e of
     Start_ans f \<Rightarrow> if accepted_ans f then (pg_timers pg @ [pg_made pg], Suc (pg_made pg), Some (pg_made pg)) else polling pg
   | Stop_ans f \<Rightarrow> polling (stopStatusPolling pg)
   | _ \<Rightarrow> polling pg)"
proof (cases e)
  case (Start_ans f)
  then show ?thesis
    by (cases f) (auto simp: start_answered_def accepted_ans_def startStatusPolling_def polling_def page_log_def)
next
  case (Stop_ans f)
  have "polling (stopStatusPolling (page_log m pg)) = polling (stopStatusPolling pg)" for m
    by (simp add: stopStatusPolling_def polling_def page_log_def split: option.split)
  then show ?thesis using Stop_ans by (cases f) (simp_all add: stop_answered_def)
next
  case (Status_ans f)
  then show ?thesis by (cases f) (auto simp: updateStatus_def split: option.split json.split)
next
  case (Check_ans f)
  then show ?thesis by (cases f) (simp_all add: check_answered_def)
qed (simp_all add: startProxy_def stopProxy_click_def checkUpdate_click_def)

text \<open>A timer that the variable no longer names.\<close>

definition abandoned :: "nat \<Rightarrow> page \<Rightarrow> bool" where
  "abandoned t pg \<longleftrightarrow> t \<in> set (pg_timers pg) \<and> t < pg_made pg \<and> (\<exists>u. statusInterval pg = Some u \<and> t < u)"

lemma abandoned_after: "abandoned t pg \<Longrightarrow> abandoned t (page_after e pg)"
proof -
  assume a: "abandoned t pg"
  have c: "polling pg' = polling pg \<Longrightarrow> abandoned t pg'" for pg' using a by (simp add: abandoned_def polling_def)
  have n: "polling pg' = (pg_timers pg @ [pg_made pg], Suc (pg_made pg), Some (pg_made pg)) \<Longrightarrow> abandoned t pg'" for pg'
    using a by (auto simp: abandoned_def polling_def)
  have s: "polling pg' = polling (stopStatusPolling pg) \<Longrightarrow> abandoned t pg'" for pg'
    using a by (auto simp: abandoned_def polling_def stopStatusPolling_def)
  show ?thesis using polling_after [of e pg] by (cases e) (auto intro: c n s split: if_splits)
qed

lemma abandoned_run: "abandoned t pg \<Longrightarrow> abandoned t (fold page_after es pg)"
  by (induction es arbitrary: pg) (simp_all add: abandoned_after)

lemma current_after:
  assumes "t \<in> set (pg_timers pg) \<and> t < pg_made pg \<and> statusInterval pg = Some t" and "\<forall>f. e \<noteq> Stop_ans f"
  shows "let pg' = page_after e pg in t \<in> set (pg_timers pg') \<and> t < pg_made pg' \<and> statusInterval pg' = Some t \<or> abandoned t pg'"
  using assms polling_after [of e pg] by (cases e) (auto simp: polling_def abandoned_def Let_def split: if_splits)

lemma current_run:
  assumes "t \<in> set (pg_timers pg) \<and> t < pg_made pg \<and> statusInterval pg = Some t \<or> abandoned t pg" and "\<forall>f. Stop_ans f \<notin> set es"
  shows "let pg' = fold page_after es pg in t \<in> set (pg_timers pg') \<and> t < pg_made pg' \<and> statusInterval pg' = Some t \<or> abandoned t pg'"
  using assms
proof (induction es arbitrary: pg)
  case (Cons e es)
  have "\<forall>f. e \<noteq> Stop_ans f" "\<forall>f. Stop_ans f \<notin> set es" using Cons.prems(2) by auto
  then show ?case using Cons.IH [of "page_after e pg"] Cons.prems(1) current_after [of t pg e] abandoned_after [of t pg e] by (auto simp: Let_def)
qed (simp add: Let_def)

text \<open>
  C36.  Two accepted start requests with no answered stop between them leave a timer that asks for the status on and on: no event stops it any more, a stop
  neither.
\<close>

theorem page_polls_on:
  assumes "accepted_ans f" and "accepted_ans f'" and "\<forall>g. Stop_ans g \<notin> set es"
  shows "pg_made pg \<in> set (pg_timers (fold page_after (Start_ans f # es @ Start_ans f' # es') pg))"
proof -
  let ?t = "pg_made pg" and ?p = "page_after (Start_ans f) pg"
  have "?t \<in> set (pg_timers ?p) \<and> ?t < pg_made ?p \<and> statusInterval ?p = Some ?t"
    using polling_after [of "Start_ans f" pg] assms(1) by (simp add: polling_def)
  then have "let q = fold page_after es ?p in ?t \<in> set (pg_timers q) \<and> ?t < pg_made q \<and> statusInterval q = Some ?t \<or> abandoned ?t q"
    using current_run [of ?t ?p es] assms(3) by blast
  then have "abandoned ?t (page_after (Start_ans f') (fold page_after es ?p))"
    using polling_after [of "Start_ans f'" "fold page_after es ?p"] assms(2) by (auto simp: polling_def abandoned_def Let_def)
  then have "abandoned ?t (fold page_after (Start_ans f # es @ Start_ans f' # es') pg)" using abandoned_run by simp
  then show ?thesis by (simp add: abandoned_def)
qed

text \<open>A start that fails, a second one, and a stop, with the answers of the handlers.\<close>

definition good_form :: page_inputs where "good_form = test_form\<lparr>in_wrap_key := []\<rparr>"

definition started_ans :: fetched where
  "started_ans = to_page (\<lambda>_. []) (fst (accept_start 0 (form_params good_form) (NewWebUI [])))"

definition failed_run :: "page_event list" where
  "failed_run = [Status_ans (to_page (\<lambda>_. []) (handleStatus 0 (after_start False 0 (NewWebUI [])))), Press_start good_form]"

theorem page_polls_on_witness:
  "\<not> pg_start_off (fold page_after [Press_start good_form, Start_ans started_ans, hd failed_run] page_open) \<and>
   0 \<in> set (pg_timers (fold page_after (Start_ans started_ans # failed_run @ Start_ans started_ans # [Stop_ans (to_page (\<lambda>_. []) (fst (handleStop 0 (NewWebUI []))))])
     (page_after (Press_start good_form) page_open)))"
proof
  have "accepted_ans started_ans"
    by (simp add: accepted_ans_def started_ans_def to_page_def accept_start_def form_params_def good_form_def test_form_def start_defaults_def res_ok_def Let_def)
  moreover have "\<forall>g. Stop_ans g \<notin> set failed_run" by (simp add: failed_run_def)
  moreover have z: "pg_made (page_after (Press_start good_form) page_open) = 0"
    by (simp add: page_open_def page_html_def page_log_def startProxy_def)
  ultimately show "0 \<in> set (pg_timers (fold page_after (Start_ans started_ans # failed_run @ Start_ans started_ans # [Stop_ans (to_page (\<lambda>_. []) (fst (handleStop 0 (NewWebUI []))))])
     (page_after (Press_start good_form) page_open)))"
    by (metis page_polls_on)
  show "\<not> pg_start_off (fold page_after [Press_start good_form, Start_ans started_ans, hd failed_run] page_open)"
    by (simp add: failed_run_def updateStatus_def to_page_def handleStatus_def after_start_def SetStatus_def NewWebUI_def js_field_def updateUI_def Let_def)
qed

end
