(* ===== verification/Unused_Code.thy ===== *)
theory Unused_Code
  imports Captcha_Solve
begin

text \<open>
  Code of the captcha solver that nothing calls, beside what took its place: the table of browser profiles (profiles.go), the made-up
  telemetry, the headers for the other HTTP client and their order (vk_captcha_api.go), the cursor of a hand, the first parser of the captcha page
  (slider_captcha.go).

  Parameters: rand.Intn, printing a float64 and reading JSON text, as in Captcha_Session.
\<close>

section \<open>Profiles\<close>

text \<open>The texts with a backquote, which they do not use, in place of the double quote.\<close>

definition quotes :: "string \<Rightarrow> string" where
  "quotes s = map (\<lambda>c. if c = CHR ''`'' then dq else c) s"

definition profile :: "Profile list" where
  "profile =
   [\<lparr>UserAgent = ''Mozilla/5.0 (Windows NT 10.0; Win64; x64) AppleWebKit/537.36 (KHTML, like Gecko) Chrome/146.0.0.0 Safari/537.36'',
      SecChUa = quotes ''`Chromium`;v=`146`, `Not-A.Brand`;v=`24`, `Google Chrome`;v=`146`'', SecChUaMobile = ''?0'', SecChUaPlatform = quotes ''`Windows`''\<rparr>,
   \<lparr>UserAgent = ''Mozilla/5.0 (Windows NT 10.0; Win64; x64) AppleWebKit/537.36 (KHTML, like Gecko) Chrome/145.0.0.0 Safari/537.36'',
      SecChUa = quotes ''`Chromium`;v=`145`, `Not-A.Brand`;v=`99`, `Google Chrome`;v=`145`'', SecChUaMobile = ''?0'', SecChUaPlatform = quotes ''`Windows`''\<rparr>,
   \<lparr>UserAgent = ''Mozilla/5.0 (Windows NT 10.0; Win64; x64) AppleWebKit/537.36 (KHTML, like Gecko) Chrome/144.0.0.0 Safari/537.36'',
      SecChUa = quotes ''`Chromium`;v=`144`, `Not-A.Brand`;v=`8`, `Google Chrome`;v=`144`'', SecChUaMobile = ''?0'', SecChUaPlatform = quotes ''`Windows`''\<rparr>,
   \<lparr>UserAgent = ''Mozilla/5.0 (Windows NT 10.0; Win64; x64) AppleWebKit/537.36 (KHTML, like Gecko) Chrome/146.0.0.0 Safari/537.36 Edg/146.0.0.0'',
      SecChUa = quotes ''`Chromium`;v=`146`, `Not-A.Brand`;v=`24`, `Microsoft Edge`;v=`146`'', SecChUaMobile = ''?0'', SecChUaPlatform = quotes ''`Windows`''\<rparr>,
   \<lparr>UserAgent = ''Mozilla/5.0 (Windows NT 10.0; Win64; x64) AppleWebKit/537.36 (KHTML, like Gecko) Chrome/145.0.0.0 Safari/537.36 Edg/145.0.0.0'',
      SecChUa = quotes ''`Chromium`;v=`145`, `Not-A.Brand`;v=`99`, `Microsoft Edge`;v=`145`'', SecChUaMobile = ''?0'', SecChUaPlatform = quotes ''`Windows`''\<rparr>,
   \<lparr>UserAgent = ''Mozilla/5.0 (Macintosh; Intel Mac OS X 10_15_7) AppleWebKit/537.36 (KHTML, like Gecko) Chrome/146.0.0.0 Safari/537.36'',
      SecChUa = quotes ''`Chromium`;v=`146`, `Not-A.Brand`;v=`24`, `Google Chrome`;v=`146`'', SecChUaMobile = ''?0'', SecChUaPlatform = quotes ''`macOS`''\<rparr>,
   \<lparr>UserAgent = ''Mozilla/5.0 (Macintosh; Intel Mac OS X 10_15_7) AppleWebKit/537.36 (KHTML, like Gecko) Chrome/145.0.0.0 Safari/537.36'',
      SecChUa = quotes ''`Chromium`;v=`145`, `Not-A.Brand`;v=`99`, `Google Chrome`;v=`145`'', SecChUaMobile = ''?0'', SecChUaPlatform = quotes ''`macOS`''\<rparr>,
   \<lparr>UserAgent = ''Mozilla/5.0 (X11; Linux x86_64) AppleWebKit/537.36 (KHTML, like Gecko) Chrome/146.0.0.0 Safari/537.36'',
      SecChUa = quotes ''`Chromium`;v=`146`, `Not-A.Brand`;v=`24`, `Google Chrome`;v=`146`'', SecChUaMobile = ''?0'', SecChUaPlatform = quotes ''`Linux`''\<rparr>,
   \<lparr>UserAgent = ''Mozilla/5.0 (X11; Ubuntu; Linux x86_64) AppleWebKit/537.36 (KHTML, like Gecko) Chrome/144.0.0.0 Safari/537.36'',
      SecChUa = quotes ''`Chromium`;v=`144`, `Not-A.Brand`;v=`8`, `Google Chrome`;v=`144`'', SecChUaMobile = ''?0'', SecChUaPlatform = quotes ''`Linux`''\<rparr>]"

text \<open>\<open>None\<close> is the panic of an index out of range.\<close>

definition getRandomProfile :: "(nat \<Rightarrow> 'w \<Rightarrow> nat \<times> 'w) \<Rightarrow> 'w \<Rightarrow> Profile option \<times> 'w" where
  "getRandomProfile intn w = (case intn (length profile) w of (i, w') \<Rightarrow> (if i < length profile then Some (profile ! i) else None, w'))"

text \<open>The headers of the request and the order for the HTTP client.\<close>

definition captcha_header_order :: "string list" where
  "captcha_header_order = [''Accept'', ''Accept-Language'', ''Content-Type'', ''Origin'', ''Priority'', ''Referer'', ''sec-ch-ua'', ''sec-ch-ua-mobile'',
     ''sec-ch-ua-platform'', ''Sec-Fetch-Dest'', ''Sec-Fetch-Mode'', ''Sec-Fetch-Site'', ''User-Agent'']"

definition applyCaptchaHeaders :: "Profile \<Rightarrow> headers \<Rightarrow> headers \<times> string list" where
  "applyCaptchaHeaders p hs =
     (header_set ''User-Agent'' (UserAgent p) (header_set ''Sec-Fetch-Site'' ''same-site'' (header_set ''Sec-Fetch-Mode'' ''cors''
       (header_set ''Sec-Fetch-Dest'' ''empty'' (header_set ''sec-ch-ua-platform'' (SecChUaPlatform p) (header_set ''sec-ch-ua-mobile'' (SecChUaMobile p)
       (header_set ''sec-ch-ua'' (SecChUa p) (header_set ''Referer'' ''https://id.vk.ru/'' (header_set ''Priority'' ''u=1, i''
       (header_set ''Origin'' ''https://id.vk.ru'' (header_set ''Content-Type'' ''application/x-www-form-urlencoded''
       (header_set ''Accept-Language'' ''en-US,en;q=0.9'' (header_set ''Accept'' ''*/*'' hs)))))))))))),
      captcha_header_order)"

section \<open>Made-up telemetry\<close>

text \<open>Random numbers drawn one after the other.\<close>

fun draws :: "(nat \<Rightarrow> 'w \<Rightarrow> nat \<times> 'w) \<Rightarrow> nat list \<Rightarrow> 'w \<Rightarrow> nat list \<times> 'w" where
  "draws intn [] w = ([], w)"
| "draws intn (n # ns) w = (case intn n w of (k, w1) \<Rightarrow> case draws intn ns w1 of (ks, w2) \<Rightarrow> (k # ks, w2))"

text \<open>A point of the eased curve; the last of \<open>n\<close> is the target, also where 0/0 makes p no number.\<close>

definition curve_point :: "int \<times> int \<Rightarrow> int \<times> int \<Rightarrow> int \<Rightarrow> nat \<Rightarrow> nat \<Rightarrow> int \<times> int" where
  "curve_point start target curve n i =
     (if int i = int n - 1 then target
      else
        (let p = f64 (of_nat i / of_int (int n - 1));
             ease = f64 (f64 (p * p) * f64 (3 - f64 (2 * p)));
             x = fst start + f64_to_int (f64 (f64 (of_int (fst target - fst start)) * ease));
             baseY = snd start + f64_to_int (f64 (f64 (of_int (snd target - snd start)) * ease));
             bend = f64_to_int (f64 (f64 (f64 (f64 (of_int curve) * 4) * p) * f64 (1 - p)))
         in (x, baseY + bend)))"

text \<open>Three points around the target; the randoms come x and y in turn.\<close>

definition hover :: "int \<times> int \<Rightarrow> nat list \<Rightarrow> (int \<times> int) list" where
  "hover target r = map (\<lambda>j. (fst target + int (r ! (2 * j)) - 1, snd target + int (r ! (2 * j + 1)) - 1)) [0..<3]"

definition cursor_path :: "int \<times> int \<Rightarrow> int \<times> int \<Rightarrow> int \<Rightarrow> nat \<Rightarrow> nat list \<Rightarrow> (int \<times> int) list" where
  "cursor_path start target curve n r = map (curve_point start target curve n) [0..<n] @ hover target r"

definition point_text :: "int \<times> int \<Rightarrow> string" where
  "point_text q = quotes ''{`x`:'' @ int_dec (fst q) @ quotes '',`y`:'' @ int_dec (snd q) @ ''}''"

definition generateFakeCursor :: "(nat \<Rightarrow> 'w \<Rightarrow> nat \<times> 'w) \<Rightarrow> 'w \<Rightarrow> string \<times> 'w" where
  "generateFakeCursor intn w =
     (case draws intn [400, 150, 40, 20, 60, 2, 6] w of (r, w1) \<Rightarrow>
        let start = (500 + int (r ! 0), 280 + int (r ! 1));
            target = (440 + int (r ! 2), 330 + int (r ! 3));
            curve = 35 + int (r ! 4);
            curve = (if r ! 5 = 0 then - curve else curve);
            n = 20 + r ! 6
        in case draws intn (replicate 6 3) w1 of (r2, w2) \<Rightarrow>
             (''['' @ str_join '','' (map point_text (cursor_path start target curve n r2)) @ '']'', w2))"

definition human_path :: "(nat \<Rightarrow> 'w \<Rightarrow> nat \<times> 'w) \<Rightarrow> int \<times> int \<Rightarrow> int \<Rightarrow> 'w \<Rightarrow> (int \<times> int) list \<times> 'w" where
  "human_path intn target points w =
     (let n = (if points \<le> 0 then 20 else nat points) in
      case draws intn [350, 120, 70, 2] w of (r, w1) \<Rightarrow>
        let start = (fst target - 250 - int (r ! 0), snd target - 180 - int (r ! 1));
            curve = 40 + int (r ! 2);
            curve = (if r ! 3 = 0 then - curve else curve)
        in case draws intn (replicate 6 3) w1 of (r2, w2) \<Rightarrow> (cursor_path start target curve n r2, w2))"

definition buildHumanCursor :: "(rat \<Rightarrow> string) \<Rightarrow> (nat \<Rightarrow> 'w \<Rightarrow> nat \<times> 'w) \<Rightarrow> int \<Rightarrow> int \<Rightarrow> int \<Rightarrow> 'w \<Rightarrow> string \<times> 'w" where
  "buildHumanCursor num intn targetX targetY points w =
     (case human_path intn (targetX, targetY) points w of (ps, w') \<Rightarrow>
        (json_text num True (JArr (map (\<lambda>(x, y). JObj [(''x'', JInt x), (''y'', JInt y)]) ps)), w'))"

text \<open>The network values: rounds of the loop, and what is drawn for one.\<close>

fun rtt_values :: "(nat \<Rightarrow> 'w \<Rightarrow> nat \<times> 'w) \<Rightarrow> int \<Rightarrow> nat \<Rightarrow> 'w \<Rightarrow> int list \<times> 'w" where
  "rtt_values intn base 0 w = ([], w)"
| "rtt_values intn base (Suc n) w =
     (case intn 41 w of (j, w1) \<Rightarrow>
      case intn 8 w1 of (e, w2) \<Rightarrow>
      case (if e = 0 then (case intn 60 w2 of (s, w3) \<Rightarrow> (30 + int s, w3)) else (0, w2)) of (spike, w3) \<Rightarrow>
        let val = base + (int j - 10 + spike) in
        case rtt_values intn base n w3 of (vs, w4) \<Rightarrow> ((if val < 5 then 5 else val) # vs, w4))"

definition generateConnectionRtt :: "(nat \<Rightarrow> 'w \<Rightarrow> nat \<times> 'w) \<Rightarrow> int \<Rightarrow> 'w \<Rightarrow> string \<times> 'w" where
  "generateConnectionRtt intn n w =
     (case intn 40 w of (b, w1) \<Rightarrow>
      case rtt_values intn (45 + int b) (if n \<le> 0 then 10 else nat n) w1 of (vs, w2) \<Rightarrow>
        (''['' @ str_join '','' (map int_dec vs) @ '']'', w2))"

fun downlink_tenths :: "(nat \<Rightarrow> 'w \<Rightarrow> nat \<times> 'w) \<Rightarrow> int \<Rightarrow> nat \<Rightarrow> 'w \<Rightarrow> int list \<times> 'w" where
  "downlink_tenths intn base 0 w = ([], w)"
| "downlink_tenths intn base (Suc n) w =
     (case intn 7 w of (j, w1) \<Rightarrow>
        let t = base + (int j - 3) in
        case downlink_tenths intn base n w1 of (ts, w2) \<Rightarrow> ((if t < 10 then 10 else t) # ts, w2))"

text \<open>\<open>%.1f\<close> of a number that is not negative.\<close>

definition one_decimal :: "rat \<Rightarrow> string" where
  "one_decimal x = (let k = round_even (10 * x) in int_dec (k div 10) @ ''.'' @ int_dec (k mod 10))"

definition generateConnectionDownlink :: "(nat \<Rightarrow> 'w \<Rightarrow> nat \<times> 'w) \<Rightarrow> int \<Rightarrow> 'w \<Rightarrow> string \<times> 'w" where
  "generateConnectionDownlink intn n w =
     (case intn 100 w of (b, w1) \<Rightarrow>
      case downlink_tenths intn (50 + int b) (if n \<le> 0 then 16 else nat n) w1 of (ts, w2) \<Rightarrow>
        (''['' @ str_join '','' (map (\<lambda>t. one_decimal (f64 (f64 (of_int t) / 10))) ts) @ '']'', w2))"

section \<open>The first parser of the captcha page\<close>

datatype legacy_error = No_pow_input | Bad_settings

text \<open>Of the patterns of Captcha_Solve it has the first for the input and the first two for the difficulty, of which it takes 0 as well.\<close>

definition legacy_difficulty :: "string \<Rightarrow> int option" where
  "legacy_difficulty html =
     first_some (\<lambda>re. case re_find re None html of Some (x # _) \<Rightarrow> parse_int 10 x | _ \<Rightarrow> None)
       [[Lit (''startsWith('' @ sq # ''0'' @ sq # ''.repeat(''), Cap re_digit, Lit ''))''],
        [Lit ''const'', ws1, Lit ''difficulty'', ws0, Lit ''='', ws0, Cap re_digit]]"

definition parseCaptchaBootstrapHTML :: "('he, 'w) captcha_env \<Rightarrow> string \<Rightarrow> (legacy_error, captchaBootstrap) result" where
  "parseCaptchaBootstrapHTML env html =
     (case re_find ([Lit ''const'', ws1, Lit ''powInput'', ws0, Lit ''='', ws0] @ quoted dq) None html of
        Some (x # _) \<Rightarrow>
          (case parseCaptchaSettingsFromHTML env html of
             Inl _ \<Rightarrow> Inl Bad_settings
           | Inr st \<Rightarrow> Inr \<lparr>PowInput = x, Difficulty = (case legacy_difficulty html of None \<Rightarrow> 2 | Some d \<Rightarrow> d), Settings = st, DebugInfo = []\<rparr>)
      | _ \<Rightarrow> Inl No_pow_input)"

text \<open>describeCaptchaTypes, for the keys in the order of the range.\<close>

definition describeCaptchaTypes :: "string list \<Rightarrow> string" where
  "describeCaptchaTypes types = (if types = [] then ''none'' else str_join '','' (sort types))"

section \<open>Lemmas and properties\<close>

definition intn_ok :: "(nat \<Rightarrow> 'w \<Rightarrow> nat \<times> 'w) \<Rightarrow> bool" where
  "intn_ok intn \<longleftrightarrow> (\<forall>n w. 0 < n \<longrightarrow> fst (intn n w) < n)"

lemma intn_less: "intn_ok intn \<Longrightarrow> intn n w = (k, w') \<Longrightarrow> 0 < n \<Longrightarrow> k < n"
  unfolding intn_ok_def by (metis fst_conv)

lemma draws_bounds:
  assumes "intn_ok intn" and "draws intn ns w = (ks, w')" and "list_all (\<lambda>n. 0 < n) ns"
  shows "list_all2 (<) ks ns"
  using assms(2,3)
proof (induction ns arbitrary: w ks w')
  case (Cons n ns)
  then show ?case using intn_less [OF assms(1)] by (auto split: prod.splits)
qed simp

lemma rtt_bounds:
  assumes "intn_ok intn" and "rtt_values intn base n w = (vs, w')" and "45 \<le> base" and "base \<le> 84"
  shows "length vs = n \<and> (\<forall>v \<in> set vs. 35 \<le> v \<and> v \<le> 203)"
  using assms(2)
proof (induction n arbitrary: w vs w')
  case (Suc n)
  obtain j w1 e w2 where j: "intn 41 w = (j, w1)" "intn 8 w1 = (e, w2)" by fastforce
  obtain spike w3 where s: "(if e = 0 then (case intn 60 w2 of (s, w3) \<Rightarrow> (30 + int s, w3)) else (0, w2)) = (spike, w3)" by fastforce
  obtain us w4 where u: "rtt_values intn base n w3 = (us, w4)" by fastforce
  have "j < 41" using intn_less [OF assms(1) j(1)] by simp
  moreover have "0 \<le> spike \<and> spike \<le> 89"
  proof (cases "e = 0")
    case True
    obtain k w5 where k: "intn 60 w2 = (k, w5)" by fastforce
    have "k < 60" using intn_less [OF assms(1) k] by simp
    then show ?thesis using s True k by auto
  next
    case False
    then show ?thesis using s by simp
  qed
  ultimately show ?case using Suc.IH [OF u] Suc.prems j s u assms(3,4) by (auto simp: Let_def)
qed simp

lemma downlink_bounds:
  assumes "intn_ok intn" and "downlink_tenths intn base n w = (ts, w')" and "50 \<le> base" and "base \<le> 149"
  shows "length ts = n \<and> (\<forall>t \<in> set ts. 47 \<le> t \<and> t \<le> 152)"
  using assms(2)
proof (induction n arbitrary: w ts w')
  case (Suc n)
  obtain j w1 us w2 where j: "intn 7 w = (j, w1)" "downlink_tenths intn base n w1 = (us, w2)" by fastforce
  have "j < 7" using intn_less [OF assms(1) j(1)] by simp
  then show ?case using Suc.IH [OF j(2)] Suc.prems j assms(3,4) by (auto simp: Let_def)
qed simp

lemma hover_near:
  assumes "list_all2 (<) r (replicate 6 3)" and "q \<in> set (hover target r)"
  shows "\<bar>fst q - fst target\<bar> \<le> 1 \<and> \<bar>snd q - snd target\<bar> \<le> 1"
proof -
  have "i < 6 \<Longrightarrow> r ! i < 3" for i using list_all2_nthD2 [OF assms(1), of i] by simp
  then have "j < 3 \<Longrightarrow> r ! (2 * j) < 3 \<and> r ! (2 * j + 1) < 3" for j by simp
  then show ?thesis using assms(2) by (fastforce simp: hover_def)
qed

lemma cursor_path_end:
  assumes "0 < n" and "list_all2 (<) r (replicate 6 3)"
  shows "length (cursor_path start target curve n r) = n + 3" "cursor_path start target curve n r ! (n - 1) = target"
    "\<forall>q \<in> set (drop (n - 1) (cursor_path start target curve n r)). \<bar>fst q - fst target\<bar> \<le> 1 \<and> \<bar>snd q - snd target\<bar> \<le> 1"
proof -
  show l: "length (cursor_path start target curve n r) = n + 3" by (simp add: cursor_path_def hover_def)
  show t: "cursor_path start target curve n r ! (n - 1) = target"
    using assms(1) by (simp add: cursor_path_def nth_append curve_point_def of_nat_diff)
  have "drop (n - 1) (cursor_path start target curve n r) = target # drop n (cursor_path start target curve n r)"
    using Cons_nth_drop_Suc [of "n - 1" "cursor_path start target curve n r"] l t assms(1) by simp
  moreover have "drop n (cursor_path start target curve n r) = hover target r" by (simp add: cursor_path_def)
  ultimately show "\<forall>q \<in> set (drop (n - 1) (cursor_path start target curve n r)). \<bar>fst q - fst target\<bar> \<le> 1 \<and> \<bar>snd q - snd target\<bar> \<le> 1"
    using hover_near [OF assms(2)] by auto
qed

text \<open>
  The made-up values stay in the range of a real connection and of a real hand: round trips between 35 and 203 milliseconds and a downlink between 4.7 and 15.2, so that the
  lower limits of the code (5 and 1.0) never apply; a cursor has three points more than asked for, reaches its target and stays within one pixel of it.
\<close>

theorem telemetry_bounds:
  assumes "intn_ok intn"
  shows "(\<exists>vs. fst (generateConnectionRtt intn n w) = ''['' @ str_join '','' (map int_dec vs) @ '']'' \<and> length vs = (if n \<le> 0 then 10 else nat n) \<and>
      (\<forall>v \<in> set vs. 35 \<le> v \<and> v \<le> 203)) \<and>
    (\<exists>ts. fst (generateConnectionDownlink intn n w) = ''['' @ str_join '','' (map (\<lambda>t. one_decimal (f64 (f64 (of_int t) / 10))) ts) @ '']'' \<and>
      length ts = (if n \<le> 0 then 16 else nat n) \<and> (\<forall>t \<in> set ts. 47 \<le> t \<and> t \<le> 152)) \<and>
    (let k = (if n \<le> 0 then 20 else nat n); ps = fst (human_path intn target n w) in
      length ps = k + 3 \<and> ps ! (k - 1) = target \<and> (\<forall>q \<in> set (drop (k - 1) ps). \<bar>fst q - fst target\<bar> \<le> 1 \<and> \<bar>snd q - snd target\<bar> \<le> 1))"
proof (intro conjI)
  obtain b w1 where b: "intn 40 w = (b, w1)" by fastforce
  obtain vs w2 where v: "rtt_values intn (45 + int b) (if n \<le> 0 then 10 else nat n) w1 = (vs, w2)" by fastforce
  have "b < 40" using intn_less [OF assms b] by simp
  then have "length vs = (if n \<le> 0 then 10 else nat n) \<and> (\<forall>v \<in> set vs. 35 \<le> v \<and> v \<le> 203)" using rtt_bounds [OF assms v] by simp
  then show "\<exists>vs. fst (generateConnectionRtt intn n w) = ''['' @ str_join '','' (map int_dec vs) @ '']'' \<and> length vs = (if n \<le> 0 then 10 else nat n) \<and>
      (\<forall>v \<in> set vs. 35 \<le> v \<and> v \<le> 203)" unfolding generateConnectionRtt_def b prod.case v by auto
next
  obtain b w1 where b: "intn 100 w = (b, w1)" by fastforce
  obtain ts w2 where v: "downlink_tenths intn (50 + int b) (if n \<le> 0 then 16 else nat n) w1 = (ts, w2)" by fastforce
  have "b < 100" using intn_less [OF assms b] by simp
  then have "length ts = (if n \<le> 0 then 16 else nat n) \<and> (\<forall>t \<in> set ts. 47 \<le> t \<and> t \<le> 152)" using downlink_bounds [OF assms v] by simp
  then show "\<exists>ts. fst (generateConnectionDownlink intn n w) = ''['' @ str_join '','' (map (\<lambda>t. one_decimal (f64 (f64 (of_int t) / 10))) ts) @ '']'' \<and>
      length ts = (if n \<le> 0 then 16 else nat n) \<and> (\<forall>t \<in> set ts. 47 \<le> t \<and> t \<le> 152)" unfolding generateConnectionDownlink_def b prod.case v by auto
next
  let ?k = "if n \<le> 0 then 20 else nat n"
  obtain r w1 where r: "draws intn [350, 120, 70, 2] w = (r, w1)" by fastforce
  obtain r2 w2 where r2: "draws intn (replicate 6 3) w1 = (r2, w2)" by fastforce
  have "list_all2 (<) r2 (replicate 6 3)" by (rule draws_bounds [OF assms r2]) (simp add: list_all_iff)
  moreover obtain start curve where "fst (human_path intn target n w) = cursor_path start target curve ?k r2"
    unfolding human_path_def Let_def r prod.case r2 by auto
  moreover have "0 < ?k" by simp
  ultimately show "let k = ?k; ps = fst (human_path intn target n w) in
      length ps = k + 3 \<and> ps ! (k - 1) = target \<and> (\<forall>q \<in> set (drop (k - 1) ps). \<bar>fst q - fst target\<bar> \<le> 1 \<and> \<bar>snd q - snd target\<bar> \<le> 1)"
    unfolding Let_def using cursor_path_end by metis
qed

definition test_intn :: "nat \<Rightarrow> nat \<Rightarrow> nat \<times> nat" where
  "test_intn n w = (w mod n, Suc w)"

theorem telemetry_bounds_witness:
  "\<exists>vs. fst (generateConnectionRtt test_intn 2 7) = ''['' @ str_join '','' (map int_dec vs) @ '']'' \<and> length vs = 2 \<and> (\<forall>v \<in> set vs. 35 \<le> v \<and> v \<le> 203)"
  using conjunct1 [OF telemetry_bounds [of test_intn 2 7]] by (simp add: intn_ok_def test_intn_def)

section \<open>The two parsers\<close>

lemma captures_nonempty: "re_match ps p s = Some ms \<Longrightarrow> [] \<notin> set ms"
proof (induction ps p s arbitrary: ms rule: re_match.induct)
  case (3 ts ps p s)
  then show ?case by (auto dest!: first_some_SomeD split: if_splits)
next
  case (4 k P ps p s)
  then show ?case by (auto dest!: first_some_SomeD)
next
  case (5 P ps p s)
  then obtain n r where n: "n \<in> set (run 1 P s)" "re_match ps (prev_char p s n) (drop n s) = Some r" "ms = take n s # r"
    by (auto dest!: first_some_SomeD)
  have "[] \<notin> set r" using "5.IH" n by blast
  moreover have "takeWhile P s \<noteq> []" using n(1) by (auto simp: run_def)
  ultimately show ?case using n(1,3) by (auto simp: run_def)
next
  case (6 ps p s)
  then obtain n r where n: "s \<noteq> []" "2 \<le> n" "re_match ps (prev_char p s n) (drop n s) = Some r" "ms = take n s # r" "n \<in> set [2..<Suc (length s)]" "s ! (n - 1) = CHR 0x7D" "hd s = CHR 0x7B"
    by (auto dest!: first_some_SomeD split: if_splits)
  have "[] \<notin> set r" using "6.IH" n by blast
  then show ?case using n(1,2,4) by auto
qed (auto split: if_splits option.splits)

lemma found_nonempty: "re_find ps p s = Some ms \<Longrightarrow> [] \<notin> set ms"
  by (induction ps p s arbitrary: ms rule: re_find.induct) (auto split: option.splits dest: captures_nonempty)

lemma legacy_input:
  assumes "re_find ([Lit ''const'', ws1, Lit ''powInput'', ws0, Lit ''='', ws0] @ quoted dq) None html = Some (x # xs)"
  shows "extractPowInput html = Some x"
proof -
  have "x \<noteq> []" using found_nonempty [OF assms] by auto
  then show ?thesis unfolding extractPowInput_def powInputPatterns_def first_some.simps assms by simp
qed

lemma legacy_difficulty_kept:
  assumes "legacy_difficulty html = Some d" and "0 < d"
  shows "extractDifficulty html = d"
proof -
  let ?p = "[Lit (''startsWith('' @ sq # ''0'' @ sq # ''.repeat(''), Cap re_digit, Lit ''))'']"
  let ?q = "[Lit ''const'', ws1, Lit ''difficulty'', ws0, Lit ''='', ws0, Cap re_digit]"
  let ?f = "\<lambda>re. case re_find re None html of Some (x # _) \<Rightarrow> parse_int 10 x | _ \<Rightarrow> None"
  let ?g = "\<lambda>re. case re_find re None html of
         Some (x # _) \<Rightarrow> (case parse_int 10 x of Some n \<Rightarrow> (if n > 0 then Some n else None) | None \<Rightarrow> None)
       | _ \<Rightarrow> None"
  have g: "?g re = (case ?f re of Some n \<Rightarrow> if n > 0 then Some n else None | None \<Rightarrow> None)" for re by (simp split: option.split list.split)
  have "?f ?p = Some d \<or> ?f ?p = None \<and> ?f ?q = Some d"
    using assms(1) unfolding legacy_difficulty_def first_some.simps by (simp only: split: option.splits) auto
  then have "first_some ?g difficultyPatterns = Some d" unfolding difficultyPatterns_def first_some.simps g using assms(2) by auto
  then show ?thesis by (simp add: extractDifficulty_def)
qed

text \<open>
  The parser that is used now does not lose what the first one could do: on a page without an obfuscated call it finds the same input and settings wherever the
  first one found any, and the same difficulty when the page has one that is not 0 in a form the first one knew.
\<close>

theorem legacy_parser_kept:
  assumes "parseCaptchaBootstrapHTML env html = Inr b" and "extractPowSeed html = None"
  shows "\<exists>b'. parseCaptchaBootstrapHTMLExt env html = Some b' \<and> PowInput b' = PowInput b \<and> Settings b' = Settings b \<and>
    (\<forall>d. legacy_difficulty html = Some d \<longrightarrow> 0 < d \<longrightarrow> Difficulty b' = d \<and> Difficulty b = d)"
proof -
  obtain x xs st where x: "re_find ([Lit ''const'', ws1, Lit ''powInput'', ws0, Lit ''='', ws0] @ quoted dq) None html = Some (x # xs)"
    "parseCaptchaSettingsFromHTML env html = Inr st" "b = \<lparr>PowInput = x, Difficulty = (case legacy_difficulty html of None \<Rightarrow> 2 | Some d \<Rightarrow> d), Settings = st, DebugInfo = []\<rparr>"
    using assms(1) unfolding parseCaptchaBootstrapHTML_def by (auto split: option.splits list.splits sum.splits)
  show ?thesis using legacy_input [OF x(1)] assms(2) x(2) legacy_difficulty_kept [of html]
    by (auto simp: parseCaptchaBootstrapHTMLExt_def x(3))
qed

text \<open>A page without a parenthesis has no call, so no seed from the tokenizer.\<close>

lemma no_call_body:
  assumes "CHR ''('' \<notin> set body"
  shows "extract_body label body = None"
proof -
  have in_src: "tokens_in body (length body) (lexJS body)" unfolding lexJS_def by (rule lex_loop_tokens_in) (simp_all add: tokens_in_def)
  have np: "\<not> is_punct (lexJS body ! k) ''(''" if "k < length (lexJS body)" for k
  proof
    assume p: "is_punct (lexJS body ! k) ''(''"
    have "lexJS body ! k \<in> set (lexJS body)" using that by simp
    then have "take 1 (drop (tok_Pos (lexJS body ! k)) body) = ''(''" using in_src p by (auto simp: tokens_in_def is_punct_def literal_kind_def)
    then have "CHR ''('' \<in> set body" by (metis in_set_dropD in_set_takeD list.set_intros(1))
    then show False using assms by simp
  qed
  have "parseCallArgs (lexJS body) k = None" for k using np by (auto simp: parseCallArgs_def)
  then have "classifyCallAround (lexJS body) k src m = None" for k src m by (simp add: classifyCallAround_def split: option.split)
  moreover have "first_some f xs = None" if "\<forall>x \<in> set xs. f x = None" for f :: "nat \<Rightarrow> powSeed option" and xs using that by (induction xs) simp_all
  ultimately show ?thesis by (simp add: extract_body_def Let_def)
qed

lemma no_scripts: "CHR ''<'' \<notin> set s \<Longrightarrow> inline_scripts s = []"
proof (induction s)
  case (Cons c s)
  have "to_lower_char c \<noteq> CHR ''<''"
  proof
    assume l: "to_lower_char c = CHR ''<''"
    show False
    proof (cases "65 \<le> (of_char c :: nat) \<and> of_char c \<le> (90 :: nat)")
      case True
      then have "(of_char (to_lower_char c) :: nat) = of_char c + 32" by (simp add: to_lower_char_def)
      then show False using True l by simp
    next
      case False
      then show False using l Cons.prems by (auto simp: to_lower_char_def)
    qed
  qed
  then have "script_at (c # s) = None" by (simp add: script_at_def prefix_ci_def to_lower_def)
  then show ?case using Cons by simp
qed simp

lemma no_entities: "CHR ''&'' \<notin> set s \<Longrightarrow> htmlUnescapeForPow s = s"
  by (induction s) (auto simp: html_entities_def)

lemma no_call_page:
  assumes "CHR ''('' \<notin> set s" and "CHR ''<'' \<notin> set s" and "CHR ''&'' \<notin> set s"
  shows "extractPowSeed s = None"
  using assms by (simp add: extractPowSeed_def extractPowFromBodies_def no_scripts no_entities no_call_body)

definition legacy_page :: string where
  "legacy_page = quotes ''const powInput=`ab12`;const difficulty=3''"

lemma legacy_page_text: "legacy_page = ''const powInput='' @ [dq] @ ''ab12'' @ [dq] @ '';const difficulty=3''"
  by (simp add: legacy_page_def quotes_def dq_def)

lemmas re_eval = run_def prev_char_def quoted_def not_char_def re_space_def re_digit_def dq_def sq_def upt_rec_numeral upt_conv_Cons

lemma legacy_page_parts:
  "re_find ([Lit ''const'', ws1, Lit ''powInput'', ws0, Lit ''='', ws0] @ quoted dq) None legacy_page = Some [''ab12'']"
  "re_find window_init None legacy_page = None" "legacy_difficulty legacy_page = Some 3"
proof -
  have "hex_val (CHR ''3'') = Some 3" by code_simp
  then have p: "parse_int 10 ''3'' = Some 3" by (simp add: parse_int_def)
  show "re_find ([Lit ''const'', ws1, Lit ''powInput'', ws0, Lit ''='', ws0] @ quoted dq) None legacy_page = Some [''ab12'']"
    by (simp add: legacy_page_text re_eval)
  show "re_find window_init None legacy_page = None" by (simp add: legacy_page_text re_eval window_init_def)
  show "legacy_difficulty legacy_page = Some 3" using p by (simp add: legacy_difficulty_def legacy_page_text re_eval)
qed

theorem legacy_parser_kept_witness:
  "\<exists>b'. parseCaptchaBootstrapHTMLExt test_env legacy_page = Some b' \<and> PowInput b' = ''ab12'' \<and> Difficulty b' = 3"
proof -
  have "parseCaptchaBootstrapHTML test_env legacy_page = Inr \<lparr>PowInput = ''ab12'', Difficulty = 3, Settings = empty_settings, DebugInfo = []\<rparr>"
    unfolding parseCaptchaBootstrapHTML_def parseCaptchaSettingsFromHTML_def legacy_page_parts by simp
  moreover have "extractPowSeed legacy_page = None" by (rule no_call_page) (simp_all add: legacy_page_text dq_def)
  ultimately show ?thesis using legacy_parser_kept [of test_env legacy_page] legacy_page_parts(3) by auto
qed

section \<open>The profiles fit\<close>

text \<open>
  The hints of a profile name the same version of the engine, the brand and the system that its user agent does, and no mobile browser.
\<close>

definition profile_fits :: "string \<Rightarrow> Profile \<Rightarrow> bool" where
  "profile_fits v p \<longleftrightarrow> str_contains (UserAgent p) (''Chrome/'' @ v @ ''.0.0.0'') \<and> prefix (quotes (''`Chromium`;v=`'' @ v @ ''`'')) (SecChUa p) \<and>
     (str_contains (UserAgent p) ''Edg/'' \<longleftrightarrow> str_contains (SecChUa p) ''Microsoft Edge'') \<and> SecChUaMobile p = ''?0'' \<and>
     (SecChUaPlatform p, True) \<in> set [(quotes ''`Windows`'', str_contains (UserAgent p) ''Windows NT''), (quotes ''`macOS`'', str_contains (UserAgent p) ''Mac OS X''),
        (quotes ''`Linux`'', str_contains (UserAgent p) ''Linux'')]"

lemma profiles_fit: "\<forall>p \<in> set profile. \<exists>v \<in> {''144'', ''145'', ''146''}. profile_fits v p"
  by code_simp

end
