(* ===== verification/Background.thy ===== *)
theory Background
  imports Dns_Persist Vpn_Device Vk_Auth
begin

text \<open>
  Background work and the small operations around the components: the collector's goroutine (vk_hosts.go), setting the path of the persistent cache
  (dns_cache_persist.go), stopping the proxy (turn_client.go) and the VPN (vpn.go), private addresses (routes.go), and the pauses and labels of
  the authentication (vk_auth.go).

  Parameters: waiting, the orders of map ranges, and net.ParseIP as octets.
\<close>

section \<open>The collector\<close>

text \<open>
  A wait ends with the tick, or with the end of the context; when both have come, either may be seen.  \<open>orders\<close> are the orders of the ranges of each round, which are as
  many as the list has.
\<close>

fun collector_loop :: "'w dns_net \<Rightarrow> 'w dns_net \<Rightarrow> 'w prober \<Rightarrow> ('w \<Rightarrow> bool \<times> 'w) \<Rightarrow> (string list \<times> string list) list \<Rightarrow> 'w \<times> vk_hosts \<Rightarrow> 'w \<times> vk_hosts" where
  "collector_loop net bg dial wait [] ws = ws"
| "collector_loop net bg dial wait ((o1, o2) # orders) (w, vh) =
     (case wait w of
        (False, w') \<Rightarrow> (w', vh)
      | (True, w') \<Rightarrow> collector_loop net bg dial wait orders (collectMetrics net bg dial o1 o2 (w', vh)))"

text \<open>The first run comes after ten seconds, which nothing cuts short.\<close>

definition StartMetricsCollector :: "'w dns_net \<Rightarrow> 'w dns_net \<Rightarrow> 'w prober \<Rightarrow> (int \<Rightarrow> 'w \<Rightarrow> 'w) \<Rightarrow> ('w \<Rightarrow> bool \<times> 'w) \<Rightarrow> string list \<times> string list \<Rightarrow>
    (string list \<times> string list) list \<Rightarrow> 'w \<times> vk_hosts \<Rightarrow> 'w \<times> vk_hosts" where
  "StartMetricsCollector net bg dial sleep wait first orders ws =
     (case ws of (w, vh) \<Rightarrow>
        collector_loop net bg dial wait orders (collectMetrics net bg dial (fst first) (snd first) (sleep (10 * 10 ^ 9) w, vh)))"

lemma collectMetrics_ok:
  assumes "\<And>addr w ok rtt w'. dial addr w = (ok, rtt, w') \<Longrightarrow> 0 \<le> rtt" and "metrics_ok (snd ws)"
  shows "metrics_ok (snd (collectMetrics net bg dial o1 o2 ws))"
proof -
  obtain w vh where ws: "ws = (w, vh)" by fastforce
  obtain go w1 vh1 where c: "collect_dns net bg o1 (w, vh) = (go, w1, vh1)" by (metis prod_cases3)
  have "metrics_ok vh1" using collect_dns_metrics [OF c] assms(2) by (simp add: metrics_ok_def ws)
  then show ?thesis using collect_probes_ok [of dial vh1, OF assms(1)] by (simp add: collectMetrics_def ws c Let_def)
qed

text \<open>The metrics invariant holds however long the collector runs.\<close>

lemma collector_keeps_metrics:
  assumes "\<And>addr w ok rtt w'. dial addr w = (ok, rtt, w') \<Longrightarrow> 0 \<le> rtt" and "metrics_ok vh"
  shows "metrics_ok (snd (StartMetricsCollector net bg dial sleep wait first orders (w, vh)))"
proof -
  have "metrics_ok (snd ws) \<Longrightarrow> metrics_ok (snd (collector_loop net bg dial wait orders ws))" for ws
  proof (induction orders arbitrary: ws)
    case (Cons r orders)
    obtain o1 o2 w vh where e: "r = (o1, o2)" "ws = (w, vh)" by (cases r; cases ws) auto
    show ?case using Cons collectMetrics_ok [of dial, OF assms(1)] by (auto simp: e split: prod.split bool.split)
  qed simp
  then show ?thesis using collectMetrics_ok [of dial, OF assms(1)] assms(2) by (simp add: StartMetricsCollector_def)
qed

section \<open>The path of the persistent cache\<close>

text \<open>
  The path, and the saver goroutines with the channel that each waits for; the last channel is that of the cache, which Stop
  closes.
\<close>

record persist_ctl =
  ctl_path :: string
  ctl_stopped :: bool
  ctl_chan :: nat
  ctl_closed :: "nat set"
  ctl_savers :: "nat list"

definition Persist_init :: persist_ctl where
  "Persist_init = \<lparr>ctl_path = [], ctl_stopped = False, ctl_chan = 0, ctl_closed = {}, ctl_savers = []\<rparr>"

definition startSaver :: "persist_ctl \<Rightarrow> persist_ctl" where
  "startSaver p =
     (let p = (if \<not> ctl_stopped p then p\<lparr>ctl_closed := insert (ctl_chan p) (ctl_closed p)\<rparr> else p);
          p = p\<lparr>ctl_chan := Suc (ctl_chan p), ctl_stopped := False\<rparr>
      in p\<lparr>ctl_savers := ctl_savers p @ [ctl_chan p]\<rparr>)"

text \<open>An error of the load only is a log line.\<close>

definition SetCachePath :: "(string \<Rightarrow> int option) \<Rightarrow> int \<Rightarrow> string list \<Rightarrow> string list \<Rightarrow> string \<Rightarrow> file_system \<Rightarrow> persist_ctl \<times> vk_hosts \<Rightarrow> persist_ctl \<times> vk_hosts" where
  "SetCachePath prs now o1 o2 path fs st =
     (case st of (p, vh) \<Rightarrow>
        if path = [] then (p, vh)
        else (startSaver (p\<lparr>ctl_path := path\<rparr>), snd (persist_Load prs now o1 o2 path fs vh)))"

definition SaveNow :: "(int \<Rightarrow> string) \<Rightarrow> int \<Rightarrow> (string \<Rightarrow> string list) \<Rightarrow> bool \<Rightarrow> bool \<Rightarrow> persist_ctl \<Rightarrow> vk_hosts \<times> file_system \<Rightarrow> vk_hosts \<times> file_system" where
  "SaveNow fmt now keys wrote renamed p st = snd (persist_save fmt now keys wrote renamed (ctl_path p) st)"

definition stop_channels :: "persist_ctl \<Rightarrow> persist_ctl option" where
  "stop_channels p =
     (if ctl_stopped p then Some p
      else if ctl_chan p \<in> ctl_closed p then None
      else Some (p\<lparr>ctl_stopped := True, ctl_closed := insert (ctl_chan p) (ctl_closed p)\<rparr>))"

text \<open>
  However often the path is set and the cache stopped, no channel is closed twice, which would panic (\<open>None\<close>), and all savers but the last are told to
  end; after a stop the last is, too (that Stop then waits for it in vain is in Dns_Persist).
\<close>

datatype ctl_call = Path string | Stop_call

fun ctl_run :: "ctl_call list \<Rightarrow> persist_ctl \<Rightarrow> persist_ctl option" where
  "ctl_run [] p = Some p"
| "ctl_run (Path path # cs) p = ctl_run cs (if path = [] then p else startSaver (p\<lparr>ctl_path := path\<rparr>))"
| "ctl_run (Stop_call # cs) p = (case stop_channels p of None \<Rightarrow> None | Some p' \<Rightarrow> ctl_run cs p')"

definition ctl_inv :: "persist_ctl \<Rightarrow> bool" where
  "ctl_inv p \<longleftrightarrow> ctl_closed p = (if ctl_stopped p then {..ctl_chan p} else {..<ctl_chan p}) \<and> ctl_savers p = [1..<Suc (ctl_chan p)]"

lemma ctl_inv_start: "ctl_inv p \<Longrightarrow> ctl_inv (startSaver (p\<lparr>ctl_path := path\<rparr>))"
  by (auto simp: ctl_inv_def startSaver_def Let_def)

lemma ctl_inv_stop: "ctl_inv p \<Longrightarrow> \<exists>p'. stop_channels p = Some p' \<and> ctl_inv p' \<and> ctl_stopped p'"
  by (auto simp: ctl_inv_def stop_channels_def)

theorem savers_ended:
  "\<exists>p. ctl_run cs Persist_init = Some p \<and> distinct (ctl_savers p) \<and> set (butlast (ctl_savers p)) \<subseteq> ctl_closed p \<and>
     (ctl_stopped p \<longrightarrow> set (ctl_savers p) \<subseteq> ctl_closed p)"
proof -
  have "ctl_inv p \<Longrightarrow> \<exists>p'. ctl_run cs p = Some p' \<and> ctl_inv p'" for p
  proof (induction cs p rule: ctl_run.induct)
    case (3 cs p)
    then obtain p' where "stop_channels p = Some p'" "ctl_inv p'" using ctl_inv_stop by blast
    then show ?case using "3.IH" by auto
  qed (auto simp: ctl_inv_start)
  moreover have "ctl_inv Persist_init" by (simp add: ctl_inv_def Persist_init_def)
  ultimately obtain p where p: "ctl_run cs Persist_init = Some p" "ctl_inv p" by blast
  have "butlast [1..<Suc n] = [1..<n]" for n by (cases n) simp_all
  then show ?thesis using p by (auto simp: ctl_inv_def)
qed

section \<open>Stopping\<close>

text \<open>The cancel function of the proxy that runs, and the proxies that are cancelled.\<close>

definition StopProxy :: "nat option \<times> nat set \<Rightarrow> nat option \<times> nat set" where
  "StopProxy st = (case st of (cur, cancelled) \<Rightarrow> (None, cancelled \<union> set_option cur))"

text \<open>The two parts of a VPN device that may be there; the result is what is called on them.\<close>

definition vpn_Stop :: "bool \<Rightarrow> bool \<Rightarrow> string list" where
  "vpn_Stop dev tun = (if dev then [''dev.Down''] else []) @ (if tun then [''tun.Close''] else [])"

section \<open>Private addresses\<close>

text \<open>An IPv4 address also in the form of 16 octets.\<close>

definition to4 :: "nat list \<Rightarrow> nat list option" where
  "to4 ip = (if length ip = 4 then Some ip
     else if length ip = 16 \<and> take 12 ip = replicate 10 0 @ [255, 255] then Some (drop 12 ip) else None)"

definition ip_private :: "nat list \<Rightarrow> bool" where
  "ip_private ip = (case to4 ip of
     Some v \<Rightarrow> v ! 0 = 10 \<or> v ! 0 = 172 \<and> v ! 1 div 16 = 1 \<or> v ! 0 = 192 \<and> v ! 1 = 168
   | None \<Rightarrow> length ip = 16 \<and> ip ! 0 div 2 = 126)"

definition ip_loopback :: "nat list \<Rightarrow> bool" where
  "ip_loopback ip = (case to4 ip of Some v \<Rightarrow> v ! 0 = 127 | None \<Rightarrow> ip = replicate 15 0 @ [1])"

definition ip_link_local :: "nat list \<Rightarrow> bool" where
  "ip_link_local ip = (case to4 ip of
     Some v \<Rightarrow> v ! 0 = 169 \<and> v ! 1 = 254
   | None \<Rightarrow> length ip = 16 \<and> ip ! 0 = 254 \<and> ip ! 1 div 64 = 2)"

definition IsPrivateIP :: "(string \<Rightarrow> nat list option) \<Rightarrow> string \<Rightarrow> bool" where
  "IsPrivateIP parse ip = (case parse ip of None \<Rightarrow> False | Some b \<Rightarrow> ip_private b \<or> ip_loopback b \<or> ip_link_local b)"

section \<open>Pauses and labels\<close>

text \<open>\<open>None\<close> is the panic of rand.Intn for an empty range; the result is the pause in milliseconds.\<close>

definition vkDelayRandom :: "(nat \<Rightarrow> 'w \<Rightarrow> nat \<times> 'w) \<Rightarrow> int \<Rightarrow> int \<Rightarrow> 'w \<Rightarrow> int option \<times> 'w" where
  "vkDelayRandom intn minMs maxMs w =
     (if maxMs - minMs + 1 \<le> 0 then (None, w)
      else (case intn (nat (maxMs - minMs + 1)) w of (k, w') \<Rightarrow> (Some (minMs + int k), w')))"

definition captchaSolveModeLabel :: "captchaSolveMode \<Rightarrow> string" where
  "captchaSolveModeLabel mode = (case mode of
     captchaSolveModeAuto \<Rightarrow> ''auto captcha''
   | captchaSolveModeSliderPOC \<Rightarrow> ''auto captcha slider POC''
   | captchaSolveModeManual \<Rightarrow> ''manual captcha'')"

lemma delay_bounds:
  assumes "\<And>n w. 0 < n \<Longrightarrow> fst (intn n w) < n" and "a \<le> b"
  shows "\<exists>ms. fst (vkDelayRandom intn a b w) = Some ms \<and> a \<le> ms \<and> ms \<le> b"
  using assms(1) [of "nat (b - a + 1)" w] assms(2) by (auto simp: vkDelayRandom_def split: prod.split)

end
